(* ===== verification/Uring_Prelude.thy ===== *)
theory Uring_Prelude
  imports Complex_Main "HOL-Library.AList" "HOL-Library.Word"
begin

text \<open>
  The shared prelude: Python exceptions, the state-and-exception computations every
  component is written in, a small frame logic for them (the locale \<open>step_relation\<close>),
  insertion-ordered dictionaries, and the conversions between Python integers and the C
  integers of the \<open>cdef\<close> of \<open>_ffi_build.py\<close>.
\<close>

section \<open>Exceptions and error numbers\<close>

datatype exn =
    OSError int
  | RuntimeError string
  | ValueError string
  | TypeError string
  | AttributeError string
  | BufferError
  | OverflowError
  | AssertionError
  | InvalidStateError
  | CancelledError
  | IndexError
  | KeyboardInterrupt
  | SystemExit
  | IllegalAddress
  | OutOfBoundsWrite

text \<open>
  \<open>OSError\<close> carries its \<open>errno\<close>; \<open>IllegalAddress\<close> is the \<open>OSError\<close> without one that
  \<open>socket.inet_aton\<close> and \<open>socket.inet_pton\<close> raise. \<open>OutOfBoundsWrite\<close> is no Python exception: it marks
  the runs in which a raw copy leaves the C object it writes to, after which nothing is
  known of the process.
\<close>

abbreviation EINTR :: int where "EINTR \<equiv> 4"
abbreviation ENOENT :: int where "ENOENT \<equiv> 2"
abbreviation ECHILD :: int where "ECHILD \<equiv> 10"
abbreviation EPIPE :: int where "EPIPE \<equiv> 32"
abbreviation EAGAIN :: int where "EAGAIN \<equiv> 11"
abbreviation ETIME :: int where "ETIME \<equiv> 62"
abbreviation EADDRINUSE :: int where "EADDRINUSE \<equiv> 98"
abbreviation ECANCELED :: int where "ECANCELED \<equiv> 125"

definition is_OSError :: "exn \<Rightarrow> bool" where
  "is_OSError e = (case e of OSError _ \<Rightarrow> True | IllegalAddress \<Rightarrow> True | _ \<Rightarrow> False)"

lemma is_OSError_simps [simp]:
  "is_OSError (OSError n)"
  "\<not> is_OSError (RuntimeError m)"
  "\<not> is_OSError BufferError"
  "\<not> is_OSError OverflowError"
  by (simp_all add: is_OSError_def)

section \<open>Computations\<close>

text \<open>
  A Python call on a state \<open>'s\<close> either does not return (\<open>None\<close>), raises (\<open>Inl\<close>) or
  returns a value (\<open>Inr\<close>); in both of the latter cases the state it leaves is part of the
  outcome, because an exception does not undo what ran before it.
\<close>

type_synonym ('s, 'a) py = "'s \<Rightarrow> ((exn + 'a) \<times> 's) option"

definition ret :: "'a \<Rightarrow> ('s, 'a) py" where
  "ret x = (\<lambda>s. Some (Inr x, s))"

definition raise :: "exn \<Rightarrow> ('s, 'a) py" where
  "raise e = (\<lambda>s. Some (Inl e, s))"

definition bindM :: "('s, 'a) py \<Rightarrow> ('a \<Rightarrow> ('s, 'b) py) \<Rightarrow> ('s, 'b) py" where
  "bindM m f = (\<lambda>s. case m s of
       None \<Rightarrow> None
     | Some (r, s') \<Rightarrow> (case r of Inl e \<Rightarrow> Some (Inl e, s') | Inr x \<Rightarrow> f x s'))"

definition thenM :: "('s, 'a) py \<Rightarrow> ('s, 'b) py \<Rightarrow> ('s, 'b) py" where
  "thenM m k = bindM m (\<lambda>_. k)"

definition catchM :: "('s, 'a) py \<Rightarrow> (exn \<Rightarrow> ('s, 'a) py) \<Rightarrow> ('s, 'a) py" where
  "catchM m h = (\<lambda>s. case m s of
       None \<Rightarrow> None
     | Some (r, s') \<Rightarrow> (case r of Inl e \<Rightarrow> h e s' | Inr x \<Rightarrow> Some (Inr x, s')))"

definition getM :: "('s \<Rightarrow> 'a) \<Rightarrow> ('s, 'a) py" where
  "getM f = (\<lambda>s. Some (Inr (f s), s))"

text \<open>A computation chosen by looking at the state it starts in.\<close>

definition readM :: "('s \<Rightarrow> ('s, 'a) py) \<Rightarrow> ('s, 'a) py" where
  "readM f = (\<lambda>s. f s s)"

definition modM :: "('s \<Rightarrow> 's) \<Rightarrow> ('s, unit) py" where
  "modM f = (\<lambda>s. Some (Inr (), f s))"

definition actM :: "('s \<Rightarrow> 'a \<times> 's) \<Rightarrow> ('s, 'a) py" where
  "actM f = (\<lambda>s. case f s of (x, s') \<Rightarrow> Some (Inr x, s'))"

definition tryM :: "('s \<Rightarrow> (exn + 'a) \<times> 's) \<Rightarrow> ('s, 'a) py" where
  "tryM f = (\<lambda>s. Some (f s))"

definition ofE :: "exn + 'a \<Rightarrow> ('s, 'a) py" where
  "ofE r = (\<lambda>s. Some (r, s))"

text \<open>\<open>try ... finally\<close>: an exception of the final part replaces the outcome of the first.\<close>

definition finallyM :: "('s, 'a) py \<Rightarrow> ('s, unit) py \<Rightarrow> ('s, 'a) py" where
  "finallyM m k = (\<lambda>s. case m s of
       None \<Rightarrow> None
     | Some (r, s1) \<Rightarrow> (case k s1 of
         None \<Rightarrow> None
       | Some (r', s2) \<Rightarrow> (case r' of Inl e \<Rightarrow> Some (Inl e, s2) | Inr _ \<Rightarrow> Some (r, s2))))"

definition whenM :: "bool \<Rightarrow> ('s, unit) py \<Rightarrow> ('s, unit) py" where
  "whenM b m = (if b then m else ret ())"

fun forM :: "'a list \<Rightarrow> ('a \<Rightarrow> ('s, unit) py) \<Rightarrow> ('s, unit) py" where
  "forM [] f = ret ()"
| "forM (x # xs) f = thenM (f x) (forM xs f)"

text \<open>Running a computation on one component of a larger state.\<close>

definition zoomM :: "('t \<Rightarrow> 's) \<Rightarrow> ('s \<Rightarrow> 't \<Rightarrow> 't) \<Rightarrow> ('s, 'a) py \<Rightarrow> ('t, 'a) py" where
  "zoomM g p m = (\<lambda>t. case m (g t) of None \<Rightarrow> None | Some (r, s') \<Rightarrow> Some (r, p s' t))"

named_theorems py_defs "the computations, unfolded for evaluation"

lemmas [py_defs] = ret_def raise_def bindM_def thenM_def catchM_def getM_def readM_def
  modM_def actM_def tryM_def ofE_def whenM_def zoomM_def finallyM_def

lemma bindM_ret [simp]: "bindM (ret x) f = f x"
  by (simp add: bindM_def ret_def)

lemma bindM_raise [simp]: "bindM (raise e) f = raise e"
  by (simp add: bindM_def raise_def)

lemma bindM_ret_right [simp]: "bindM m ret = m"
  by (rule ext) (auto simp: bindM_def ret_def split: option.splits sum.splits)

lemma bindM_assoc: "bindM (bindM m f) g = bindM m (\<lambda>x. bindM (f x) g)"
  by (rule ext) (auto simp: bindM_def split: option.splits sum.splits)

lemma thenM_ret [simp]: "thenM (ret x) k = k"
  by (simp add: thenM_def)

lemma catchM_ret [simp]: "catchM (ret x) h = ret x"
  by (simp add: catchM_def ret_def)

lemma catchM_raise [simp]: "catchM (raise e) h = h e"
  by (simp add: catchM_def raise_def)

text \<open>Inversion of an outcome, the step every functional lemma starts with.\<close>

lemma bindM_Inr_iff:
  "bindM m f s = Some (Inr y, t) \<longleftrightarrow>
     (\<exists>x s'. m s = Some (Inr x, s') \<and> f x s' = Some (Inr y, t))"
  by (auto simp: bindM_def split: option.splits sum.splits)

lemma thenM_Inr_iff:
  "thenM m k s = Some (Inr y, t) \<longleftrightarrow> (\<exists>x s'. m s = Some (Inr x, s') \<and> k s' = Some (Inr y, t))"
  by (simp add: thenM_def bindM_Inr_iff)

lemma ret_Inr_iff: "ret x s = Some (Inr y, t) \<longleftrightarrow> y = x \<and> t = s"
  by (auto simp: ret_def)

lemma bindM_run: "m s = Some (Inr x, s') \<Longrightarrow> bindM m f s = f x s'"
  by (simp add: bindM_def)

lemma thenM_run: "m s = Some (Inr x, s') \<Longrightarrow> thenM m k s = k s'"
  by (simp add: thenM_def bindM_def)

section \<open>Weakest preconditions\<close>

text \<open>
  \<open>wp nt m s Q X\<close>: run from \<open>s\<close>, the computation returns a value satisfying \<open>Q\<close> or raises
  an exception satisfying \<open>X\<close>; \<open>nt\<close> says whether it may instead not return. The equations
  below reduce it to conditions on the parts.
\<close>

definition wp ::
  "bool \<Rightarrow> ('s, 'a) py \<Rightarrow> 's \<Rightarrow> ('a \<Rightarrow> 's \<Rightarrow> bool) \<Rightarrow> (exn \<Rightarrow> 's \<Rightarrow> bool) \<Rightarrow> bool" where
  "wp nt m s Q X = (case m s of
       None \<Rightarrow> nt
     | Some (r, t) \<Rightarrow> (case r of Inl e \<Rightarrow> X e t | Inr x \<Rightarrow> Q x t))"

named_theorems wp_rules "the weakest preconditions of the computations"

lemma wp_ret [wp_rules]: "wp nt (ret x) s Q X = Q x s"
  by (simp add: wp_def ret_def)

lemma wp_raise [wp_rules]: "wp nt (raise e) s Q X = X e s"
  by (simp add: wp_def raise_def)

lemma wp_bindM [wp_rules]: "wp nt (bindM m f) s Q X = wp nt m s (\<lambda>x t. wp nt (f x) t Q X) X"
  by (simp add: wp_def bindM_def split: option.split sum.split)

lemma wp_thenM [wp_rules]: "wp nt (thenM m k) s Q X = wp nt m s (\<lambda>x t. wp nt k t Q X) X"
  by (simp add: thenM_def wp_bindM)

lemma wp_catchM [wp_rules]: "wp nt (catchM m h) s Q X = wp nt m s Q (\<lambda>e t. wp nt (h e) t Q X)"
  by (simp add: wp_def catchM_def split: option.split sum.split)

lemma wp_finallyM [wp_rules]:
  "wp nt (finallyM m k) s Q X = wp nt m s (\<lambda>x t. wp nt k t (\<lambda>_. Q x) X) (\<lambda>e t. wp nt k t (\<lambda>_. X e) X)"
  by (simp add: wp_def finallyM_def split: option.split sum.split)

lemma wp_getM [wp_rules]: "wp nt (getM f) s Q X = Q (f s) s"
  by (simp add: wp_def getM_def)

lemma wp_modM [wp_rules]: "wp nt (modM f) s Q X = Q () (f s)"
  by (simp add: wp_def modM_def)

lemma wp_actM [wp_rules]: "wp nt (actM f) s Q X = (case f s of (x, t) \<Rightarrow> Q x t)"
  by (simp add: wp_def actM_def split: prod.split)

lemma wp_tryM [wp_rules]:
  "wp nt (tryM f) s Q X = (case f s of (r, t) \<Rightarrow> (case r of Inl e \<Rightarrow> X e t | Inr x \<Rightarrow> Q x t))"
  by (simp add: wp_def tryM_def)

lemma wp_ofE [wp_rules]: "wp nt (ofE r) s Q X = (case r of Inl e \<Rightarrow> X e s | Inr x \<Rightarrow> Q x s)"
  by (simp add: wp_def ofE_def)

lemma wp_whenM [wp_rules]: "wp nt (whenM b m) s Q X = (if b then wp nt m s Q X else Q () s)"
  by (simp add: whenM_def wp_ret)

lemma wp_zoomM [wp_rules]:
  "wp nt (zoomM g p m) s Q X = wp nt m (g s) (\<lambda>x t. Q x (p t s)) (\<lambda>e t. X e (p t s))"
  by (simp add: wp_def zoomM_def split: option.split sum.split)

lemma wp_readM [wp_rules]: "wp nt (readM f) s Q X = wp nt (f s) s Q X"
  by (simp add: wp_def readM_def)

lemma wp_if [wp_rules]: "wp nt (if b then m else k) s Q X = (if b then wp nt m s Q X else wp nt k s Q X)"
  by simp

lemma wp_mono:
  "wp nt m s Q X \<Longrightarrow> (\<And>x t. Q x t \<Longrightarrow> Q' x t) \<Longrightarrow> (\<And>e t. X e t \<Longrightarrow> X' e t) \<Longrightarrow> wp nt m s Q' X'"
  by (auto simp: wp_def split: option.splits sum.splits)

lemma wp_conj: "wp nt m s Q X \<Longrightarrow> wp nt m s Q' X' \<Longrightarrow>
    wp nt m s (\<lambda>x t. Q x t \<and> Q' x t) (\<lambda>e t. X e t \<and> X' e t)"
  by (auto simp: wp_def split: option.splits sum.splits)

lemma wp_weaken: "wp False m s Q X \<Longrightarrow> wp nt m s Q X"
  by (auto simp: wp_def split: option.splits)

lemma wp_Inr: "wp nt m s Q X \<Longrightarrow> m s = Some (Inr x, t) \<Longrightarrow> Q x t"
  by (simp add: wp_def)

lemma wp_Inl: "wp nt m s Q X \<Longrightarrow> m s = Some (Inl e, t) \<Longrightarrow> X e t"
  by (simp add: wp_def)

lemma wp_total: "wp False m s Q X \<Longrightarrow> \<exists>r t. m s = Some (r, t)"
  by (auto simp: wp_def split: option.splits)

lemma wp_outcome: "wp True m s (\<lambda>_. Q) (\<lambda>_. Q) \<Longrightarrow> m s = Some (r, t) \<Longrightarrow> Q t"
  by (cases r) (auto simp: wp_def)

lemma wpI:
  "(\<And>x t. m s = Some (Inr x, t) \<Longrightarrow> Q x t) \<Longrightarrow> (\<And>e t. m s = Some (Inl e, t) \<Longrightarrow> X e t) \<Longrightarrow>
   wp True m s Q X"
  by (auto simp: wp_def split: option.split sum.split)

lemma wp_thenM_I:
  "(\<And>x t. m s = Some (Inr x, t) \<Longrightarrow> wp True k t Q X) \<Longrightarrow> (\<And>e t. m s = Some (Inl e, t) \<Longrightarrow> X e t) \<Longrightarrow>
   wp True (thenM m k) s Q X"
  by (simp add: wp_thenM wpI)

lemma wp_forM:
  assumes "\<And>x s. x \<in> set xs \<Longrightarrow> I s \<Longrightarrow> wp nt (f x) s (\<lambda>_. I) X" and "I s"
  shows "wp nt (forM xs f) s (\<lambda>_. I) X"
  using assms
proof (induction xs arbitrary: s)
  case Nil
  then show ?case by (simp add: wp_ret)
next
  case (Cons x xs)
  have "wp nt (f x) s (\<lambda>_. I) X" by (rule Cons.prems) (simp_all add: Cons.prems)
  then show ?case
    by (simp add: wp_thenM) (erule wp_mono, rule Cons.IH, auto intro: Cons.prems)
qed

section \<open>A frame logic for computations\<close>

text \<open>
  \<open>keeps R m\<close>: every outcome of \<open>m\<close>, returned or raised, leaves a state related by \<open>R\<close>
  to the one it started from. With \<open>R s t = (I s \<longrightarrow> I t)\<close> it says that \<open>m\<close> preserves the
  invariant \<open>I\<close>; with \<open>R s t = (f t = f s)\<close> that it leaves \<open>f\<close> alone.
\<close>

definition keeps :: "('s \<Rightarrow> 's \<Rightarrow> bool) \<Rightarrow> ('s, 'a) py \<Rightarrow> bool" where
  "keeps R m \<longleftrightarrow> (\<forall>s r t. m s = Some (r, t) \<longrightarrow> R s t)"

lemma keepsI: "(\<And>s r t. m s = Some (r, t) \<Longrightarrow> R s t) \<Longrightarrow> keeps R m"
  by (auto simp: keeps_def)

lemma keepsD: "keeps R m \<Longrightarrow> m s = Some (r, t) \<Longrightarrow> R s t"
  by (auto simp: keeps_def)

lemma keeps_mono: "keeps R m \<Longrightarrow> (\<And>s t. R s t \<Longrightarrow> Q s t) \<Longrightarrow> keeps Q m"
  by (auto simp: keeps_def)

lemma keeps_wp: "keeps R m \<longleftrightarrow> (\<forall>s. wp True m s (\<lambda>_. R s) (\<lambda>_. R s))"
  by (auto simp: keeps_def wp_def split: option.splits sum.splits)

locale step_relation =
  fixes R :: "'s \<Rightarrow> 's \<Rightarrow> bool"
  assumes step_refl: "R s s"
    and step_trans: "R s t \<Longrightarrow> R t u \<Longrightarrow> R s u"
begin

lemma keeps_ret: "keeps R (ret x)"
  by (auto simp: keeps_def ret_def step_refl)

lemma keeps_raise: "keeps R (raise e)"
  by (auto simp: keeps_def raise_def step_refl)

lemma keeps_getM: "keeps R (getM f)"
  by (auto simp: keeps_def getM_def step_refl)

lemma keeps_readM: "(\<And>s. keeps R (f s)) \<Longrightarrow> keeps R (readM f)"
  by (auto simp: keeps_def readM_def)

lemma keeps_ofE: "keeps R (ofE r)"
  by (auto simp: keeps_def ofE_def step_refl)

lemma keeps_modM: "(\<And>s. R s (f s)) \<Longrightarrow> keeps R (modM f)"
  by (auto simp: keeps_def modM_def)

lemma keeps_bindM: "keeps R m \<Longrightarrow> (\<And>x. keeps R (f x)) \<Longrightarrow> keeps R (bindM m f)"
  by (auto simp: keeps_def bindM_def split: option.splits sum.splits)
    (metis step_trans)+

lemma keeps_thenM: "keeps R m \<Longrightarrow> keeps R k \<Longrightarrow> keeps R (thenM m k)"
  by (simp add: thenM_def keeps_bindM)

lemma keeps_catchM: "keeps R m \<Longrightarrow> (\<And>e. keeps R (h e)) \<Longrightarrow> keeps R (catchM m h)"
  by (auto simp: keeps_def catchM_def split: option.splits sum.splits)
    (metis step_trans)+

lemma keeps_whenM: "keeps R m \<Longrightarrow> keeps R (whenM b m)"
  by (simp add: whenM_def keeps_ret)

lemma keeps_forM: "(\<And>x. keeps R (f x)) \<Longrightarrow> keeps R (forM xs f)"
  by (induction xs) (auto intro: keeps_ret keeps_thenM)

lemma keeps_zoomM:
  "(\<And>t s'. R t (p s' t)) \<Longrightarrow> keeps R (zoomM g p m)"
  by (auto simp: keeps_def zoomM_def split: option.splits)

lemmas keeps_rules = keeps_ret keeps_raise keeps_getM keeps_readM keeps_ofE keeps_bindM keeps_thenM
  keeps_catchM keeps_whenM keeps_forM

end

section \<open>Insertion-ordered dictionaries\<close>

text \<open>
  A Python \<open>dict\<close> keeps its insertion order, and an assignment to a present key keeps the
  key's place: that is \<open>AList.update\<close>. \<open>dict_pop\<close> is \<open>dict.pop\<close>, whose \<open>KeyError\<close> is
  \<open>None\<close>.
\<close>

definition dict_pop :: "'k \<Rightarrow> ('k \<times> 'v) list \<Rightarrow> ('v \<times> ('k \<times> 'v) list) option" where
  "dict_pop k d = (case map_of d k of None \<Rightarrow> None | Some v \<Rightarrow> Some (v, AList.delete k d))"

abbreviation dict_keys :: "('k \<times> 'v) list \<Rightarrow> 'k set" where
  "dict_keys d \<equiv> fst ` set d"

lemma dict_pop_None: "dict_pop k d = None \<longleftrightarrow> k \<notin> dict_keys d"
  by (simp add: dict_pop_def map_of_eq_None_iff split: option.split)
    (metis map_of_eq_None_iff option.distinct(1))

lemma dict_pop_SomeD:
  "dict_pop k d = Some (v, d') \<Longrightarrow> map_of d k = Some v \<and> d' = AList.delete k d"
  by (auto simp: dict_pop_def split: option.splits)

lemma update_fresh: "k \<notin> dict_keys d \<Longrightarrow> AList.update k v d = d @ [(k, v)]"
  by (induction d) auto

lemma dict_keys_delete [simp]: "dict_keys (AList.delete k d) = dict_keys d - {k}"
  by (induction d) auto

lemma set_delete: "set (AList.delete k xs) = {x \<in> set xs. fst x \<noteq> k}"
  by (induction xs) auto

lemma set_update_new: "x \<in> set (AList.update k v d) \<Longrightarrow> x = (k, v) \<or> x \<in> set d"
  by (induction d) (auto split: if_splits)

end
