(* ===== verification/Uring_Env.thy ===== *)
theory Uring_Env
  imports Uring_Prelude
begin

text \<open>
  The C interface of \<open>_ffi_build.py\<close> and the world outside the Python code. The structs and
  the prototypes of the \<open>cdef\<close> are data types here; what \<open>liburing\<close>, the kernel and the
  operating system do behind them is not in the repository, so it is the parameter
  \<open>env\<close>: one function per call, over a world \<open>'w\<close> of its own.
\<close>

section \<open>C integers\<close>

text \<open>
  CFFI converts a Python integer argument to the C type of the prototype and raises
  \<open>OverflowError\<close> when it does not fit.
\<close>

definition c_int :: "int \<Rightarrow> exn + int" where
  "c_int x = (if - 2147483648 \<le> x \<and> x \<le> 2147483647 then Inr x else Inl OverflowError)"

definition c_unsigned :: "int \<Rightarrow> exn + int" where
  "c_unsigned x = (if 0 \<le> x \<and> x \<le> 4294967295 then Inr x else Inl OverflowError)"

definition c_int64 :: "int \<Rightarrow> exn + int" where
  "c_int64 x = (if - 9223372036854775808 \<le> x \<and> x \<le> 9223372036854775807
                then Inr x else Inl OverflowError)"

definition c_u64 :: "int \<Rightarrow> exn + int" where
  "c_u64 x = (if 0 \<le> x \<and> x \<le> 18446744073709551615 then Inr x else Inl OverflowError)"

definition c_u16 :: "int \<Rightarrow> exn + int" where
  "c_u16 x = (if 0 \<le> x \<and> x \<le> 65535 then Inr x else Inl OverflowError)"

lemmas [py_defs] = c_int_def c_unsigned_def c_int64_def c_u64_def c_u16_def

text \<open>A C \<open>int\<close> that comes back is a 32-bit word, read as two's complement.\<close>

lemma sint_32 [simp]:
  "- 2147483648 \<le> x \<Longrightarrow> x \<le> 2147483647 \<Longrightarrow> sint (word_of_int x :: 32 word) = x"
  by (simp add: sint_uint take_bit_eq_mod signed_take_bit_eq_take_bit_shift uint_word_of_int mod_add_left_eq)

lemma sint32_range: "- 2147483648 \<le> sint (x :: 32 word) \<and> sint x \<le> 2147483647"
  using sint_ge [of x] sint_lt [of x] by simp

lemma c_int_sint [simp]: "c_int (sint (x :: 32 word)) = Inr (sint x)"
  using sint32_range [of x] by (simp add: c_int_def)

section \<open>Socket addresses\<close>

datatype family = AF_INET | AF_INET6 | AF_UNIX | AF_OTHER int

record sockaddr_in =
  sin_family :: family
  sin_port :: "16 word"
  s_addr :: "32 word"

record sockaddr_in6 =
  sin6_family :: family
  sin6_port :: "16 word"
  sin6_flowinfo :: "32 word"
  s6_addr :: "8 word list"
  sin6_scope_id :: "32 word"

record sockaddr_un =
  sun_family :: family
  sun_path :: "8 word list"

datatype sockaddr =
    SockaddrIn sockaddr_in
  | SockaddrIn6 sockaddr_in6
  | SockaddrUn sockaddr_un

text \<open>
  The Python side of an address, \<open>pyAddress\<close>: a tuple of a host string and further integers
  (port, then flow label and scope for IPv6), a string given by its UTF-8 encoding, or a
  bytes-like object.
\<close>

datatype pyAddress =
    AddrTuple string "int list"
  | AddrStr "8 word list"
  | AddrBytes "8 word list"

section \<open>Python objects that reach the kernel\<close>

text \<open>
  A socket's family, type and protocol never change; its descriptor does (\<open>close\<close>), so the
  world is asked for it. A buffer is its memory cell, whether it is read-only, and the bytes
  it exports.
\<close>

record socket =
  sock_id :: nat
  sock_family :: family
  sock_type :: int
  sock_proto :: int

datatype fileobj = SockObj socket | IOObj nat | FdInt int

record pybuf =
  buf_cell :: nat
  buf_readonly :: bool
  buf_nbytes :: nat

record iovec =
  iov_cell :: nat
  iov_base :: nat
  iov_len :: nat

record msghdr =
  msg_cell :: nat
  msg_name :: "nat option"
  msg_namelen :: int
  msg_iov :: iovec
  msg_iovlen :: nat
  msg_control :: "nat option"
  msg_controllen :: nat
  msg_flags :: int

record kernel_timespec =
  tv_sec :: int
  tv_nsec :: int

text \<open>A completion as the kernel writes it, and as the Python code reads its fields.\<close>

record c_cqe =
  c_user_data :: "64 word"
  c_res :: "32 word"

record IoUringCqe =
  cqe_user_data :: int
  cqe_res :: int

text \<open>
  The calls of \<open>liburing\<close> that fill a submission entry, with their converted arguments;
  pointers are memory cells.
\<close>

datatype prep_call =
    prep_send int nat nat int
  | prep_recv int nat nat int
  | prep_accept int nat nat int
  | prep_connect int nat int
  | prep_cancel64 int int
  | prep_recvmsg int msghdr int
  | prep_sendmsg int msghdr int
  | prep_splice int int int int int int
  | prep_poll_add int int
  | prep_read int nat int int
  | prep_write int nat int int

section \<open>The world\<close>

record 'w env =
  e_queue_init :: "int \<Rightarrow> int \<Rightarrow> 'w \<Rightarrow> 32 word \<times> 'w"
  e_queue_exit :: "'w \<Rightarrow> 'w"
  e_get_sqe :: "'w \<Rightarrow> nat option \<times> 'w"
  e_prep :: "nat \<Rightarrow> prep_call \<Rightarrow> 'w \<Rightarrow> 'w"
  e_set_data64 :: "nat \<Rightarrow> int \<Rightarrow> 'w \<Rightarrow> 'w"
  e_set_flags :: "nat \<Rightarrow> int \<Rightarrow> 'w \<Rightarrow> 'w"
  e_submit :: "'w \<Rightarrow> 32 word \<times> 'w"
  e_sq_ready :: "'w \<Rightarrow> nat"
  e_sq_space_left :: "'w \<Rightarrow> nat"
  e_peek_cqe :: "'w \<Rightarrow> (32 word \<times> c_cqe) \<times> 'w"
  e_wait_cqe :: "'w \<Rightarrow> (32 word \<times> c_cqe) \<times> 'w"
  e_wait_cqe_timeout :: "kernel_timespec \<Rightarrow> 'w \<Rightarrow> (32 word \<times> c_cqe) \<times> 'w"
  e_cqe_seen :: "c_cqe \<Rightarrow> 'w \<Rightarrow> 'w"
  e_IOSQE_IO_HARDLINK :: int
  e_bytearray :: "nat \<Rightarrow> 'w \<Rightarrow> nat \<times> 'w"
  e_ffi_new :: "'w \<Rightarrow> nat \<times> 'w"
  e_new_sockaddr :: "sockaddr \<Rightarrow> 'w \<Rightarrow> nat \<times> 'w"
  e_bytes :: "nat \<Rightarrow> 'w \<Rightarrow> 8 word list"
  e_sockaddr :: "nat \<Rightarrow> 'w \<Rightarrow> sockaddr"
  e_sock_fileno :: "socket \<Rightarrow> 'w \<Rightarrow> 32 word"
  e_io_fileno :: "nat \<Rightarrow> 'w \<Rightarrow> exn + 32 word"
  e_pipe :: "'w \<Rightarrow> (exn + 32 word \<times> 32 word) \<times> 'w"
  e_close :: "int \<Rightarrow> 'w \<Rightarrow> (exn + unit) \<times> 'w"
  e_socket_fromfd :: "family \<Rightarrow> int \<Rightarrow> int \<Rightarrow> int \<Rightarrow> 'w \<Rightarrow> (exn + socket) \<times> 'w"
  e_getdefaulttimeout :: "'w \<Rightarrow> rat option"
  e_gettimeout :: "socket \<Rightarrow> 'w \<Rightarrow> rat option"
  e_setblocking :: "socket \<Rightarrow> bool \<Rightarrow> 'w \<Rightarrow> 'w"
  e_inet_pton6 :: "string \<Rightarrow> (8 word list) option"
  e_inet_ntop6 :: "8 word list \<Rightarrow> string"

text \<open>
  What the documentation of \<open>liburing\<close> says of the submission queue: its free and its
  prepared entries add up to the queue size; \<open>io_uring_get_sqe\<close> returns \<open>NULL\<close> exactly when
  no entry is free and otherwise takes one; a submission consumes the number of entries it
  returns, and none when it fails; no other call moves the queue.
\<close>

definition sq_frame_laws :: "'w env \<Rightarrow> bool" where
  "sq_frame_laws E \<longleftrightarrow>
     (\<forall>q c w. e_sq_ready E (e_prep E q c w) = e_sq_ready E w) \<and>
     (\<forall>q d w. e_sq_ready E (e_set_data64 E q d w) = e_sq_ready E w) \<and>
     (\<forall>q f w. e_sq_ready E (e_set_flags E q f w) = e_sq_ready E w) \<and>
     (\<forall>w. e_sq_ready E (snd (e_ffi_new E w)) = e_sq_ready E w) \<and>
     (\<forall>w. e_sq_ready E (snd (e_pipe E w)) = e_sq_ready E w)"

definition sq_laws :: "'w env \<Rightarrow> nat \<Rightarrow> bool" where
  "sq_laws E n \<longleftrightarrow>
     (\<forall>w. e_sq_ready E w + e_sq_space_left E w = n) \<and>
     (\<forall>w. e_sq_space_left E w = 0 \<longrightarrow> e_get_sqe E w = (None, w)) \<and>
     (\<forall>w. 0 < e_sq_space_left E w \<longrightarrow>
        (\<exists>q w'. e_get_sqe E w = (Some q, w') \<and> e_sq_ready E w' = Suc (e_sq_ready E w))) \<and>
     (\<forall>w r w'. e_submit E w = (r, w') \<longrightarrow>
        (if sint r < 0 then e_sq_ready E w' = e_sq_ready E w
         else int (e_sq_ready E w') = int (e_sq_ready E w) - sint r)) \<and>
     sq_frame_laws E"

lemma sq_total: "sq_laws E n \<Longrightarrow> e_sq_space_left E w = n - e_sq_ready E w \<and> e_sq_ready E w \<le> n"
  by (auto simp: sq_laws_def) (metis add_diff_cancel_left' , metis le_add1)

lemma get_sqe_full:
  "sq_laws E n \<Longrightarrow> e_sq_space_left E w = 0 \<Longrightarrow> e_get_sqe E w = (None, w)"
  by (simp add: sq_laws_def)

lemma get_sqe_free:
  "sq_laws E n \<Longrightarrow> 0 < e_sq_space_left E w \<Longrightarrow>
     \<exists>q w'. e_get_sqe E w = (Some q, w') \<and> e_sq_ready E w' = Suc (e_sq_ready E w)"
  by (simp add: sq_laws_def)

lemma submit_ready:
  "sq_laws E n \<Longrightarrow> e_submit E w = (r, w') \<Longrightarrow>
     (if sint r < 0 then e_sq_ready E w' = e_sq_ready E w
      else int (e_sq_ready E w') = int (e_sq_ready E w) - sint r)"
  by (simp add: sq_laws_def)

lemma sq_frame:
  assumes "sq_laws E n"
  shows "e_sq_ready E (e_prep E q c w) = e_sq_ready E w"
    and "e_sq_ready E (e_set_data64 E q d w) = e_sq_ready E w"
    and "e_sq_ready E (e_set_flags E q f w) = e_sq_ready E w"
    and "e_sq_ready E (snd (e_ffi_new E w)) = e_sq_ready E w"
    and "e_sq_ready E (snd (e_pipe E w)) = e_sq_ready E w"
  using assms by (simp_all add: sq_laws_def sq_frame_laws_def)

text \<open>
  Signals do not interrupt a call for ever: each interrupted submission spends one unit of a
  budget that a successful one does not refill.
\<close>

definition eintr_budget :: "'w env \<Rightarrow> ('w \<Rightarrow> nat) \<Rightarrow> bool" where
  "eintr_budget E m \<longleftrightarrow>
     (\<forall>w r w'. e_submit E w = (r, w') \<longrightarrow>
        (if sint r = - EINTR then m w' < m w else m w' \<le> m w))"

end
