(* ===== verification/Uring_Request.thy ===== *)
theory Uring_Request
  imports Uring_Env
begin

text \<open>
  \<open>request.py\<close>: the dataclasses of the requests handed to \<open>liburing\<close>. The fields whose
  names start with an underscore in the source hold the C data a preparation allocates; they
  are what keeps that memory alive while the kernel may use it.
\<close>

record SendRequest =
  snd_sock :: socket
  snd_buffer :: pybuf
  snd_flags :: int
  snd_buffer_cdata :: "nat option"

record WriteRequest =
  wr_file :: fileobj
  wr_buffer :: pybuf
  wr_offset :: int
  wr_buffer_cdata :: "nat option"

record RecvRequest =
  rcv_sock :: socket
  rcv_buffer :: pybuf
  rcv_flags :: int
  rcv_buffer_cdata :: "nat option"

record ReadRequest =
  rd_file :: fileobj
  rd_buffer :: pybuf
  rd_offset :: int
  rd_buffer_cdata :: "nat option"

record AcceptRequest =
  acc_sock :: socket
  acc_sockaddr :: nat
  acc_flags :: int
  acc_addrlen_ptr :: "nat option"

record ConnectRequest =
  con_sock :: socket
  con_sockaddr :: nat

record Cancel64Request =
  can_user_data :: int
  can_flags :: int

record SendToRequest =
  sto_sock :: socket
  sto_buffer :: pybuf
  sto_sockaddr :: "nat option"
  sto_msghdr_flags :: int
  sto_flags :: int
  sto_msghdr :: "nat option"
  sto_iov :: "nat option"
  sto_iov_base :: "nat option"

record RecvFromRequest =
  rfr_sock :: socket
  rfr_buffer :: pybuf
  rfr_sockaddr :: nat
  rfr_msghdr_flags :: int
  rfr_flags :: int
  rfr_msghdr :: "nat option"
  rfr_iov :: "nat option"
  rfr_iov_base :: "nat option"

record SpliceRequest =
  spl_file_in :: fileobj
  spl_off_in :: int
  spl_file_out :: fileobj
  spl_off_out :: int
  spl_nbytes :: int
  spl_splice_flags :: int

record PollAddRequest =
  pol_file :: fileobj
  pol_poll_mask :: int

datatype KernelRequest =
    SendReq SendRequest
  | WriteReq WriteRequest
  | RecvReq RecvRequest
  | ReadReq ReadRequest
  | AcceptReq AcceptRequest
  | ConnectReq ConnectRequest
  | Cancel64Req Cancel64Request
  | SendToReq SendToRequest
  | RecvFromReq RecvFromRequest
  | SpliceReq SpliceRequest
  | PollAddReq PollAddRequest

section \<open>Memory owned by a request, memory used by the kernel\<close>

text \<open>
  \<open>owned_cells\<close>: the C memory a request object keeps alive. \<open>call_cells\<close>: the memory the
  kernel reaches from a prepared entry. The safety property of the preparations is that the
  second is part of the first.
\<close>

fun owned_cells :: "KernelRequest \<Rightarrow> nat set" where
  "owned_cells (SendReq r) = set_option (snd_buffer_cdata r)"
| "owned_cells (WriteReq r) = set_option (wr_buffer_cdata r)"
| "owned_cells (RecvReq r) = set_option (rcv_buffer_cdata r)"
| "owned_cells (ReadReq r) = set_option (rd_buffer_cdata r)"
| "owned_cells (AcceptReq r) = insert (acc_sockaddr r) (set_option (acc_addrlen_ptr r))"
| "owned_cells (ConnectReq r) = {con_sockaddr r}"
| "owned_cells (Cancel64Req r) = {}"
| "owned_cells (SendToReq r) = set_option (sto_sockaddr r) \<union> set_option (sto_msghdr r)
     \<union> set_option (sto_iov r) \<union> set_option (sto_iov_base r)"
| "owned_cells (RecvFromReq r) = insert (rfr_sockaddr r) (set_option (rfr_msghdr r)
     \<union> set_option (rfr_iov r) \<union> set_option (rfr_iov_base r))"
| "owned_cells (SpliceReq r) = {}"
| "owned_cells (PollAddReq r) = {}"

definition msghdr_cells :: "msghdr \<Rightarrow> nat set" where
  "msghdr_cells m = {msg_cell m, iov_cell (msg_iov m), iov_base (msg_iov m)}
     \<union> set_option (msg_name m) \<union> set_option (msg_control m)"

fun call_cells :: "prep_call \<Rightarrow> nat set" where
  "call_cells (prep_send fd b n f) = {b}"
| "call_cells (prep_recv fd b n f) = {b}"
| "call_cells (prep_accept fd a l f) = {a, l}"
| "call_cells (prep_connect fd a l) = {a}"
| "call_cells (prep_cancel64 u f) = {}"
| "call_cells (prep_recvmsg fd m f) = msghdr_cells m"
| "call_cells (prep_sendmsg fd m f) = msghdr_cells m"
| "call_cells (prep_splice a b c d e f) = {}"
| "call_cells (prep_poll_add fd m) = {}"
| "call_cells (prep_read fd b n off) = {b}"
| "call_cells (prep_write fd b n off) = {b}"

section \<open>What a request asks and what it pins\<close>

text \<open>
  \<open>unpinned\<close>: the request as it was constructed, before a preparation filled the fields that hold
  C data. \<open>pins_held\<close>: those fields are filled, the ones for a buffer with the memory of the
  request's own buffer.
\<close>

fun unpinned :: "KernelRequest \<Rightarrow> KernelRequest" where
  "unpinned (SendReq r) = SendReq (r\<lparr>snd_buffer_cdata := None\<rparr>)"
| "unpinned (WriteReq r) = WriteReq (r\<lparr>wr_buffer_cdata := None\<rparr>)"
| "unpinned (RecvReq r) = RecvReq (r\<lparr>rcv_buffer_cdata := None\<rparr>)"
| "unpinned (ReadReq r) = ReadReq (r\<lparr>rd_buffer_cdata := None\<rparr>)"
| "unpinned (AcceptReq r) = AcceptReq (r\<lparr>acc_addrlen_ptr := None\<rparr>)"
| "unpinned (SendToReq r) = SendToReq (r\<lparr>sto_msghdr := None, sto_iov := None, sto_iov_base := None\<rparr>)"
| "unpinned (RecvFromReq r) = RecvFromReq (r\<lparr>rfr_msghdr := None, rfr_iov := None, rfr_iov_base := None\<rparr>)"
| "unpinned r = r"

fun pins_held :: "KernelRequest \<Rightarrow> bool" where
  "pins_held (SendReq r) = (snd_buffer_cdata r = Some (buf_cell (snd_buffer r)))"
| "pins_held (WriteReq r) = (wr_buffer_cdata r = Some (buf_cell (wr_buffer r)))"
| "pins_held (RecvReq r) = (rcv_buffer_cdata r = Some (buf_cell (rcv_buffer r)))"
| "pins_held (ReadReq r) = (rd_buffer_cdata r = Some (buf_cell (rd_buffer r)))"
| "pins_held (AcceptReq r) = (acc_addrlen_ptr r \<noteq> None)"
| "pins_held (SendToReq r) = (sto_iov_base r = Some (buf_cell (sto_buffer r)) \<and> sto_iov r \<noteq> None \<and> sto_msghdr r \<noteq> None)"
| "pins_held (RecvFromReq r) = (rfr_iov_base r = Some (buf_cell (rfr_buffer r)) \<and> rfr_iov r \<noteq> None \<and> rfr_msghdr r \<noteq> None)"
| "pins_held r = True"

definition asks :: "KernelRequest \<Rightarrow> KernelRequest \<Rightarrow> bool" where
  "asks request r \<longleftrightarrow> unpinned r = unpinned request \<and> pins_held r"

end
