(* ===== verification/Uring_Layout.thy ===== *)
theory Uring_Layout
  imports Uring_Prelude
begin

text \<open>
  The C types that \<open>_ffi_build.py\<close> declares in its \<open>cdef\<close>, as descriptions, and the rules by which
  a C compiler for a 64-bit Linux (LP64) lays them out: the members of a struct follow each
  other at the next multiple of their alignment, those of a union share one place, and an
  anonymous member (its name is empty) lends its members to the struct around it. The sizes are
  the ones the Python code asks \<open>ffi.sizeof\<close> for.
\<close>

section \<open>Types\<close>

datatype ctype =
    CInt nat
  | CPtr
  | CArray nat ctype
  | CFlex ctype
  | CPacked ctype
  | CStruct "(string \<times> ctype) list"
  | CUnion "(string \<times> ctype) list"

definition pad_to :: "nat \<Rightarrow> nat \<Rightarrow> nat" where
  "pad_to a n = (n + a - 1) div a * a"

fun c_align :: "ctype \<Rightarrow> nat" and c_aligns :: "(string \<times> ctype) list \<Rightarrow> nat" where
  "c_align (CInt n) = n"
| "c_align CPtr = 8"
| "c_align (CArray n t) = c_align t"
| "c_align (CFlex t) = c_align t"
| "c_align (CPacked t) = 1"
| "c_align (CStruct fs) = c_aligns fs"
| "c_align (CUnion fs) = c_aligns fs"
| "c_aligns [] = 1"
| "c_aligns ((x, t) # fs) = max (c_align t) (c_aligns fs)"

text \<open>
  \<open>c_end n fs\<close>: where the last of the members \<open>fs\<close> ends when the first may begin at \<open>n\<close>;
  \<open>c_widest\<close>: the size of the largest.
\<close>

fun c_size :: "ctype \<Rightarrow> nat" and c_end :: "nat \<Rightarrow> (string \<times> ctype) list \<Rightarrow> nat"
  and c_widest :: "(string \<times> ctype) list \<Rightarrow> nat" where
  "c_size (CInt n) = n"
| "c_size CPtr = 8"
| "c_size (CArray n t) = n * c_size t"
| "c_size (CFlex t) = 0"
| "c_size (CPacked t) = c_size t"
| "c_size (CStruct fs) = pad_to (c_aligns fs) (c_end 0 fs)"
| "c_size (CUnion fs) = pad_to (c_aligns fs) (c_widest fs)"
| "c_end n [] = n"
| "c_end n ((x, t) # fs) = c_end (pad_to (c_align t) n + c_size t) fs"
| "c_widest [] = 0"
| "c_widest ((x, t) # fs) = max (c_size t) (c_widest fs)"

text \<open>Where a member begins, searched through anonymous members, and its type.\<close>

fun c_member :: "string \<Rightarrow> ctype \<Rightarrow> (nat \<times> ctype) option"
  and c_struct_member :: "string \<Rightarrow> nat \<Rightarrow> (string \<times> ctype) list \<Rightarrow> (nat \<times> ctype) option"
  and c_union_member :: "string \<Rightarrow> (string \<times> ctype) list \<Rightarrow> (nat \<times> ctype) option" where
  "c_member f (CStruct fs) = c_struct_member f 0 fs"
| "c_member f (CUnion fs) = c_union_member f fs"
| "c_member f (CPacked t) = c_member f t"
| "c_member f _ = None"
| "c_struct_member f n [] = None"
| "c_struct_member f n ((x, t) # fs) =
     (let o1 = pad_to (c_align t) n in
      if x \<noteq> [] \<and> x = f then Some (o1, t)
      else case (if x = [] then c_member f t else None) of
          Some (o2, u) \<Rightarrow> Some (o1 + o2, u)
        | None \<Rightarrow> c_struct_member f (o1 + c_size t) fs)"
| "c_union_member f [] = None"
| "c_union_member f ((x, t) # fs) =
     (if x \<noteq> [] \<and> x = f then Some (0, t)
      else case (if x = [] then c_member f t else None) of
          Some y \<Rightarrow> Some y
        | None \<Rightarrow> c_union_member f fs)"

definition c_offset :: "ctype \<Rightarrow> string \<Rightarrow> nat option" where
  "c_offset t f = map_option fst (c_member f t)"

section \<open>The declarations\<close>

abbreviation c_char :: ctype where "c_char \<equiv> CInt 1"
abbreviation c_short :: ctype where "c_short \<equiv> CInt 2"
abbreviation c_int_t :: ctype where "c_int_t \<equiv> CInt 4"
abbreviation c_size_t :: ctype where "c_size_t \<equiv> CInt 8"

definition u8 :: ctype where "u8 = CInt 1"
definition u16 :: ctype where "u16 = CInt 2"
definition u32 :: ctype where "u32 = CInt 4"
definition u64 :: ctype where "u64 = CInt 8"
definition s32 :: ctype where "s32 = CInt 4"
definition kernel_rwf_t :: ctype where "kernel_rwf_t = c_int_t"
definition socklen_t :: ctype where "socklen_t = c_int_t"
definition sa_family_t :: ctype where "sa_family_t = c_short"

lemmas c_typedefs [simp] = u8_def u16_def u32_def u64_def s32_def kernel_rwf_t_def socklen_t_def sa_family_t_def

definition struct_io_uring_sq :: ctype where
  "struct_io_uring_sq = CStruct [
     (''khead'', CPtr), (''ktail'', CPtr), (''kring_mask'', CPtr), (''kring_entries'', CPtr),
     (''kflags'', CPtr), (''kdropped'', CPtr), (''array'', CPtr), (''sqes'', CPtr),
     (''sqe_head'', c_int_t), (''sqe_tail'', c_int_t),
     (''ring_sz'', c_size_t), (''ring_ptr'', CPtr),
     (''ring_mask'', c_int_t), (''ring_entries'', c_int_t), (''pad'', CArray 2 c_int_t)]"

definition struct_io_uring_cq :: ctype where
  "struct_io_uring_cq = CStruct [
     (''khead'', CPtr), (''ktail'', CPtr), (''kring_mask'', CPtr), (''kring_entries'', CPtr),
     (''kflags'', CPtr), (''koverflow'', CPtr), (''cqes'', CPtr),
     (''ring_sz'', c_size_t), (''ring_ptr'', CPtr),
     (''ring_mask'', c_int_t), (''ring_entries'', c_int_t), (''pad'', CArray 2 c_int_t)]"

definition struct_io_uring :: ctype where
  "struct_io_uring = CStruct [
     (''sq'', struct_io_uring_sq), (''cq'', struct_io_uring_cq), (''flags'', c_int_t), (''ring_fd'', c_int_t),
     (''features'', c_int_t), (''enter_ring_fd'', c_int_t), (''int_flags'', u8), (''pad'', CArray 3 u8),
     (''pad2'', c_int_t)]"

text \<open>
  A submission entry. The argument is what the \<open>cdef\<close> says of the union around \<open>buf_index\<close>: the
  kernel's header packs it, the declaration here does not.
\<close>

definition sqe_with :: "(ctype \<Rightarrow> ctype) \<Rightarrow> ctype" where
  "sqe_with pack = CStruct [
     (''opcode'', u8), (''flags'', u8), (''ioprio'', u16), (''fd'', s32),
     ([], CUnion [(''off'', u64), (''addr2'', u64), ([], CStruct [(''cmd_op'', u32), (''__pad1'', u32)])]),
     ([], CUnion [(''addr'', u64), (''splice_off_in'', u64)]),
     (''len'', u32),
     ([], CUnion [(''rw_flags'', kernel_rwf_t), (''fsync_flags'', u32), (''poll_events'', u16),
        (''poll32_events'', u32), (''sync_range_flags'', u32), (''msg_flags'', u32), (''timeout_flags'', u32),
        (''accept_flags'', u32), (''cancel_flags'', u32), (''open_flags'', u32), (''statx_flags'', u32),
        (''fadvise_advice'', u32), (''splice_flags'', u32), (''rename_flags'', u32), (''unlink_flags'', u32),
        (''hardlink_flags'', u32), (''xattr_flags'', u32), (''msg_ring_flags'', u32), (''uring_cmd_flags'', u32)]),
     (''user_data'', u64),
     ([], pack (CUnion [(''buf_index'', u16), (''buf_group'', u16)])),
     (''personality'', u16),
     ([], CUnion [(''splice_fd_in'', s32), (''file_index'', u32),
        ([], CStruct [(''addr_len'', u16), (''__pad3'', CArray 1 u16)])]),
     ([], CUnion [([], CStruct [(''addr3'', u64), (''__pad2'', CArray 1 u64)]), (''cmd'', CArray 0 u8)])]"

definition struct_io_uring_sqe :: ctype where
  "struct_io_uring_sqe = sqe_with (\<lambda>t. t)"

definition struct_io_uring_cqe :: ctype where
  "struct_io_uring_cqe = CStruct [(''user_data'', u64), (''res'', s32), (''flags'', u32), (''big_cqe'', CFlex u64)]"

definition struct_sockaddr :: ctype where
  "struct_sockaddr = CStruct [(''sa_family'', sa_family_t), (''sa_data'', CArray 14 c_char)]"

definition struct_in_addr :: ctype where
  "struct_in_addr = CStruct [(''s_addr'', CInt 4)]"

text \<open>
  The declaration of \<open>in6_addr\<close> is left open (\<open>...;\<close>): CFFI completes it from the system's header,
  which may overlay the sixteen bytes with wider words. So the address type is an argument of the
  struct around it, whose layout does not depend on that (\<open>in6_open\<close> below).
\<close>

definition struct_in6_addr :: ctype where
  "struct_in6_addr = CStruct [(''s6_addr'', CArray 16 (CInt 1))]"

definition sockaddr_in6_with :: "ctype \<Rightarrow> ctype" where
  "sockaddr_in6_with addr = CStruct [(''sin6_family'', sa_family_t), (''sin6_port'', CInt 2),
     (''sin6_flowinfo'', CInt 4), (''sin6_addr'', addr), (''sin6_scope_id'', CInt 4)]"

definition struct_sockaddr_in :: ctype where
  "struct_sockaddr_in = CStruct [(''sin_family'', sa_family_t), (''sin_port'', CInt 2),
     (''sin_addr'', struct_in_addr), (''sin_zero'', CArray 8 c_char)]"

definition struct_sockaddr_in6 :: ctype where
  "struct_sockaddr_in6 = sockaddr_in6_with struct_in6_addr"

definition struct_sockaddr_un :: ctype where
  "struct_sockaddr_un = CStruct [(''sun_family'', sa_family_t), (''sun_path'', CArray 108 c_char)]"

definition struct_kernel_timespec :: ctype where
  "struct_kernel_timespec = CStruct [(''tv_sec'', CInt 8), (''tv_nsec'', CInt 8)]"

definition struct_iovec :: ctype where
  "struct_iovec = CStruct [(''iov_base'', CPtr), (''iov_len'', c_size_t)]"

definition struct_msghdr :: ctype where
  "struct_msghdr = CStruct [(''msg_name'', CPtr), (''msg_namelen'', c_int_t), (''msg_iov'', CPtr),
     (''msg_iovlen'', c_size_t), (''msg_control'', CPtr), (''msg_controllen'', c_size_t), (''msg_flags'', c_int_t)]"

lemmas struct_defs = struct_io_uring_sq_def struct_io_uring_cq_def struct_io_uring_def struct_io_uring_sqe_def
  sqe_with_def struct_io_uring_cqe_def struct_sockaddr_def struct_in_addr_def struct_in6_addr_def
  struct_sockaddr_in_def sockaddr_in6_with_def struct_sockaddr_in6_def struct_sockaddr_un_def struct_kernel_timespec_def
  struct_iovec_def struct_msghdr_def

definition cdef_structs :: "ctype list" where
  "cdef_structs = [struct_io_uring_sq, struct_io_uring_cq, struct_io_uring, struct_io_uring_sqe,
     struct_io_uring_cqe, struct_sockaddr, struct_in_addr, struct_in6_addr, struct_sockaddr_in,
     struct_sockaddr_in6, struct_sockaddr_un, struct_kernel_timespec, struct_iovec, struct_msghdr]"

lemma sockaddr_sizes [simp]:
  "c_size struct_sockaddr_in = 16" "c_size struct_sockaddr_in6 = 28" "c_size struct_sockaddr_un = 110"
  by code_simp+

lemma in6_open:
  assumes "c_size addr = 16" and "c_align addr \<in> {1, 2, 4}"
  shows "c_size (sockaddr_in6_with addr) = c_size struct_sockaddr_in6"
    and "map (c_offset (sockaddr_in6_with addr)) [''sin6_family'', ''sin6_port'', ''sin6_flowinfo'', ''sin6_addr'', ''sin6_scope_id''] =
      map Some [0, 2, 4, 8, 24]"
  using assms by (auto simp: sockaddr_in6_with_def c_offset_def pad_to_def)

section \<open>What the layout of any type guarantees\<close>

text \<open>
  Well-formed: integers have one of the four sizes of the platform. Then every alignment is a
  power of two up to 8, so alignments divide one another.
\<close>

fun c_wf :: "ctype \<Rightarrow> bool" and c_wfs :: "(string \<times> ctype) list \<Rightarrow> bool" where
  "c_wf (CInt n) = (n \<in> {1, 2, 4, 8})"
| "c_wf CPtr = True"
| "c_wf (CArray n t) = c_wf t"
| "c_wf (CFlex t) = c_wf t"
| "c_wf (CPacked t) = c_wf t"
| "c_wf (CStruct fs) = c_wfs fs"
| "c_wf (CUnion fs) = c_wfs fs"
| "c_wfs [] = True"
| "c_wfs ((x, t) # fs) = (c_wf t \<and> c_wfs fs)"

lemma align_cases:
  shows "c_wf t \<Longrightarrow> c_align t \<in> {1, 2, 4, 8}" and "c_wfs fs \<Longrightarrow> c_aligns fs \<in> {1, 2, 4, 8}"
  by (induction t and fs rule: c_align_c_aligns.induct) (auto simp: max_def)

lemma align_pos: "c_wf t \<Longrightarrow> 0 < c_align t" "c_wfs fs \<Longrightarrow> 0 < c_aligns fs"
  using align_cases(1) [of t] align_cases(2) [of fs] by auto

lemma pad_ge: "0 < a \<Longrightarrow> n \<le> pad_to a n"
  unfolding pad_to_def using div_mult_mod_eq [of "n + a - 1" a] mod_less_divisor [of a "n + a - 1"] by linarith

lemma pad_dvd: "a dvd pad_to a n"
  by (simp add: pad_to_def)

lemma cons_aligns:
  assumes "c_wfs ((x, t) # fs)"
  shows "c_align t dvd c_aligns ((x, t) # fs)" "a dvd c_aligns fs \<Longrightarrow> a dvd c_aligns ((x, t) # fs)"
    "a dvd c_align t \<Longrightarrow> a dvd c_aligns ((x, t) # fs)"
proof -
  have "c_align t \<in> {1, 2, 4, 8}" "c_aligns fs \<in> {1, 2, 4, 8}"
    using assms align_cases(1) [of t] align_cases(2) [of fs] by auto
  then have "c_align t dvd max (c_align t) (c_aligns fs)" "c_aligns fs dvd max (c_align t) (c_aligns fs)"
    by (auto simp: max_def)
  then show "c_align t dvd c_aligns ((x, t) # fs)" "a dvd c_aligns fs \<Longrightarrow> a dvd c_aligns ((x, t) # fs)"
    "a dvd c_align t \<Longrightarrow> a dvd c_aligns ((x, t) # fs)"
    by (auto intro: dvd_trans)
qed

lemma end_ge: "c_wfs fs \<Longrightarrow> n \<le> c_end n fs"
proof (induction fs arbitrary: n)
  case (Cons f fs)
  obtain x t where f: "f = (x, t)" by fastforce
  have "n \<le> pad_to (c_align t) n" using Cons.prems by (simp add: f pad_ge align_pos)
  also have "\<dots> \<le> c_end (pad_to (c_align t) n + c_size t) fs"
    using Cons.IH [of "pad_to (c_align t) n + c_size t"] Cons.prems by (simp add: f)
  finally show ?case by (simp add: f)
qed simp

text \<open>The members of a struct with their places, in the order of the declaration.\<close>

fun c_places :: "nat \<Rightarrow> (string \<times> ctype) list \<Rightarrow> (nat \<times> ctype) list" where
  "c_places n [] = []"
| "c_places n ((x, t) # fs) = (pad_to (c_align t) n, t) # c_places (pad_to (c_align t) n + c_size t) fs"

lemma places_bounds:
  "c_wfs fs \<Longrightarrow> (k, t) \<in> set (c_places n fs) \<Longrightarrow> n \<le> k \<and> c_align t dvd k \<and> k + c_size t \<le> c_end n fs"
proof (induction fs arbitrary: n)
  case (Cons f fs)
  obtain x u where f: "f = (x, u)" by fastforce
  have n: "n \<le> pad_to (c_align u) n" using Cons.prems(1) by (simp add: f pad_ge align_pos)
  show ?case
    using Cons.prems(2) Cons.IH [of "pad_to (c_align u) n + c_size u"] Cons.prems(1) n
      end_ge [of fs "pad_to (c_align u) n + c_size u"]
    by (auto simp: f pad_dvd)
qed simp

lemma places_sorted:
  "c_wfs fs \<Longrightarrow> sorted_wrt (\<lambda>(k, t) (l, u). k + c_size t \<le> l) (c_places n fs)"
proof (induction fs arbitrary: n)
  case (Cons f fs)
  obtain x u where f: "f = (x, u)" by fastforce
  show ?case
    using Cons places_bounds [of fs _ _ "pad_to (c_align u) n + c_size u"] by (auto simp: f)
qed simp

lemma size_aligned: "c_wf (CStruct fs) \<Longrightarrow> c_align (CStruct fs) dvd c_size (CStruct fs)"
  by (simp add: pad_dvd)

text \<open>
  A member found by name, however deep, begins at a multiple of its own alignment and ends
  inside the type it was found in, if nothing on the way is packed.
\<close>

fun c_plain :: "ctype \<Rightarrow> bool" and c_plains :: "(string \<times> ctype) list \<Rightarrow> bool" where
  "c_plain (CPacked t) = False"
| "c_plain (CArray n t) = c_plain t"
| "c_plain (CStruct fs) = c_plains fs"
| "c_plain (CUnion fs) = c_plains fs"
| "c_plain _ = True"
| "c_plains [] = True"
| "c_plains ((x, t) # fs) = (c_plain t \<and> c_plains fs)"

lemma struct_member_ConsE:
  assumes "c_struct_member f n ((x, t) # fs) = Some (k, u)"
  obtains (here) "k = pad_to (c_align t) n" "u = t"
  | (anon) d where "c_member f t = Some (d, u)" "k = pad_to (c_align t) n + d" "x = []" "\<not> (x \<noteq> [] \<and> x = f)"
  | (later) "c_struct_member f (pad_to (c_align t) n + c_size t) fs = Some (k, u)"
      "(if x = [] then c_member f t else None) = None" "\<not> (x \<noteq> [] \<and> x = f)"
proof (cases "x \<noteq> [] \<and> x = f")
  case True
  then show thesis using assms by (intro here) auto
next
  case False
  show thesis
  proof (cases "if x = [] then c_member f t else None")
    case None
    show thesis by (rule later [OF _ None False]) (use assms None False in \<open>simp add: Let_def\<close>)
  next
    case (Some y)
    then have x: "x = []" "c_member f t = Some y" by (simp_all split: if_splits)
    show thesis
      by (rule anon [of "fst y"]) (use assms x False in \<open>auto simp: Let_def split: prod.splits\<close>)
  qed
qed

lemma union_member_ConsE:
  assumes "c_union_member f ((x, t) # fs) = Some (k, u)"
  obtains (here) "k = 0" "u = t"
  | (anon) "c_member f t = Some (k, u)" "x = []" "\<not> (x \<noteq> [] \<and> x = f)"
  | (later) "c_union_member f fs = Some (k, u)"
      "(if x = [] then c_member f t else None) = None" "\<not> (x \<noteq> [] \<and> x = f)"
proof (cases "x \<noteq> [] \<and> x = f")
  case True
  then show thesis using assms by (intro here) auto
next
  case False
  show thesis
  proof (cases "if x = [] then c_member f t else None")
    case None
    show thesis by (rule later [OF _ None False]) (use assms None False in simp)
  next
    case (Some y)
    then have x: "x = []" "c_member f t = Some y" by (simp_all split: if_splits)
    show thesis by (rule anon) (use assms x False in auto)
  qed
qed

lemma member_inside:
  shows "c_member f t = Some (k, u) \<Longrightarrow> c_wf t \<Longrightarrow> c_plain t \<Longrightarrow>
      c_wf u \<and> c_align u dvd k \<and> c_align u dvd c_align t \<and> k + c_size u \<le> c_size t"
    and "c_struct_member f n fs = Some (k, u) \<Longrightarrow> c_wfs fs \<Longrightarrow> c_plains fs \<Longrightarrow>
      c_wf u \<and> c_align u dvd k \<and> c_align u dvd c_aligns fs \<and> n \<le> k \<and> k + c_size u \<le> c_end n fs"
    and "c_union_member f fs = Some (k, u) \<Longrightarrow> c_wfs fs \<Longrightarrow> c_plains fs \<Longrightarrow>
      c_wf u \<and> c_align u dvd k \<and> c_align u dvd c_aligns fs \<and> k + c_size u \<le> c_widest fs"
proof (induction f t and f n fs and f fs arbitrary: k u and k u and k u
    rule: c_member_c_struct_member_c_union_member.induct)
  case (1 f fs)
  then show ?case using pad_ge [OF align_pos(2), of fs "c_end 0 fs"] by fastforce
next
  case (2 f fs)
  then show ?case using pad_ge [OF align_pos(2), of fs "c_widest fs"] by fastforce
next
  case (6 f n x t fs)
  let ?o = "pad_to (c_align t) n"
  note al = cons_aligns [OF "6.prems"(2)]
  have n: "n \<le> ?o" using "6.prems"(2) by (simp add: pad_ge align_pos)
  have e: "?o + c_size t \<le> c_end n ((x, t) # fs)" using "6.prems"(2) end_ge [of fs "?o + c_size t"] by simp
  from "6.prems"(1) show ?case
  proof (cases rule: struct_member_ConsE)
    case here
    then show ?thesis using "6.prems"(2) al n e by (simp add: pad_dvd del: c_aligns.simps c_end.simps)
  next
    case (anon d)
    then have m: "c_wf u \<and> c_align u dvd d \<and> c_align u dvd c_align t \<and> d + c_size u \<le> c_size t"
      using "6.IH"(1) [OF refl anon(4,3,1)] "6.prems" by simp
    moreover have "c_align u dvd ?o" using m pad_dvd [of "c_align t" n] dvd_trans by blast
    ultimately show ?thesis using al n e anon(2) by (auto simp del: c_aligns.simps c_end.simps)
  next
    case later
    then show ?thesis using "6.IH"(2) [OF refl later(3,2,1)] "6.prems" al(2) [of "c_align u"] n by auto
  qed
next
  case (8 f x t fs)
  note al = cons_aligns [OF "8.prems"(2)]
  from "8.prems"(1) show ?case
  proof (cases rule: union_member_ConsE)
    case here
    then show ?thesis using "8.prems"(2) al by (simp del: c_aligns.simps)
  next
    case anon
    then show ?thesis using "8.IH"(1) [OF anon(3,2,1)] "8.prems" al by (auto simp del: c_aligns.simps)
  next
    case later
    then show ?thesis using "8.IH"(2) [OF later(3,2,1)] "8.prems" al(2) [of "c_align u"] by auto
  qed
qed simp_all

lemma cdef_wf: "t \<in> set cdef_structs \<Longrightarrow> c_wf t \<and> c_plain t"
  by (auto simp: cdef_structs_def struct_defs)

section \<open>The entries of the rings\<close>

lemma sqe_layout:
  "c_size struct_io_uring_sqe = 64" "c_align struct_io_uring_sqe = 8"
  "map (c_offset struct_io_uring_sqe) [''opcode'', ''flags'', ''ioprio'', ''fd'', ''off'', ''addr'', ''len'',
      ''rw_flags'', ''user_data'', ''buf_index'', ''personality'', ''splice_fd_in'', ''addr3'', ''__pad2''] =
   map Some [0, 1, 2, 4, 8, 16, 24, 28, 32, 40, 42, 44, 48, 56]"
  by code_simp+

lemma sqe_unpacked:
  "c_size (sqe_with CPacked) = c_size struct_io_uring_sqe"
  "c_align (sqe_with CPacked) = c_align struct_io_uring_sqe"
  "f \<in> {''buf_index'', ''buf_group'', ''personality'', ''splice_fd_in'', ''file_index'', ''addr_len'', ''addr3'', ''__pad2'', ''cmd''}
     \<Longrightarrow> c_offset (sqe_with CPacked) f = c_offset struct_io_uring_sqe f"
proof -
  show "c_size (sqe_with CPacked) = c_size struct_io_uring_sqe"
    "c_align (sqe_with CPacked) = c_align struct_io_uring_sqe" by code_simp+
  show "c_offset (sqe_with CPacked) f = c_offset struct_io_uring_sqe f"
    if "f \<in> {''buf_index'', ''buf_group'', ''personality'', ''splice_fd_in'', ''file_index'', ''addr_len'', ''addr3'', ''__pad2'', ''cmd''}"
  proof -
    have "\<forall>g \<in> set [''buf_index'', ''buf_group'', ''personality'', ''splice_fd_in'', ''file_index'', ''addr_len'', ''addr3'', ''__pad2'', ''cmd''].
       c_offset (sqe_with CPacked) g = c_offset struct_io_uring_sqe g" by code_simp
    then show ?thesis using that by auto
  qed
qed

lemma cqe_layout:
  "c_size struct_io_uring_cqe = 16"
  "map (c_offset struct_io_uring_cqe) [''user_data'', ''res'', ''flags'', ''big_cqe''] = map Some [0, 8, 12, 16]"
  by code_simp+

lemma other_layouts:
  "map c_size [struct_io_uring_sq, struct_io_uring_cq, struct_io_uring, struct_sockaddr, struct_kernel_timespec,
     struct_iovec, struct_msghdr] = [104, 88, 216, 16, 16, 16, 56]"
  by code_simp

section \<open>The bits of an entry's flags\<close>

text \<open>An enumerator without a value has the number of its place.\<close>

definition enum_value :: "string list \<Rightarrow> string \<Rightarrow> nat option" where
  "enum_value names n = (if n \<in> set names then Some (length (takeWhile (\<lambda>m. m \<noteq> n) names)) else None)"

definition iosqe_bits :: "string list" where
  "iosqe_bits = [''IOSQE_FIXED_FILE_BIT'', ''IOSQE_IO_DRAIN_BIT'', ''IOSQE_IO_LINK_BIT'', ''IOSQE_IO_HARDLINK_BIT'',
     ''IOSQE_ASYNC_BIT'', ''IOSQE_BUFFER_SELECT_BIT'', ''IOSQE_CQE_SKIP_SUCCESS_BIT'']"

lemma iosqe_values:
  "map (enum_value iosqe_bits) iosqe_bits = map Some [0..<7]" "enum_value iosqe_bits ''IOSQE_IO_HARDLINK_BIT'' = Some 3"
  by code_simp+

end
