(* ===== verification/Uring_Sockaddr.thy ===== *)
theory Uring_Sockaddr
  imports Uring_Env Uring_Layout
begin

text \<open>
  The address part of \<open>lib.py\<close>: building the C socket addresses from Python addresses and
  reading them back. \<open>socket.htons\<close>, \<open>inet_aton\<close> and \<open>inet_ntop\<close> for IPv4 are written out
  (on a little-endian host); the IPv6 text conversions are the parameters \<open>e_inet_pton6\<close> and
  \<open>e_inet_ntop6\<close>.
\<close>

section \<open>Byte order\<close>

definition swap16 :: "16 word \<Rightarrow> 16 word" where
  "swap16 w = word_of_int (uint w mod 256 * 256 + uint w div 256)"

definition htons :: "int \<Rightarrow> exn + 16 word" where
  "htons port = (case c_u16 port of Inl e \<Rightarrow> Inl e | Inr p \<Rightarrow> Inr (swap16 (word_of_int p)))"

definition ntohs :: "16 word \<Rightarrow> int" where
  "ntohs w = uint (swap16 w)"

definition from_bytes_little :: "8 word list \<Rightarrow> int" where
  "from_bytes_little bs = foldr (\<lambda>b acc. uint b + 256 * acc) bs 0"

definition bytes_of_u32 :: "32 word \<Rightarrow> 8 word list" where
  "bytes_of_u32 w = map (\<lambda>i. word_of_int (uint w div 256 ^ i)) [0, 1, 2, 3]"

section \<open>Dotted decimal\<close>

definition digit_val :: "char \<Rightarrow> nat option" where
  "digit_val c = (let n = of_char c :: nat in
     if 48 \<le> n \<and> n \<le> 57 then Some (n - 48)
     else if 97 \<le> n \<and> n \<le> 102 then Some (n - 87)
     else if 65 \<le> n \<and> n \<le> 70 then Some (n - 55)
     else None)"

definition is_digit_of :: "nat \<Rightarrow> char \<Rightarrow> bool" where
  "is_digit_of base c = (case digit_val c of None \<Rightarrow> False | Some d \<Rightarrow> d < base)"

fun read_digits :: "nat \<Rightarrow> nat \<Rightarrow> string \<Rightarrow> nat \<times> string" where
  "read_digits base acc [] = (acc, [])"
| "read_digits base acc (c # cs) =
     (if is_digit_of base c then read_digits base (acc * base + the (digit_val c)) cs
      else (acc, c # cs))"

definition strtoul0 :: "string \<Rightarrow> nat \<times> string" where
  "strtoul0 cs = (case cs of
       CHR ''0'' # x # d # rest \<Rightarrow>
         if (x = CHR ''x'' \<or> x = CHR ''X'') \<and> is_digit_of 16 d then read_digits 16 0 (d # rest)
         else read_digits 8 0 cs
     | CHR ''0'' # rest \<Rightarrow> read_digits 8 0 cs
     | _ \<Rightarrow> read_digits 10 0 cs)"

definition is_space :: "char \<Rightarrow> bool" where
  "is_space c = (let n = of_char c :: nat in n = 32 \<or> (9 \<le> n \<and> n \<le> 13))"

definition be_bytes :: "nat \<Rightarrow> nat \<Rightarrow> 8 word list" where
  "be_bytes k v = map (\<lambda>i. of_nat (v div 256 ^ i)) (rev [0..<k])"

fun aton_loop :: "nat \<Rightarrow> 8 word list \<Rightarrow> string \<Rightarrow> (8 word list) option" where
  "aton_loop dots acc cs =
     (if cs = [] \<or> \<not> is_digit_of 10 (hd cs) then None
      else case strtoul0 cs of (v, rest) \<Rightarrow>
        if v > 4294967295 then None
        else (case rest of
            CHR ''.'' # rest' \<Rightarrow>
              (case dots of
                 0 \<Rightarrow> None
               | Suc dots' \<Rightarrow> if v > 255 then None else aton_loop dots' (acc @ [of_nat v]) rest')
          | _ \<Rightarrow>
              if rest \<noteq> [] \<and> \<not> is_space (hd rest) then None
              else if v \<ge> 256 ^ (4 - length acc) then None
              else Some (acc @ be_bytes (4 - length acc) v)))"

declare aton_loop.simps [simp del]

definition inet_aton :: "string \<Rightarrow> exn + 8 word list" where
  "inet_aton ip =
     (if CHR 0x00 \<in> set ip then Inl (ValueError ''embedded null character'')
      else case aton_loop 3 [] ip of None \<Rightarrow> Inl IllegalAddress | Some bs \<Rightarrow> Inr bs)"

definition digit_char :: "nat \<Rightarrow> char" where
  "digit_char d = char_of (48 + d)"

fun show_nat :: "nat \<Rightarrow> string" where
  "show_nat n = (if n < 10 then [digit_char n] else show_nat (n div 10) @ [digit_char (n mod 10)])"

declare show_nat.simps [simp del]

definition inet_ntop4 :: "8 word list \<Rightarrow> string" where
  "inet_ntop4 bs = (case map (\<lambda>b. show_nat (unat b)) bs of
       [a, b, c, d] \<Rightarrow> a @ ''.'' @ b @ ''.'' @ c @ ''.'' @ d
     | _ \<Rightarrow> [])"

section \<open>IPv4\<close>

definition new_sockaddr_ipv4 :: sockaddr_in where
  "new_sockaddr_ipv4 = \<lparr>sin_family = AF_INET, sin_port = 0, s_addr = 0\<rparr>"

definition set_sockaddr_ipv4 :: "sockaddr_in \<Rightarrow> string \<Rightarrow> int \<Rightarrow> exn + sockaddr_in" where
  "set_sockaddr_ipv4 sa ip port = (case htons port of
       Inl e \<Rightarrow> Inl e
     | Inr p \<Rightarrow> (case inet_aton ip of
           Inl e \<Rightarrow> Inl e
         | Inr bs \<Rightarrow> Inr (sa\<lparr>sin_port := p, s_addr := word_of_int (from_bytes_little bs)\<rparr>)))"

definition parse_ipv4_addr :: "sockaddr_in \<Rightarrow> pyAddress" where
  "parse_ipv4_addr sa = AddrTuple (inet_ntop4 (bytes_of_u32 (s_addr sa))) [ntohs (sin_port sa)]"

section \<open>IPv6\<close>

definition new_sockaddr_ipv6 :: sockaddr_in6 where
  "new_sockaddr_ipv6 = \<lparr>sin6_family = AF_INET6, sin6_port = 0, sin6_flowinfo = 0,
     s6_addr = replicate 16 0, sin6_scope_id = 0\<rparr>"

definition set_sockaddr_ipv6 ::
  "'w env \<Rightarrow> sockaddr_in6 \<Rightarrow> string \<Rightarrow> int \<Rightarrow> int \<Rightarrow> int \<Rightarrow> exn + sockaddr_in6" where
  "set_sockaddr_ipv6 E sa ip port flowinfo scope_id = (case htons port of
       Inl e \<Rightarrow> Inl e
     | Inr p \<Rightarrow> (case e_inet_pton6 E ip of
           None \<Rightarrow> Inl IllegalAddress
         | Some packed_ip \<Rightarrow> (case c_unsigned flowinfo of
               Inl e \<Rightarrow> Inl e
             | Inr fl \<Rightarrow> (case c_unsigned scope_id of
                   Inl e \<Rightarrow> Inl e
                 | Inr sc \<Rightarrow> Inr (sa\<lparr>sin6_port := p,
                     s6_addr := packed_ip @ drop (length packed_ip) (s6_addr sa),
                     sin6_flowinfo := word_of_int fl, sin6_scope_id := word_of_int sc\<rparr>)))))"

definition parse_ipv6_addr :: "'w env \<Rightarrow> sockaddr_in6 \<Rightarrow> pyAddress" where
  "parse_ipv6_addr E sa = AddrTuple (e_inet_ntop6 E (s6_addr sa))
     [ntohs (sin6_port sa), uint (sin6_flowinfo sa), uint (sin6_scope_id sa)]"

section \<open>Unix domain\<close>

definition SUN_PATH_LEN :: nat where
  "SUN_PATH_LEN = 108"

definition new_sockaddr_unix :: sockaddr_un where
  "new_sockaddr_unix = \<lparr>sun_family = AF_UNIX, sun_path = replicate SUN_PATH_LEN 0\<rparr>"

text \<open>\<open>ffi.memmove\<close> copies the whole path; nothing compares its length with \<open>sun_path\<close>.\<close>

definition set_sockaddr_unix :: "sockaddr_un \<Rightarrow> 8 word list \<Rightarrow> exn + sockaddr_un" where
  "set_sockaddr_unix sa path =
     (if length path \<le> length (sun_path sa)
      then Inr (sa\<lparr>sun_path := path @ drop (length path) (sun_path sa)\<rparr>)
      else Inl OutOfBoundsWrite)"

definition parse_unix_addr :: "sockaddr_un \<Rightarrow> pyAddress" where
  "parse_unix_addr sa = AddrBytes (takeWhile (\<lambda>b. b \<noteq> 0) (sun_path sa))"

section \<open>Dispatch on the address family\<close>

definition parse_addr :: "'w env \<Rightarrow> family \<Rightarrow> sockaddr \<Rightarrow> exn + pyAddress" where
  "parse_addr E fam sa = (case fam of
       AF_INET \<Rightarrow> (case sa of SockaddrIn a \<Rightarrow> Inr (parse_ipv4_addr a)
                   | _ \<Rightarrow> Inl (AttributeError ''sin_addr''))
     | AF_INET6 \<Rightarrow> (case sa of SockaddrIn6 a \<Rightarrow> Inr (parse_ipv6_addr E a)
                    | _ \<Rightarrow> Inl (AttributeError ''sin6_addr''))
     | AF_UNIX \<Rightarrow> (case sa of SockaddrUn a \<Rightarrow> Inr (parse_unix_addr a)
                   | _ \<Rightarrow> Inl (AttributeError ''sun_path''))
     | AF_OTHER n \<Rightarrow> Inl (ValueError ''Unsupported address family''))"

text \<open>\<open>ffi.sizeof\<close> of the struct of the family: the size its declaration gives it.\<close>

fun get_sockaddr_size :: "family \<Rightarrow> exn + int" where
  "get_sockaddr_size AF_INET = Inr (int (c_size struct_sockaddr_in))"
| "get_sockaddr_size AF_INET6 = Inr (int (c_size struct_sockaddr_in6))"
| "get_sockaddr_size AF_UNIX = Inr (int (c_size struct_sockaddr_un))"
| "get_sockaddr_size (AF_OTHER n) = Inl (ValueError ''Unsupported address family'')"

definition new_socklen_t :: "family \<Rightarrow> exn + int" where
  "new_socklen_t fam = get_sockaddr_size fam"

fun writable_sockaddr :: "family \<Rightarrow> exn + sockaddr" where
  "writable_sockaddr AF_INET = Inr (SockaddrIn new_sockaddr_ipv4)"
| "writable_sockaddr AF_INET6 = Inr (SockaddrIn6 new_sockaddr_ipv6)"
| "writable_sockaddr AF_UNIX = Inr (SockaddrUn new_sockaddr_unix)"
| "writable_sockaddr (AF_OTHER n) = Inl (ValueError ''Unsupported address family'')"

fun readable_sockaddr :: "'w env \<Rightarrow> family \<Rightarrow> pyAddress \<Rightarrow> exn + sockaddr" where
  "readable_sockaddr E AF_INET address = (case address of
       AddrTuple ip [port] \<Rightarrow> map_sum id SockaddrIn (set_sockaddr_ipv4 new_sockaddr_ipv4 ip port)
     | AddrTuple ip _ \<Rightarrow> Inl (TypeError ''set_sockaddr_ipv4'')
     | _ \<Rightarrow> Inl AssertionError)"
| "readable_sockaddr E AF_INET6 address = (case address of
       AddrTuple ip [port] \<Rightarrow>
         map_sum id SockaddrIn6 (set_sockaddr_ipv6 E new_sockaddr_ipv6 ip port 0 0)
     | AddrTuple ip [port, fl] \<Rightarrow>
         map_sum id SockaddrIn6 (set_sockaddr_ipv6 E new_sockaddr_ipv6 ip port fl 0)
     | AddrTuple ip [port, fl, sc] \<Rightarrow>
         map_sum id SockaddrIn6 (set_sockaddr_ipv6 E new_sockaddr_ipv6 ip port fl sc)
     | AddrTuple ip _ \<Rightarrow> Inl (TypeError ''set_sockaddr_ipv6'')
     | _ \<Rightarrow> Inl AssertionError)"
| "readable_sockaddr E AF_UNIX address = (case address of
       AddrStr path \<Rightarrow> map_sum id SockaddrUn (set_sockaddr_unix new_sockaddr_unix path)
     | AddrBytes path \<Rightarrow> map_sum id SockaddrUn (set_sockaddr_unix new_sockaddr_unix path)
     | _ \<Rightarrow> Inl AssertionError)"
| "readable_sockaddr E (AF_OTHER n) address = Inl (ValueError ''Unsupported address family'')"

section \<open>Round trips\<close>

lemma swap16_swap16 [simp]: "swap16 (swap16 w) = w"
proof -
  have lt: "uint w < 65536" using uint_lt2p [of w] by simp
  have nn: "0 \<le> uint w" by simp
  let ?h = "uint w div 256" and ?l = "uint w mod 256"
  have h: "0 \<le> ?h" "?h < 256" and l: "0 \<le> ?l" "?l < 256"
    using lt nn by (auto intro: pos_imp_zdiv_nonneg_iff [THEN iffD2])
  have u: "uint (word_of_int (?l * 256 + ?h) :: 16 word) = ?l * 256 + ?h"
    by (subst uint_word_of_int) (use h l in simp)
  have m: "(?l * 256 + ?h) mod 256 = ?h" "(?l * 256 + ?h) div 256 = ?l"
    using h by auto
  have "swap16 (swap16 w) = word_of_int (?h * 256 + ?l)"
    unfolding swap16_def u m ..
  also have "?h * 256 + ?l = uint w" by simp
  finally show ?thesis by simp
qed

lemma ntohs_htons: "htons p = Inr w \<Longrightarrow> ntohs w = p \<and> 0 \<le> p \<and> p \<le> 65535"
  by (auto simp: htons_def ntohs_def c_u16_def uint_word_of_int split: if_splits)

lemma htons_ntohs: "htons (ntohs w) = Inr w"
proof -
  have "uint (swap16 w) < 65536" using uint_lt2p [of "swap16 w"] by simp
  then show ?thesis by (simp add: htons_def ntohs_def c_u16_def)
qed

lemma bytes_u32:
  assumes "length bs = 4"
  shows "bytes_of_u32 (word_of_int (from_bytes_little bs)) = bs"
proof -
  obtain a b c d where bs: "bs = [a, b, c, d]"
    using assms by (auto simp: eval_nat_numeral length_Suc_conv)
  have r: "0 \<le> uint x \<and> uint x < 256" for x :: "8 word" using uint_lt2p [of x] by simp
  let ?v = "uint a + 256 * (uint b + 256 * (uint c + 256 * uint d))"
  have v: "0 \<le> ?v" "?v < 4294967296" using r [of a] r [of b] r [of c] r [of d] by auto
  have e: "?v div 256 = uint b + 256 * (uint c + 256 * uint d)"
      "?v div 65536 = uint c + 256 * uint d" "?v div 16777216 = uint d"
  proof -
    have s: "(uint x + 256 * k) div 256 = k" for x :: "8 word" and k
      using r [of x] by (simp add: div_mult_self2 [of 256 "uint x" k])
    have p: "v div 65536 = v div 256 div 256" "v div 16777216 = v div 256 div 256 div 256" for v :: int
      using zdiv_zmult2_eq [of 256 v 256] zdiv_zmult2_eq [of 256 v 65536] zdiv_zmult2_eq [of 256 "v div 256" 256]
      by simp_all
    show "?v div 256 = uint b + 256 * (uint c + 256 * uint d)" by (rule s)
    show "?v div 65536 = uint c + 256 * uint d" "?v div 16777216 = uint d" by (simp_all only: p s)
  qed
  have w: "(word_of_int (uint x + 256 * k) :: 8 word) = x" for x k
  proof -
    have "(word_of_int (256 * k) :: 8 word) = word_of_int 256 * word_of_int k" by (rule wi_hom_mult [symmetric])
    also have "(word_of_int 256 :: 8 word) = 0" by simp
    finally have "(word_of_int (256 * k) :: 8 word) = 0" by simp
    then show ?thesis by (simp add: wi_hom_add [symmetric])
  qed
  have u: "uint (word_of_int ?v :: 32 word) = ?v"
    by (subst uint_word_of_int) (use v in simp)
  have l: "from_bytes_little bs = ?v" by (simp add: bs from_bytes_little_def)
  have p: "(256 :: int) ^ 0 = 1" "(256 :: int) ^ 1 = 256" "(256 :: int) ^ 2 = 65536" "(256 :: int) ^ 3 = 16777216"
    by simp_all
  show ?thesis
    unfolding bytes_of_u32_def l list.map p u e div_by_1 w by (simp add: bs)
qed

lemma digit_val_char: "d < 10 \<Longrightarrow> digit_val (digit_char d) = Some d"
  by (simp add: digit_val_def digit_char_def Let_def)

lemma is_digit_char [simp]: "d < 10 \<Longrightarrow> 10 \<le> base \<Longrightarrow> is_digit_of base (digit_char d)"
  by (simp add: is_digit_of_def digit_val_char)

lemma read_digits_show:
  "read_digits 10 acc (show_nat n @ rest) = read_digits 10 (acc * 10 ^ length (show_nat n) + n) rest"
proof (induction n arbitrary: acc rest rule: show_nat.induct)
  case (1 n)
  show ?case
  proof (cases "n < 10")
    case True
    then show ?thesis by (simp add: show_nat.simps [of n] digit_val_char)
  next
    case False
    have d: "(acc * 10 ^ k + n div 10) * 10 + n mod 10 = acc * (10 * 10 ^ k) + n" for k
      by (simp add: algebra_simps)
    show ?thesis
      using 1 [OF False, of acc "digit_char (n mod 10) # rest"] False
      by (simp add: show_nat.simps [of n] digit_val_char algebra_simps d [unfolded mult.commute [of acc]])
  qed
qed

lemma read_digits_stop: "rest = [] \<or> \<not> is_digit_of base (hd rest) \<Longrightarrow> read_digits base acc rest = (acc, rest)"
  by (cases rest) auto

lemma show_nat_Cons: "\<exists>d ds. show_nat n = digit_char d # ds \<and> d < 10 \<and> (d = 0 \<longrightarrow> n = 0 \<and> ds = [])"
proof (induction n rule: show_nat.induct)
  case (1 n)
  show ?case
  proof (cases "n < 10")
    case True
    then show ?thesis by (intro exI [of _ n] exI [of _ "[]"]) (simp add: show_nat.simps [of n])
  next
    case False
    then obtain d ds where "show_nat (n div 10) = digit_char d # ds" "d < 10" "d = 0 \<longrightarrow> n div 10 = 0"
      using 1 by blast
    then show ?thesis using False by (auto simp: show_nat.simps [of n] div_eq_0_iff)
  qed
qed

lemma digit_char_0: "digit_char 0 = CHR ''0''"
  by code_simp

lemma digit_char_eq_0: "d < 10 \<Longrightarrow> digit_char d = CHR ''0'' \<longleftrightarrow> d = 0"
  using digit_val_char [of d] digit_val_char [of 0] by (auto simp: digit_char_0 [symmetric])

text \<open>Reading a printed number back, with a dot or nothing after it.\<close>

lemma strtoul_show:
  assumes rest: "rest = [] \<or> rest = CHR ''.'' # rest'"
  shows "strtoul0 (show_nat n @ rest) = (n, rest)"
proof -
  have nd: "rest = [] \<or> \<not> is_digit_of b (hd rest)" for b
    using rest by (auto simp: is_digit_of_def digit_val_def)
  obtain d ds where s: "show_nat n = digit_char d # ds" and d: "d < 10" "d = 0 \<longrightarrow> n = 0 \<and> ds = []"
    using show_nat_Cons by blast
  show ?thesis
  proof (cases "d = 0")
    case True
    then show ?thesis using s d rest nd [of 8]
      by (auto simp: strtoul0_def digit_char_0 read_digits_stop is_digit_of_def digit_val_def split: list.splits)
  next
    case False
    then have "digit_char d \<noteq> CHR ''0''" using d digit_char_eq_0 by simp
    then have "strtoul0 (show_nat n @ rest) = read_digits 10 0 (show_nat n @ rest)"
      by (simp add: strtoul0_def s split: char.split bool.split)
    then show ?thesis using read_digits_stop [OF nd] by (simp add: read_digits_show)
  qed
qed

lemma aton_step:
  assumes "v \<le> 255"
  shows "aton_loop (Suc k) acc (show_nat v @ CHR ''.'' # rest) = aton_loop k (acc @ [of_nat v]) rest"
proof -
  obtain d ds where s: "show_nat v = digit_char d # ds" and d: "d < 10" using show_nat_Cons by blast
  show ?thesis
    using assms d strtoul_show [of "CHR ''.'' # rest" rest v]
    by (subst aton_loop.simps) (simp add: s)
qed

lemma aton_last:
  assumes "v \<le> 255" and "length acc = 3"
  shows "aton_loop 0 acc (show_nat v) = Some (acc @ [of_nat v])"
proof -
  obtain d ds where s: "show_nat v = digit_char d # ds" and d: "d < 10" using show_nat_Cons by blast
  show ?thesis
    using assms d strtoul_show [of "[]" "[]" v]
    by (subst aton_loop.simps) (simp add: s be_bytes_def)
qed

lemma show_nat_no_nul: "CHR 0x00 \<notin> set (show_nat n)"
proof (induction n rule: show_nat.induct)
  case (1 n)
  have "digit_val (CHR 0x00) = None" by code_simp
  then have nz: "digit_char d \<noteq> CHR 0x00" if "d < 10" for d
    using digit_val_char [OF that] by force
  show ?case using 1 nz [of n] nz [of "n mod 10"] by (cases "n < 10") (auto simp: show_nat.simps [of n])
qed

lemma inet_aton_ntop:
  assumes "length bs = 4"
  shows "inet_aton (inet_ntop4 bs) = Inr bs"
proof -
  obtain a b c d where bs: "bs = [a, b, c, d]"
    using assms by (auto simp: eval_nat_numeral length_Suc_conv)
  have r: "unat x \<le> 255" for x :: "8 word"
  proof -
    have "unat x < 2 ^ LENGTH(8)" by (rule unsigned_less)
    then show ?thesis by simp
  qed
  have dotted: "inet_ntop4 bs = show_nat (unat a) @ CHR ''.'' # show_nat (unat b) @ CHR ''.'' #
      show_nat (unat c) @ CHR ''.'' # show_nat (unat d)"
    by (simp add: bs inet_ntop4_def)
  have three: "(3 :: nat) = Suc (Suc (Suc 0))" by simp
  have "aton_loop 3 [] (inet_ntop4 bs) = Some bs"
    unfolding dotted three aton_step [OF r]
    by (subst aton_last [OF r]) (simp_all add: bs)
  moreover have "CHR 0x00 \<notin> set (inet_ntop4 bs)"
    by (simp add: bs inet_ntop4_def show_nat_no_nul)
  ultimately show ?thesis by (simp add: inet_aton_def)
qed

lemma ipv4_roundtrip:
  assumes "length bs = 4" and "htons port = Inr p"
  shows "set_sockaddr_ipv4 sa (inet_ntop4 bs) port = Inr (sa\<lparr>sin_port := p, s_addr := word_of_int (from_bytes_little bs)\<rparr>)"
    and "parse_ipv4_addr (sa\<lparr>sin_port := p, s_addr := word_of_int (from_bytes_little bs)\<rparr>) = AddrTuple (inet_ntop4 bs) [port]"
  using assms ntohs_htons [OF assms(2)]
  by (simp_all add: set_sockaddr_ipv4_def parse_ipv4_addr_def inet_aton_ntop bytes_u32)

lemma unix_roundtrip:
  assumes "length path \<le> 108" and "0 \<notin> set path"
  shows "set_sockaddr_unix new_sockaddr_unix path = Inr (new_sockaddr_unix\<lparr>sun_path := path @ replicate (108 - length path) 0\<rparr>)"
    and "parse_unix_addr (new_sockaddr_unix\<lparr>sun_path := path @ replicate (108 - length path) 0\<rparr>) = AddrBytes path"
proof -
  show "set_sockaddr_unix new_sockaddr_unix path = Inr (new_sockaddr_unix\<lparr>sun_path := path @ replicate (108 - length path) 0\<rparr>)"
    using assms(1) by (simp add: set_sockaddr_unix_def new_sockaddr_unix_def SUN_PATH_LEN_def)
  have "takeWhile (\<lambda>b. b \<noteq> 0) (path @ replicate k 0) = path" for k
    using assms(2) by (subst takeWhile_append2) (auto simp: takeWhile_eq_Nil_iff hd_replicate)
  then show "parse_unix_addr (new_sockaddr_unix\<lparr>sun_path := path @ replicate (108 - length path) 0\<rparr>) = AddrBytes path"
    by (simp add: parse_unix_addr_def)
qed

end
