(* ===== verification/Uring_Lib.thy ===== *)
theory Uring_Lib
  imports Uring_Request Uring_Sockaddr
begin

text \<open>
  The rest of \<open>lib.py\<close>: memory for the kernel, the wrappers that fill a submission entry
  from a request, and the wrappers of the ring calls, which turn a negative result into an
  \<open>OSError\<close>. All of them are computations on the world.
\<close>

definition OFFSET_CURRENT_POS :: int where
  "OFFSET_CURRENT_POS = 18446744073709551615"

section \<open>Allocation\<close>

definition new_writable_sockaddr :: "'w env \<Rightarrow> family \<Rightarrow> ('w, nat) py" where
  "new_writable_sockaddr E fam =
     bindM (ofE (writable_sockaddr fam)) (\<lambda>sa. actM (e_new_sockaddr E sa))"

definition new_readable_sockaddr :: "'w env \<Rightarrow> family \<Rightarrow> pyAddress \<Rightarrow> ('w, nat) py" where
  "new_readable_sockaddr E fam address =
     bindM (ofE (readable_sockaddr E fam address)) (\<lambda>sa. actM (e_new_sockaddr E sa))"

definition new_kernel_timespec :: "int \<Rightarrow> int \<Rightarrow> ('w, kernel_timespec) py" where
  "new_kernel_timespec sec nsec =
     bindM (ofE (c_int64 sec)) (\<lambda>s. bindM (ofE (c_int64 nsec)) (\<lambda>n.
       ret \<lparr>tv_sec = s, tv_nsec = n\<rparr>))"

definition export_buffer :: "pybuf \<Rightarrow> bool \<Rightarrow> ('w, nat \<times> nat) py" where
  "export_buffer buffer require_writable =
     (if require_writable \<and> buf_readonly buffer then raise BufferError
      else ret (buf_cell buffer, buf_nbytes buffer))"

definition new_iovec :: "'w env \<Rightarrow> pybuf \<Rightarrow> bool \<Rightarrow> ('w, iovec \<times> nat) py" where
  "new_iovec E buf require_writable =
     bindM (actM (e_ffi_new E)) (\<lambda>iov. bindM (export_buffer buf require_writable) (\<lambda>(base, nbytes).
       ret (\<lparr>iov_cell = iov, iov_base = base, iov_len = nbytes\<rparr>, base)))"

section \<open>Descriptors\<close>

definition sock_fileno :: "'w env \<Rightarrow> socket \<Rightarrow> ('w, int) py" where
  "sock_fileno E s = getM (\<lambda>w. sint (e_sock_fileno E s w))"

definition file_fileno :: "'w env \<Rightarrow> fileobj \<Rightarrow> ('w, int) py" where
  "file_fileno E f = (case f of
       SockObj s \<Rightarrow> sock_fileno E s
     | IOObj i \<Rightarrow> readM (\<lambda>w. ofE (map_sum id sint (e_io_fileno E i w)))
     | FdInt n \<Rightarrow> raise (AttributeError ''fileno''))"

definition fd_of :: "'w env \<Rightarrow> fileobj \<Rightarrow> ('w, int) py" where
  "fd_of E f = (case f of FdInt n \<Rightarrow> ret n | _ \<Rightarrow> file_fileno E f)"

section \<open>Filling a submission entry\<close>

definition call_prep :: "'w env \<Rightarrow> nat \<Rightarrow> prep_call \<Rightarrow> ('w, unit) py" where
  "call_prep E sqe c = modM (e_prep E sqe c)"

definition io_uring_prep_send :: "'w env \<Rightarrow> SendRequest \<Rightarrow> nat \<Rightarrow> ('w, KernelRequest) py" where
  "io_uring_prep_send E request sqe =
     bindM (export_buffer (snd_buffer request) False) (\<lambda>(buf, nbytes).
     let request = request\<lparr>snd_buffer_cdata := Some buf\<rparr> in
     bindM (sock_fileno E (snd_sock request)) (\<lambda>fd.
     bindM (ofE (c_int fd)) (\<lambda>fd. bindM (ofE (c_int (snd_flags request))) (\<lambda>flags.
     thenM (call_prep E sqe (prep_send fd buf nbytes flags)) (ret (SendReq request))))))"

definition io_uring_prep_recv :: "'w env \<Rightarrow> RecvRequest \<Rightarrow> nat \<Rightarrow> ('w, KernelRequest) py" where
  "io_uring_prep_recv E request sqe =
     bindM (export_buffer (rcv_buffer request) True) (\<lambda>(buf, nbytes).
     let request = request\<lparr>rcv_buffer_cdata := Some buf\<rparr> in
     bindM (sock_fileno E (rcv_sock request)) (\<lambda>fd.
     bindM (ofE (c_int fd)) (\<lambda>fd. bindM (ofE (c_int (rcv_flags request))) (\<lambda>flags.
     thenM (call_prep E sqe (prep_recv fd buf nbytes flags)) (ret (RecvReq request))))))"

definition io_uring_prep_write :: "'w env \<Rightarrow> WriteRequest \<Rightarrow> nat \<Rightarrow> ('w, KernelRequest) py" where
  "io_uring_prep_write E request sqe =
     bindM (export_buffer (wr_buffer request) False) (\<lambda>(buf, nbytes).
     let request = request\<lparr>wr_buffer_cdata := Some buf\<rparr> in
     bindM (file_fileno E (wr_file request)) (\<lambda>fd.
     bindM (ofE (c_int fd)) (\<lambda>fd. bindM (ofE (c_unsigned (int nbytes))) (\<lambda>n.
     bindM (ofE (c_u64 (wr_offset request))) (\<lambda>offset.
     thenM (call_prep E sqe (prep_write fd buf n offset)) (ret (WriteReq request)))))))"

definition io_uring_prep_read :: "'w env \<Rightarrow> ReadRequest \<Rightarrow> nat \<Rightarrow> ('w, KernelRequest) py" where
  "io_uring_prep_read E request sqe =
     bindM (export_buffer (rd_buffer request) True) (\<lambda>(buf, nbytes).
     let request = request\<lparr>rd_buffer_cdata := Some buf\<rparr> in
     bindM (file_fileno E (rd_file request)) (\<lambda>fd.
     bindM (ofE (c_int fd)) (\<lambda>fd. bindM (ofE (c_unsigned (int nbytes))) (\<lambda>n.
     bindM (ofE (c_u64 (rd_offset request))) (\<lambda>offset.
     thenM (call_prep E sqe (prep_read fd buf n offset)) (ret (ReadReq request)))))))"

definition io_uring_prep_accept :: "'w env \<Rightarrow> AcceptRequest \<Rightarrow> nat \<Rightarrow> ('w, KernelRequest) py" where
  "io_uring_prep_accept E request sqe =
     bindM (actM (e_ffi_new E)) (\<lambda>addrlen_ptr.
     bindM (ofE (get_sockaddr_size (sock_family (acc_sock request)))) (\<lambda>_.
     let request = request\<lparr>acc_addrlen_ptr := Some addrlen_ptr\<rparr> in
     bindM (sock_fileno E (acc_sock request)) (\<lambda>fd.
     bindM (ofE (c_int fd)) (\<lambda>fd. bindM (ofE (c_int (acc_flags request))) (\<lambda>flags.
     thenM (call_prep E sqe (prep_accept fd (acc_sockaddr request) addrlen_ptr flags))
       (ret (AcceptReq request)))))))"

definition io_uring_prep_connect :: "'w env \<Rightarrow> ConnectRequest \<Rightarrow> nat \<Rightarrow> ('w, KernelRequest) py" where
  "io_uring_prep_connect E request sqe =
     bindM (ofE (new_socklen_t (sock_family (con_sock request)))) (\<lambda>addrlen.
     bindM (sock_fileno E (con_sock request)) (\<lambda>fd.
     bindM (ofE (c_int fd)) (\<lambda>fd.
     thenM (call_prep E sqe (prep_connect fd (con_sockaddr request) addrlen))
       (ret (ConnectReq request)))))"

definition io_uring_prep_poll_add :: "'w env \<Rightarrow> PollAddRequest \<Rightarrow> nat \<Rightarrow> ('w, KernelRequest) py" where
  "io_uring_prep_poll_add E request sqe =
     bindM (fd_of E (pol_file request)) (\<lambda>fd.
     bindM (ofE (c_int fd)) (\<lambda>fd. bindM (ofE (c_unsigned (pol_poll_mask request))) (\<lambda>mask.
     thenM (call_prep E sqe (prep_poll_add fd mask)) (ret (PollAddReq request)))))"

definition io_uring_prep_cancel64 :: "'w env \<Rightarrow> Cancel64Request \<Rightarrow> nat \<Rightarrow> ('w, KernelRequest) py" where
  "io_uring_prep_cancel64 E request sqe =
     bindM (ofE (c_u64 (can_user_data request))) (\<lambda>ud.
     bindM (ofE (c_int (can_flags request))) (\<lambda>flags.
     thenM (call_prep E sqe (prep_cancel64 ud flags)) (ret (Cancel64Req request))))"

definition io_uring_prep_sendto :: "'w env \<Rightarrow> SendToRequest \<Rightarrow> nat \<Rightarrow> ('w, KernelRequest) py" where
  "io_uring_prep_sendto E request sqe =
     bindM (new_iovec E (sto_buffer request) False) (\<lambda>(iov, iov_base).
     bindM (actM (e_ffi_new E)) (\<lambda>hdr.
     bindM (ofE (c_int (sto_msghdr_flags request))) (\<lambda>mflags.
     bindM (case sto_sockaddr request of
              None \<Rightarrow> ret 0
            | Some sa \<Rightarrow> ofE (get_sockaddr_size (sock_family (sto_sock request)))) (\<lambda>namelen.
     let msghdr = \<lparr>msg_cell = hdr, msg_name = sto_sockaddr request, msg_namelen = namelen,
           msg_iov = iov, msg_iovlen = 1, msg_control = None, msg_controllen = 0,
           msg_flags = mflags\<rparr>;
         request = request\<lparr>sto_msghdr := Some hdr, sto_iov := Some (iov_cell iov),
           sto_iov_base := Some iov_base\<rparr> in
     bindM (sock_fileno E (sto_sock request)) (\<lambda>fd.
     bindM (ofE (c_int fd)) (\<lambda>fd. bindM (ofE (c_unsigned (sto_flags request))) (\<lambda>flags.
     thenM (call_prep E sqe (prep_sendmsg fd msghdr flags)) (ret (SendToReq request)))))))))"

definition io_uring_prep_recvfrom :: "'w env \<Rightarrow> RecvFromRequest \<Rightarrow> nat \<Rightarrow> ('w, KernelRequest) py" where
  "io_uring_prep_recvfrom E request sqe =
     bindM (new_iovec E (rfr_buffer request) True) (\<lambda>(iov, iov_base).
     bindM (actM (e_ffi_new E)) (\<lambda>hdr.
     bindM (ofE (c_int (rfr_msghdr_flags request))) (\<lambda>mflags.
     bindM (ofE (get_sockaddr_size (sock_family (rfr_sock request)))) (\<lambda>namelen.
     let msghdr = \<lparr>msg_cell = hdr, msg_name = Some (rfr_sockaddr request), msg_namelen = namelen,
           msg_iov = iov, msg_iovlen = 1, msg_control = None, msg_controllen = 0,
           msg_flags = mflags\<rparr>;
         request = request\<lparr>rfr_msghdr := Some hdr, rfr_iov := Some (iov_cell iov),
           rfr_iov_base := Some iov_base\<rparr> in
     bindM (sock_fileno E (rfr_sock request)) (\<lambda>fd.
     bindM (ofE (c_int fd)) (\<lambda>fd. bindM (ofE (c_unsigned (rfr_flags request))) (\<lambda>flags.
     thenM (call_prep E sqe (prep_recvmsg fd msghdr flags)) (ret (RecvFromReq request)))))))))"

definition io_uring_prep_splice :: "'w env \<Rightarrow> SpliceRequest \<Rightarrow> nat \<Rightarrow> ('w, KernelRequest) py" where
  "io_uring_prep_splice E request sqe =
     bindM (fd_of E (spl_file_in request)) (\<lambda>fd_in.
     bindM (fd_of E (spl_file_out request)) (\<lambda>fd_out.
     bindM (ofE (c_int fd_in)) (\<lambda>fd_in. bindM (ofE (c_int64 (spl_off_in request))) (\<lambda>off_in.
     bindM (ofE (c_int fd_out)) (\<lambda>fd_out. bindM (ofE (c_int64 (spl_off_out request))) (\<lambda>off_out.
     bindM (ofE (c_unsigned (spl_nbytes request))) (\<lambda>nbytes.
     bindM (ofE (c_unsigned (spl_splice_flags request))) (\<lambda>flags.
     thenM (call_prep E sqe (prep_splice fd_in off_in fd_out off_out nbytes flags))
       (ret (SpliceReq request))))))))))"

definition io_uring_sqe_set_data64 :: "'w env \<Rightarrow> nat \<Rightarrow> int \<Rightarrow> ('w, unit) py" where
  "io_uring_sqe_set_data64 E sqe data =
     bindM (ofE (c_u64 data)) (\<lambda>d. modM (e_set_data64 E sqe d))"

definition io_uring_sqe_set_flags :: "'w env \<Rightarrow> nat \<Rightarrow> int \<Rightarrow> ('w, unit) py" where
  "io_uring_sqe_set_flags E sqe flags =
     bindM (ofE (c_unsigned flags)) (\<lambda>f. modM (e_set_flags E sqe f))"

section \<open>Ring calls\<close>

definition check_res :: "int \<Rightarrow> 'a \<Rightarrow> exn + 'a" where
  "check_res res x = (if res < 0 then Inl (OSError (- res)) else Inr x)"

definition io_uring_queue_init :: "'w env \<Rightarrow> int \<Rightarrow> int \<Rightarrow> ('w, int) py" where
  "io_uring_queue_init E entries flags =
     bindM (ofE (c_unsigned entries)) (\<lambda>n. bindM (ofE (c_unsigned flags)) (\<lambda>f.
     bindM (actM (e_queue_init E n f)) (\<lambda>res. ofE (check_res (sint res) (sint res)))))"

definition io_uring_queue_exit :: "'w env \<Rightarrow> ('w, unit) py" where
  "io_uring_queue_exit E = modM (e_queue_exit E)"

definition io_uring_get_sqe :: "'w env \<Rightarrow> ('w, nat option) py" where
  "io_uring_get_sqe E = actM (e_get_sqe E)"

definition io_uring_submit :: "'w env \<Rightarrow> ('w, int) py" where
  "io_uring_submit E = bindM (actM (e_submit E)) (\<lambda>res. ofE (check_res (sint res) (sint res)))"

definition io_uring_sq_ready :: "'w env \<Rightarrow> ('w, nat) py" where
  "io_uring_sq_ready E = getM (e_sq_ready E)"

definition io_uring_sq_space_left :: "'w env \<Rightarrow> ('w, nat) py" where
  "io_uring_sq_space_left E = getM (e_sq_space_left E)"

definition py_cqe :: "c_cqe \<Rightarrow> IoUringCqe" where
  "py_cqe c = \<lparr>cqe_user_data = uint (c_user_data c), cqe_res = sint (c_res c)\<rparr>"

definition io_uring_peek_cqe :: "'w env \<Rightarrow> ('w, c_cqe) py" where
  "io_uring_peek_cqe E = bindM (actM (e_peek_cqe E)) (\<lambda>(res, cqe). ofE (check_res (sint res) cqe))"

definition io_uring_wait_cqe :: "'w env \<Rightarrow> ('w, c_cqe) py" where
  "io_uring_wait_cqe E = bindM (actM (e_wait_cqe E)) (\<lambda>(res, cqe). ofE (check_res (sint res) cqe))"

definition io_uring_wait_cqe_timeout :: "'w env \<Rightarrow> kernel_timespec \<Rightarrow> ('w, c_cqe) py" where
  "io_uring_wait_cqe_timeout E ts =
     bindM (actM (e_wait_cqe_timeout E ts)) (\<lambda>(res, cqe). ofE (check_res (sint res) cqe))"

definition io_uring_cqe_seen :: "'w env \<Rightarrow> c_cqe \<Rightarrow> ('w, unit) py" where
  "io_uring_cqe_seen E cqe = modM (e_cqe_seen E cqe)"

section \<open>The contract of a preparation\<close>

text \<open>
  What the submitter relies on for each of the eleven preparations: on success the entry was
  filled by one call whose memory the returned request owns, and nothing but allocations
  came before; on failure the entry was not touched at all.
\<close>

inductive ffi_allocs :: "'w env \<Rightarrow> 'w \<Rightarrow> 'w \<Rightarrow> bool" for E where
  allocs_refl [intro!]: "ffi_allocs E w w"
| allocs_step [intro]: "ffi_allocs E w w' \<Longrightarrow> ffi_allocs E w (snd (e_ffi_new E w'))"

definition filled_entry :: "'w env \<Rightarrow> nat \<Rightarrow> KernelRequest \<Rightarrow> 'w \<Rightarrow> 'w \<Rightarrow> bool" where
  "filled_entry E q r w w' \<longleftrightarrow>
     (\<exists>c w1. ffi_allocs E w w1 \<and> w' = e_prep E q c w1 \<and> call_cells c \<subseteq> owned_cells r)"

locale prep_interface =
  fixes E :: "'w env" and p :: "nat \<Rightarrow> ('w, KernelRequest) py"
  assumes prep_runs: "wp False (p q) w (\<lambda>r w'. filled_entry E q r w w') (\<lambda>e w'. ffi_allocs E w w')"

text \<open>And the request that comes back asks what the given one asked, with its memory pinned.\<close>

locale pinning = prep_interface +
  fixes request :: KernelRequest
  assumes prep_pins: "wp True (p q) w (\<lambda>r w'. asks request r) (\<lambda>_ _. True)"

lemmas prep_unfold = io_uring_prep_send_def io_uring_prep_recv_def io_uring_prep_write_def
  io_uring_prep_read_def io_uring_prep_accept_def io_uring_prep_connect_def
  io_uring_prep_poll_add_def io_uring_prep_cancel64_def io_uring_prep_sendto_def
  io_uring_prep_recvfrom_def io_uring_prep_splice_def export_buffer_def new_iovec_def
  sock_fileno_def file_fileno_def fd_of_def call_prep_def asks_def

lemma filled_entryI [intro!]:
  "ffi_allocs E w w1 \<Longrightarrow> call_cells c \<subseteq> owned_cells r \<Longrightarrow> filled_entry E q r w (e_prep E q c w1)"
  by (auto simp: filled_entry_def)

lemma allocs_new [intro]: "e_ffi_new E w = (c, w') \<Longrightarrow> ffi_allocs E v w \<Longrightarrow> ffi_allocs E v w'"
  by (metis allocs_step snd_conv)

interpretation prep_send_ok: pinning E "io_uring_prep_send E r" "SendReq r" for E :: "'w env" and r
  by unfold_locales
    (auto simp: prep_unfold wp_rules Let_def msghdr_cells_def
      split: sum.split prod.split fileobj.split option.split)

interpretation prep_recv_ok: pinning E "io_uring_prep_recv E r" "RecvReq r" for E :: "'w env" and r
  by unfold_locales
    (auto simp: prep_unfold wp_rules Let_def msghdr_cells_def
      split: sum.split prod.split fileobj.split option.split)

interpretation prep_write_ok: pinning E "io_uring_prep_write E r" "WriteReq r" for E :: "'w env" and r
  by unfold_locales
    (auto simp: prep_unfold wp_rules Let_def msghdr_cells_def
      split: sum.split prod.split fileobj.split option.split)

interpretation prep_read_ok: pinning E "io_uring_prep_read E r" "ReadReq r" for E :: "'w env" and r
  by unfold_locales
    (auto simp: prep_unfold wp_rules Let_def msghdr_cells_def
      split: sum.split prod.split fileobj.split option.split)

interpretation prep_accept_ok: pinning E "io_uring_prep_accept E r" "AcceptReq r" for E :: "'w env" and r
  by unfold_locales
    (auto simp: prep_unfold wp_rules Let_def msghdr_cells_def
      split: sum.split prod.split fileobj.split option.split)

interpretation prep_connect_ok: pinning E "io_uring_prep_connect E r" "ConnectReq r" for E :: "'w env" and r
  by unfold_locales
    (auto simp: prep_unfold wp_rules Let_def msghdr_cells_def
      split: sum.split prod.split fileobj.split option.split)

interpretation prep_poll_add_ok: pinning E "io_uring_prep_poll_add E r" "PollAddReq r" for E :: "'w env" and r
  by unfold_locales
    (auto simp: prep_unfold wp_rules Let_def msghdr_cells_def
      split: sum.split prod.split fileobj.split option.split)

interpretation prep_cancel64_ok: pinning E "io_uring_prep_cancel64 E r" "Cancel64Req r" for E :: "'w env" and r
  by unfold_locales
    (auto simp: prep_unfold wp_rules Let_def msghdr_cells_def
      split: sum.split prod.split fileobj.split option.split)

interpretation prep_sendto_ok: pinning E "io_uring_prep_sendto E r" "SendToReq r" for E :: "'w env" and r
  by unfold_locales
    (auto simp: prep_unfold wp_rules Let_def msghdr_cells_def
      split: sum.split prod.split fileobj.split option.split)

interpretation prep_recvfrom_ok: pinning E "io_uring_prep_recvfrom E r" "RecvFromReq r" for E :: "'w env" and r
  by unfold_locales
    (auto simp: prep_unfold wp_rules Let_def msghdr_cells_def
      split: sum.split prod.split fileobj.split option.split)

interpretation prep_splice_ok: pinning E "io_uring_prep_splice E r" "SpliceReq r" for E :: "'w env" and r
  by unfold_locales
    (auto simp: prep_unfold wp_rules Let_def msghdr_cells_def
      split: sum.split prod.split fileobj.split option.split)

end
