(* ===== verification/Uring_Operation.thy ===== *)
theory Uring_Operation
  imports Uring_Lib
begin

text \<open>
  \<open>operation.py\<close>: what the Python side remembers of an operation in flight. The class
  hierarchy is kept: \<open>SingleCqeOperation\<close> is a record the concrete operations extend, its
  methods act on any extension, and \<open>BaseOperation\<close> is the union of the concrete classes
  with one dispatching function per abstract method.
\<close>

section \<open>Results and futures\<close>

datatype pyval =
    VNone
  | VInt int
  | VBytes "8 word list"
  | VBytesAddr "8 word list" pyAddress
  | VIntAddr int pyAddress
  | VSockAddr socket pyAddress

text \<open>What \<open>operate\<close> calls on the future it is given: nothing, or one of its two setters.\<close>

datatype settle = SetNothing | SetResult pyval | SetException exn

definition get_os_error :: "int \<Rightarrow> exn" where
  "get_os_error res = OSError (- res)"

section \<open>Operations completed by one completion\<close>

record SingleCqeOperation =
  user_data :: int
  cqe_received :: bool

definition single_get_user_data :: "'a SingleCqeOperation_scheme \<Rightarrow> int option" where
  "single_get_user_data op = (if cqe_received op then None else Some (user_data op))"

definition single_mark_seen ::
  "int \<Rightarrow> 'a SingleCqeOperation_scheme \<Rightarrow> exn + 'a SingleCqeOperation_scheme" where
  "single_mark_seen ud op =
     (if ud \<noteq> user_data op then Inl (RuntimeError ''Unknown user_data'')
      else Inr (op\<lparr>cqe_received := True\<rparr>))"

definition single_all_seen :: "'a SingleCqeOperation_scheme \<Rightarrow> bool" where
  "single_all_seen op = cqe_received op"

record SendOperation = SingleCqeOperation +
  sndop_sock :: socket
  sndop_buffer :: pybuf
  sndop_flags :: int

record WriteOperation = SingleCqeOperation +
  wrop_file :: fileobj
  wrop_buffer :: pybuf
  wrop_offset :: int

record RecvOperation = SingleCqeOperation +
  rcvop_sock :: socket
  rcvop_buffer :: pybuf
  rcvop_flags :: int

record ReadOperation = SingleCqeOperation +
  rdop_file :: fileobj
  rdop_buffer :: pybuf

record RecvIntoOperation = SingleCqeOperation +
  rciop_sock :: socket
  rciop_buffer :: pybuf
  rciop_flags :: int

record ReadIntoOperation = SingleCqeOperation +
  rdiop_file :: fileobj
  rdiop_buffer :: pybuf

record RecvFromOperation = SingleCqeOperation +
  rfop_sock :: socket
  rfop_buffer :: pybuf
  rfop_sockaddr :: nat
  rfop_flags :: int

record RecvFromIntoOperation = SingleCqeOperation +
  rfiop_sock :: socket
  rfiop_buffer :: pybuf
  rfiop_sockaddr :: nat
  rfiop_flags :: int

record SendToOperation = SingleCqeOperation +
  stop_sock :: socket
  stop_buffer :: pybuf
  stop_sockaddr :: "nat option"
  stop_flags :: int

record ConnectOperation = SingleCqeOperation +
  conop_sock :: socket
  conop_sockaddr :: nat

record AcceptOperation = SingleCqeOperation +
  accop_sock :: socket
  accop_sockaddr :: nat
  accop_flags :: int

record PollAddOperation = SingleCqeOperation +
  polop_file :: fileobj
  polop_poll_mask :: int

section \<open>The linked pair of splices\<close>

record SendfileOperation =
  sfop_sock :: socket
  sfop_file :: fileobj
  pipe_r :: int
  pipe_w :: int
  sfop_offset :: int
  sfop_count :: int
  f2p_user_data :: int
  p2s_user_data :: int
  f2p_done :: bool
  p2s_done :: bool
  pipes_closed :: bool

definition sendfile_get_user_data :: "SendfileOperation \<Rightarrow> int option" where
  "sendfile_get_user_data op =
     (if \<not> f2p_done op then Some (f2p_user_data op)
      else if \<not> p2s_done op then Some (p2s_user_data op)
      else None)"

definition sendfile_operate :: "SendfileOperation \<Rightarrow> int \<Rightarrow> settle" where
  "sendfile_operate op res =
     (if res < 0 then SetException (get_os_error res)
      else if p2s_done op then SetResult (VInt res)
      else SetNothing)"

text \<open>
  \<open>mark_seen\<close> updates the operation object before it closes the pipe, so the new object is
  part of the outcome even where \<open>os.close\<close> raises.
\<close>

definition sendfile_mark :: "int \<Rightarrow> SendfileOperation \<Rightarrow> exn + SendfileOperation" where
  "sendfile_mark ud op =
     (if ud = f2p_user_data op then Inr (op\<lparr>f2p_done := True\<rparr>)
      else if ud = p2s_user_data op then Inr (op\<lparr>p2s_done := True\<rparr>)
      else Inl (RuntimeError ''Unknown user_data''))"

definition sendfile_mark_seen :: "'w env \<Rightarrow> int \<Rightarrow> (SendfileOperation \<times> 'w, unit) py" where
  "sendfile_mark_seen E ud = (\<lambda>(op, w). case sendfile_mark ud op of
       Inl e \<Rightarrow> Some (Inl e, (op, w))
     | Inr op1 \<Rightarrow>
         (if f2p_done op1 \<and> p2s_done op1 \<and> \<not> pipes_closed op1
          then (let op2 = op1\<lparr>pipes_closed := True\<rparr> in
                case e_close E (pipe_r op2) w of
                  (Inl e, w1) \<Rightarrow> Some (Inl e, (op2, w1))
                | (Inr _, w1) \<Rightarrow> (case e_close E (pipe_w op2) w1 of (r, w2) \<Rightarrow> Some (r, (op2, w2))))
          else Some (Inr (), (op1, w))))"

definition sendfile_all_seen :: "SendfileOperation \<Rightarrow> bool" where
  "sendfile_all_seen op = p2s_done op"

text \<open>The first splice reads the file into the pipe, the second one the pipe into the socket.\<close>

definition f2p_request :: "SendfileOperation \<Rightarrow> SpliceRequest" where
  "f2p_request op = \<lparr>spl_file_in = sfop_file op, spl_off_in = sfop_offset op, spl_file_out = FdInt (pipe_w op),
     spl_off_out = - 1, spl_nbytes = sfop_count op, spl_splice_flags = 0\<rparr>"

definition p2s_request :: "SendfileOperation \<Rightarrow> SpliceRequest" where
  "p2s_request op = \<lparr>spl_file_in = FdInt (pipe_r op), spl_off_in = - 1, spl_file_out = SockObj (sfop_sock op),
     spl_off_out = - 1, spl_nbytes = sfop_count op, spl_splice_flags = 0\<rparr>"

section \<open>Operations\<close>

datatype BaseOperation =
    SendOp SendOperation
  | WriteOp WriteOperation
  | RecvOp RecvOperation
  | ReadOp ReadOperation
  | RecvIntoOp RecvIntoOperation
  | ReadIntoOp ReadIntoOperation
  | RecvFromOp RecvFromOperation
  | RecvFromIntoOp RecvFromIntoOperation
  | SendToOp SendToOperation
  | ConnectOp ConnectOperation
  | AcceptOp AcceptOperation
  | PollAddOp PollAddOperation
  | SendfileOp SendfileOperation

fun get_user_data :: "BaseOperation \<Rightarrow> int option" where
  "get_user_data (SendOp op) = single_get_user_data op"
| "get_user_data (WriteOp op) = single_get_user_data op"
| "get_user_data (RecvOp op) = single_get_user_data op"
| "get_user_data (ReadOp op) = single_get_user_data op"
| "get_user_data (RecvIntoOp op) = single_get_user_data op"
| "get_user_data (ReadIntoOp op) = single_get_user_data op"
| "get_user_data (RecvFromOp op) = single_get_user_data op"
| "get_user_data (RecvFromIntoOp op) = single_get_user_data op"
| "get_user_data (SendToOp op) = single_get_user_data op"
| "get_user_data (ConnectOp op) = single_get_user_data op"
| "get_user_data (AcceptOp op) = single_get_user_data op"
| "get_user_data (PollAddOp op) = single_get_user_data op"
| "get_user_data (SendfileOp op) = sendfile_get_user_data op"

fun get_file_obj :: "BaseOperation \<Rightarrow> fileobj" where
  "get_file_obj (SendOp op) = SockObj (sndop_sock op)"
| "get_file_obj (WriteOp op) = wrop_file op"
| "get_file_obj (RecvOp op) = SockObj (rcvop_sock op)"
| "get_file_obj (ReadOp op) = rdop_file op"
| "get_file_obj (RecvIntoOp op) = SockObj (rciop_sock op)"
| "get_file_obj (ReadIntoOp op) = rdiop_file op"
| "get_file_obj (RecvFromOp op) = SockObj (rfop_sock op)"
| "get_file_obj (RecvFromIntoOp op) = SockObj (rfiop_sock op)"
| "get_file_obj (SendToOp op) = SockObj (stop_sock op)"
| "get_file_obj (ConnectOp op) = SockObj (conop_sock op)"
| "get_file_obj (AcceptOp op) = SockObj (accop_sock op)"
| "get_file_obj (PollAddOp op) = polop_file op"
| "get_file_obj (SendfileOp op) = SockObj (sfop_sock op)"

fun all_seen :: "BaseOperation \<Rightarrow> bool" where
  "all_seen (SendOp op) = single_all_seen op"
| "all_seen (WriteOp op) = single_all_seen op"
| "all_seen (RecvOp op) = single_all_seen op"
| "all_seen (ReadOp op) = single_all_seen op"
| "all_seen (RecvIntoOp op) = single_all_seen op"
| "all_seen (ReadIntoOp op) = single_all_seen op"
| "all_seen (RecvFromOp op) = single_all_seen op"
| "all_seen (RecvFromIntoOp op) = single_all_seen op"
| "all_seen (SendToOp op) = single_all_seen op"
| "all_seen (ConnectOp op) = single_all_seen op"
| "all_seen (AcceptOp op) = single_all_seen op"
| "all_seen (PollAddOp op) = single_all_seen op"
| "all_seen (SendfileOp op) = sendfile_all_seen op"

text \<open>\<open>mark_seen\<close> mutates the operation object, so it is a computation on the object and the world.\<close>

definition lift_single ::
  "('a SingleCqeOperation_scheme \<Rightarrow> BaseOperation) \<Rightarrow> 'a SingleCqeOperation_scheme \<Rightarrow> int \<Rightarrow>
   'w \<Rightarrow> ((exn + unit) \<times> (BaseOperation \<times> 'w)) option" where
  "lift_single C op ud w = (case single_mark_seen ud op of
       Inl e \<Rightarrow> Some (Inl e, (C op, w))
     | Inr op' \<Rightarrow> Some (Inr (), (C op', w)))"

fun mark_seen_op :: "'w env \<Rightarrow> int \<Rightarrow> BaseOperation \<Rightarrow> 'w \<Rightarrow>
    ((exn + unit) \<times> (BaseOperation \<times> 'w)) option" where
  "mark_seen_op E ud (SendOp op) w = lift_single SendOp op ud w"
| "mark_seen_op E ud (WriteOp op) w = lift_single WriteOp op ud w"
| "mark_seen_op E ud (RecvOp op) w = lift_single RecvOp op ud w"
| "mark_seen_op E ud (ReadOp op) w = lift_single ReadOp op ud w"
| "mark_seen_op E ud (RecvIntoOp op) w = lift_single RecvIntoOp op ud w"
| "mark_seen_op E ud (ReadIntoOp op) w = lift_single ReadIntoOp op ud w"
| "mark_seen_op E ud (RecvFromOp op) w = lift_single RecvFromOp op ud w"
| "mark_seen_op E ud (RecvFromIntoOp op) w = lift_single RecvFromIntoOp op ud w"
| "mark_seen_op E ud (SendToOp op) w = lift_single SendToOp op ud w"
| "mark_seen_op E ud (ConnectOp op) w = lift_single ConnectOp op ud w"
| "mark_seen_op E ud (AcceptOp op) w = lift_single AcceptOp op ud w"
| "mark_seen_op E ud (PollAddOp op) w = lift_single PollAddOp op ud w"
| "mark_seen_op E ud (SendfileOp op) w =
     (case sendfile_mark_seen E ud (op, w) of
        None \<Rightarrow> None
      | Some (r, (op', w')) \<Rightarrow> Some (r, (SendfileOp op', w')))"

definition mark_seen :: "'w env \<Rightarrow> int \<Rightarrow> (BaseOperation \<times> 'w, unit) py" where
  "mark_seen E ud = (\<lambda>(op, w). mark_seen_op E ud op w)"

section \<open>Results\<close>

text \<open>\<open>memoryview(buffer)[:res].tobytes()\<close> for a non-negative \<open>res\<close>.\<close>

definition buffer_prefix :: "'w env \<Rightarrow> pybuf \<Rightarrow> int \<Rightarrow> ('w, 8 word list) py" where
  "buffer_prefix E b res = getM (\<lambda>w. take (nat res) (e_bytes E (buf_cell b) w))"

definition peer_addr :: "'w env \<Rightarrow> socket \<Rightarrow> nat \<Rightarrow> ('w, pyAddress) py" where
  "peer_addr E s sa = readM (\<lambda>w. ofE (parse_addr E (sock_family s) (e_sockaddr E sa w)))"

definition accept_result :: "'w env \<Rightarrow> AcceptOperation \<Rightarrow> int \<Rightarrow> ('w, pyval) py" where
  "accept_result E op res =
     (let s = accop_sock op in
      bindM (tryM (e_socket_fromfd E (sock_family s) (sock_type s) (sock_proto s) res)) (\<lambda>sock.
      thenM (readM (\<lambda>w. whenM (e_getdefaulttimeout E w = None \<and> e_gettimeout E s w \<noteq> None
                                \<and> e_gettimeout E s w \<noteq> Some 0)
                           (modM (e_setblocking E sock True))))
        (bindM (peer_addr E s (accop_sockaddr op)) (\<lambda>a. ret (VSockAddr sock a)))))"

text \<open>\<open>_result\<close>; \<open>SendfileOperation\<close> is no \<open>SingleCqeOperation\<close> and has none.\<close>

fun op_result :: "'w env \<Rightarrow> BaseOperation \<Rightarrow> int \<Rightarrow> ('w, pyval) py" where
  "op_result E (SendOp op) res = ret (VInt res)"
| "op_result E (WriteOp op) res = ret (VInt res)"
| "op_result E (RecvOp op) res = bindM (buffer_prefix E (rcvop_buffer op) res) (\<lambda>b. ret (VBytes b))"
| "op_result E (ReadOp op) res = bindM (buffer_prefix E (rdop_buffer op) res) (\<lambda>b. ret (VBytes b))"
| "op_result E (RecvIntoOp op) res = ret (VInt res)"
| "op_result E (ReadIntoOp op) res = ret (VInt res)"
| "op_result E (RecvFromOp op) res =
     bindM (buffer_prefix E (rfop_buffer op) res) (\<lambda>b.
     bindM (peer_addr E (rfop_sock op) (rfop_sockaddr op)) (\<lambda>a. ret (VBytesAddr b a)))"
| "op_result E (RecvFromIntoOp op) res =
     bindM (peer_addr E (rfiop_sock op) (rfiop_sockaddr op)) (\<lambda>a. ret (VIntAddr res a))"
| "op_result E (SendToOp op) res = ret (VInt res)"
| "op_result E (ConnectOp op) res = ret VNone"
| "op_result E (AcceptOp op) res = accept_result E op res"
| "op_result E (PollAddOp op) res = ret (VInt res)"

fun operate :: "'w env \<Rightarrow> BaseOperation \<Rightarrow> int \<Rightarrow> ('w, settle) py" where
  "operate E (SendfileOp op) res = ret (sendfile_operate op res)"
| "operate E op res =
     (if res < 0 then ret (SetException (get_os_error res))
      else bindM (op_result E op res) (\<lambda>v. ret (SetResult v)))"

section \<open>The contract of an operation\<close>

text \<open>
  What the proactor relies on, whatever the class: an operation owns a set of \<open>user_data\<close>
  values (\<open>tags\<close>) and has seen some of them; \<open>get_user_data\<close> names an unseen one, and none
  only when all were seen; \<open>mark_seen\<close> accepts exactly the operation's own values and records
  them, also when it raises afterwards.
\<close>

locale operation_protocol =
  fixes tags :: "'o \<Rightarrow> int set"
    and seen :: "'o \<Rightarrow> int set"
    and wf :: "'o \<Rightarrow> bool"
    and target :: "'o \<Rightarrow> int option"
    and mark :: "int \<Rightarrow> ('o \<times> 'w, unit) py"
  assumes target_own: "target op = Some u \<Longrightarrow> u \<in> tags op"
    and target_unseen: "wf op \<Longrightarrow> target op = Some u \<Longrightarrow> u \<notin> seen op"
    and target_None: "wf op \<Longrightarrow> target op = None \<longleftrightarrow> tags op \<subseteq> seen op"
    and mark_returns: "mark u (op, w) \<noteq> None"
    and mark_foreign: "u \<notin> tags op \<Longrightarrow> \<exists>m. mark u (op, w) = Some (Inl (RuntimeError m), (op, w))"
    and mark_own: "u \<in> tags op \<Longrightarrow> mark u (op, w) = Some (r, (op', w')) \<Longrightarrow>
      tags op' = tags op \<and> seen op' = insert u (seen op) \<and> (wf op \<longrightarrow> wf op')"
begin

lemma mark_any:
  assumes "mark u (op, w) = Some (r, (op', w'))"
  shows "tags op' = tags op \<and> seen op \<subseteq> seen op' \<and> (wf op \<longrightarrow> wf op')"
proof (cases "u \<in> tags op")
  case True
  then show ?thesis using mark_own [OF _ assms] by auto
next
  case False
  then show ?thesis using mark_foreign [of u op w] assms by auto
qed

text \<open>A sequence of completions, each seen even if marking an earlier one raised.\<close>

fun mark_list :: "int list \<Rightarrow> 'o \<times> 'w \<Rightarrow> 'o \<times> 'w" where
  "mark_list [] x = x"
| "mark_list (u # us) x = mark_list us (case mark u x of None \<Rightarrow> x | Some (r, y) \<Rightarrow> y)"

lemma mark_list_seen:
  "set us \<subseteq> tags op \<Longrightarrow> wf op \<Longrightarrow> mark_list us (op, w) = (op', w') \<Longrightarrow>
     tags op' = tags op \<and> seen op' = set us \<union> seen op \<and> wf op'"
proof (induction us arbitrary: op w)
  case Nil
  then show ?case by simp
next
  case (Cons u us)
  obtain r op1 w1 where m: "mark u (op, w) = Some (r, (op1, w1))"
    using mark_returns [of u op w] by (cases "mark u (op, w)") auto
  have own: "tags op1 = tags op \<and> seen op1 = insert u (seen op) \<and> wf op1"
    using mark_own [OF _ m] Cons.prems by auto
  then have "tags op' = tags op1 \<and> seen op' = set us \<union> seen op1 \<and> wf op'"
    using Cons.prems m by (intro Cons.IH [of op1 w1]) auto
  then show ?case using own by auto
qed

lemma mark_list_all:
  "set us = tags op \<Longrightarrow> wf op \<Longrightarrow> mark_list us (op, w) = (op', w') \<Longrightarrow> target op' = None"
  using mark_list_seen [of us op w op' w'] target_None [of op'] by auto

end

definition single_tags :: "'a SingleCqeOperation_scheme \<Rightarrow> int set" where
  "single_tags op = {user_data op}"

definition single_seen :: "'a SingleCqeOperation_scheme \<Rightarrow> int set" where
  "single_seen op = (if cqe_received op then {user_data op} else {})"

definition sendfile_seen :: "SendfileOperation \<Rightarrow> int set" where
  "sendfile_seen op = (if f2p_done op then {f2p_user_data op} else {})
     \<union> (if p2s_done op then {p2s_user_data op} else {})"

fun op_tags :: "BaseOperation \<Rightarrow> int set" where
  "op_tags (SendOp op) = single_tags op"
| "op_tags (WriteOp op) = single_tags op"
| "op_tags (RecvOp op) = single_tags op"
| "op_tags (ReadOp op) = single_tags op"
| "op_tags (RecvIntoOp op) = single_tags op"
| "op_tags (ReadIntoOp op) = single_tags op"
| "op_tags (RecvFromOp op) = single_tags op"
| "op_tags (RecvFromIntoOp op) = single_tags op"
| "op_tags (SendToOp op) = single_tags op"
| "op_tags (ConnectOp op) = single_tags op"
| "op_tags (AcceptOp op) = single_tags op"
| "op_tags (PollAddOp op) = single_tags op"
| "op_tags (SendfileOp op) = {f2p_user_data op, p2s_user_data op}"

fun op_seen :: "BaseOperation \<Rightarrow> int set" where
  "op_seen (SendOp op) = single_seen op"
| "op_seen (WriteOp op) = single_seen op"
| "op_seen (RecvOp op) = single_seen op"
| "op_seen (ReadOp op) = single_seen op"
| "op_seen (RecvIntoOp op) = single_seen op"
| "op_seen (ReadIntoOp op) = single_seen op"
| "op_seen (RecvFromOp op) = single_seen op"
| "op_seen (RecvFromIntoOp op) = single_seen op"
| "op_seen (SendToOp op) = single_seen op"
| "op_seen (ConnectOp op) = single_seen op"
| "op_seen (AcceptOp op) = single_seen op"
| "op_seen (PollAddOp op) = single_seen op"
| "op_seen (SendfileOp op) = sendfile_seen op"

text \<open>
  The two entries of a \<open>sendfile\<close> have different \<open>user_data\<close>, and its pipe is closed only after
  both completed.
\<close>

fun op_wf :: "BaseOperation \<Rightarrow> bool" where
  "op_wf (SendfileOp op) = (f2p_user_data op \<noteq> p2s_user_data op \<and> (pipes_closed op \<longrightarrow> f2p_done op \<and> p2s_done op))"
| "op_wf _ = True"

lemmas op_defs = single_get_user_data_def single_mark_seen_def single_all_seen_def lift_single_def
  single_tags_def single_seen_def sendfile_seen_def sendfile_get_user_data_def
  sendfile_mark_def sendfile_mark_seen_def sendfile_all_seen_def

lemma mark_seen_foreign:
  "u \<notin> op_tags op \<Longrightarrow> mark_seen E u (op, w) = Some (Inl (RuntimeError ''Unknown user_data''), (op, w))"
  by (cases op) (simp_all add: mark_seen_def op_defs)

lemma mark_seen_own:
  "u \<in> op_tags op \<Longrightarrow> mark_seen E u (op, w) = Some (r, (op', w')) \<Longrightarrow>
     op_tags op' = op_tags op \<and> op_seen op' = insert u (op_seen op) \<and> (op_wf op \<longrightarrow> op_wf op')"
  by (cases op)
    (auto simp: mark_seen_def op_defs Let_def split: if_splits prod.splits sum.splits option.splits)

lemma mark_seen_returns: "mark_seen E u (op, w) \<noteq> None"
  by (cases op)
    (auto simp: mark_seen_def op_defs Let_def split: if_splits prod.splits sum.splits option.splits)

lemma get_user_data_own: "get_user_data op = Some u \<Longrightarrow> u \<in> op_tags op"
  by (cases op) (auto simp: op_defs split: if_splits)

lemma get_user_data_unseen: "op_wf op \<Longrightarrow> get_user_data op = Some u \<Longrightarrow> u \<notin> op_seen op"
  by (cases op) (auto simp: op_defs split: if_splits)

lemma get_user_data_None: "op_wf op \<Longrightarrow> get_user_data op = None \<longleftrightarrow> op_tags op \<subseteq> op_seen op"
  by (cases op) (auto simp: op_defs split: if_splits)

interpretation op_protocol: operation_protocol op_tags op_seen op_wf get_user_data "mark_seen E"
  for E :: "'w env"
  by unfold_locales
    (auto simp: mark_seen_foreign mark_seen_returns get_user_data_own get_user_data_unseen
      get_user_data_None dest: mark_seen_own)

lemma mark_seen_file:
  "mark_seen E u (op, w) = Some (r, (op', w')) \<Longrightarrow> get_file_obj op' = get_file_obj op"
  by (cases op)
    (auto simp: mark_seen_def op_defs Let_def split: if_splits prod.splits sum.splits option.splits)

section \<open>The request an operation stands for\<close>

text \<open>
  Reference: the request, before anything is pinned, that has to be in flight under the number
  \<open>ud\<close> for an operation.
\<close>

fun request_for :: "int \<Rightarrow> BaseOperation \<Rightarrow> KernelRequest" where
  "request_for ud (SendOp op) = SendReq \<lparr>snd_sock = sndop_sock op, snd_buffer = sndop_buffer op,
     snd_flags = sndop_flags op, snd_buffer_cdata = None\<rparr>"
| "request_for ud (WriteOp op) = WriteReq \<lparr>wr_file = wrop_file op, wr_buffer = wrop_buffer op,
     wr_offset = wrop_offset op, wr_buffer_cdata = None\<rparr>"
| "request_for ud (RecvOp op) = RecvReq \<lparr>rcv_sock = rcvop_sock op, rcv_buffer = rcvop_buffer op,
     rcv_flags = rcvop_flags op, rcv_buffer_cdata = None\<rparr>"
| "request_for ud (ReadOp op) = ReadReq \<lparr>rd_file = rdop_file op, rd_buffer = rdop_buffer op,
     rd_offset = OFFSET_CURRENT_POS, rd_buffer_cdata = None\<rparr>"
| "request_for ud (RecvIntoOp op) = RecvReq \<lparr>rcv_sock = rciop_sock op, rcv_buffer = rciop_buffer op,
     rcv_flags = rciop_flags op, rcv_buffer_cdata = None\<rparr>"
| "request_for ud (ReadIntoOp op) = ReadReq \<lparr>rd_file = rdiop_file op, rd_buffer = rdiop_buffer op,
     rd_offset = OFFSET_CURRENT_POS, rd_buffer_cdata = None\<rparr>"
| "request_for ud (RecvFromOp op) = RecvFromReq \<lparr>rfr_sock = rfop_sock op, rfr_buffer = rfop_buffer op,
     rfr_sockaddr = rfop_sockaddr op, rfr_msghdr_flags = 0, rfr_flags = rfop_flags op,
     rfr_msghdr = None, rfr_iov = None, rfr_iov_base = None\<rparr>"
| "request_for ud (RecvFromIntoOp op) = RecvFromReq \<lparr>rfr_sock = rfiop_sock op, rfr_buffer = rfiop_buffer op,
     rfr_sockaddr = rfiop_sockaddr op, rfr_msghdr_flags = 0, rfr_flags = rfiop_flags op,
     rfr_msghdr = None, rfr_iov = None, rfr_iov_base = None\<rparr>"
| "request_for ud (SendToOp op) = SendToReq \<lparr>sto_sock = stop_sock op, sto_buffer = stop_buffer op,
     sto_sockaddr = stop_sockaddr op, sto_msghdr_flags = 0, sto_flags = stop_flags op,
     sto_msghdr = None, sto_iov = None, sto_iov_base = None\<rparr>"
| "request_for ud (ConnectOp op) = ConnectReq \<lparr>con_sock = conop_sock op, con_sockaddr = conop_sockaddr op\<rparr>"
| "request_for ud (AcceptOp op) = AcceptReq \<lparr>acc_sock = accop_sock op, acc_sockaddr = accop_sockaddr op,
     acc_flags = accop_flags op, acc_addrlen_ptr = None\<rparr>"
| "request_for ud (PollAddOp op) = PollAddReq \<lparr>pol_file = polop_file op, pol_poll_mask = polop_poll_mask op\<rparr>"
| "request_for ud (SendfileOp op) = SpliceReq (if ud = f2p_user_data op then f2p_request op else p2s_request op)"

lemma request_for_unpinned [simp]: "unpinned (request_for ud op) = request_for ud op"
  by (cases op) simp_all

lemma mark_seen_request:
  "mark_seen E u (op, w) = Some (r, (op', w')) \<Longrightarrow> request_for ud op' = request_for ud op"
  by (cases op)
    (auto simp: mark_seen_def op_defs Let_def f2p_request_def p2s_request_def
      split: if_splits prod.splits sum.splits option.splits)

end
