(* ===== verification/Uring_Submit.thy ===== *)
theory Uring_Submit
  imports Uring_Operation
begin

text \<open>
  \<open>_ProactorSubmit\<close>: preparing entries, registering them in the cache under their
  \<open>user_data\<close>, and flushing them to the kernel. The record has the submitter's own fields, the
  cache it shares with the proactor, and the world; the proactor's state extends it.
  Operations and futures are shared, mutable objects, so a cache entry names them by
  reference.
\<close>

record PendingCompletion =
  pc_operation :: nat
  pc_future :: "nat option"
  pc_request :: KernelRequest

record 'w submitter =
  world :: 'w
  cache :: "(int \<times> PendingCompletion) list"
  unsubmitted :: "(int \<times> KernelRequest) list"
  pending_submit :: bool

definition liftW :: "('w, 'a) py \<Rightarrow> (('w, 'z) submitter_scheme, 'a) py" where
  "liftW m = zoomM world (\<lambda>w s. s\<lparr>world := w\<rparr>) m"

lemmas [py_defs] = liftW_def

section \<open>Flushing\<close>

text \<open>
  The loop of \<open>flush\<close>: an interrupted submission is repeated, a partial one is continued, and
  one that consumed nothing although entries are ready is an error.
\<close>

partial_function (option) flush ::
  "'w env \<Rightarrow> ('w, 'z) submitter_scheme \<Rightarrow> ((exn + unit) \<times> ('w, 'z) submitter_scheme) option" where
  "flush E s =
     (if \<not> pending_submit s then Some (Inr (), s)
      else case liftW (io_uring_submit E) s of
          None \<Rightarrow> None
        | Some (r, s1) \<Rightarrow> (case r of
            Inl e \<Rightarrow> if e = OSError EINTR then flush E s1 else Some (Inl e, s1)
          | Inr submitted \<Rightarrow>
              if e_sq_ready E (world s1) = 0 then flush E (s1\<lparr>pending_submit := False\<rparr>)
              else if submitted = 0 then
                Some (Inl (RuntimeError ''io_uring made no progress submitting queued entries''), s1)
              else flush E s1))"

section \<open>Taking entries\<close>

definition get_sqe :: "'w env \<Rightarrow> (('w, 'z) submitter_scheme, nat) py" where
  "get_sqe E = bindM (liftW (io_uring_get_sqe E)) (\<lambda>sqe. case sqe of
       Some q \<Rightarrow> ret q
     | None \<Rightarrow> thenM (flush E) (bindM (liftW (io_uring_get_sqe E)) (\<lambda>sqe. case sqe of
           Some q \<Rightarrow> ret q
         | None \<Rightarrow> raise (RuntimeError ''io_uring submission queue is full''))))"

definition ensure_capacity :: "'w env \<Rightarrow> nat \<Rightarrow> (('w, 'z) submitter_scheme, unit) py" where
  "ensure_capacity E count =
     bindM (liftW (io_uring_sq_space_left E)) (\<lambda>left.
     thenM (whenM (left < count) (flush E))
       (bindM (liftW (io_uring_sq_space_left E)) (\<lambda>left.
          whenM (left < count)
            (raise (RuntimeError ''io_uring submission queue cannot fit linked entries'')))))"

definition prep ::
  "'w env \<Rightarrow> (nat \<Rightarrow> ('w, KernelRequest) py) \<Rightarrow> int \<Rightarrow> int \<Rightarrow> (('w, 'z) submitter_scheme, unit) py" where
  "prep E prep_fn ud flags =
     bindM (get_sqe E) (\<lambda>sqe.
     bindM (liftW (prep_fn sqe)) (\<lambda>request.
     thenM (liftW (io_uring_sqe_set_data64 E sqe ud))
       (thenM (whenM (flags \<noteq> 0) (liftW (io_uring_sqe_set_flags E sqe flags)))
         (modM (\<lambda>s. s\<lparr>unsubmitted := unsubmitted s @ [(ud, request)]\<rparr>)))))"

definition sub_recv :: "'w env \<Rightarrow> RecvRequest \<Rightarrow> int \<Rightarrow> int \<Rightarrow> (('w, 'z) submitter_scheme, unit) py" where
  "sub_recv E request ud flags = prep E (io_uring_prep_recv E request) ud flags"

definition sub_read :: "'w env \<Rightarrow> ReadRequest \<Rightarrow> int \<Rightarrow> int \<Rightarrow> (('w, 'z) submitter_scheme, unit) py" where
  "sub_read E request ud flags = prep E (io_uring_prep_read E request) ud flags"

definition sub_recvfrom :: "'w env \<Rightarrow> RecvFromRequest \<Rightarrow> int \<Rightarrow> int \<Rightarrow> (('w, 'z) submitter_scheme, unit) py" where
  "sub_recvfrom E request ud flags = prep E (io_uring_prep_recvfrom E request) ud flags"

definition sub_sendto :: "'w env \<Rightarrow> SendToRequest \<Rightarrow> int \<Rightarrow> int \<Rightarrow> (('w, 'z) submitter_scheme, unit) py" where
  "sub_sendto E request ud flags = prep E (io_uring_prep_sendto E request) ud flags"

definition sub_send :: "'w env \<Rightarrow> SendRequest \<Rightarrow> int \<Rightarrow> int \<Rightarrow> (('w, 'z) submitter_scheme, unit) py" where
  "sub_send E request ud flags = prep E (io_uring_prep_send E request) ud flags"

definition sub_write :: "'w env \<Rightarrow> WriteRequest \<Rightarrow> int \<Rightarrow> int \<Rightarrow> (('w, 'z) submitter_scheme, unit) py" where
  "sub_write E request ud flags = prep E (io_uring_prep_write E request) ud flags"

definition sub_accept :: "'w env \<Rightarrow> AcceptRequest \<Rightarrow> int \<Rightarrow> int \<Rightarrow> (('w, 'z) submitter_scheme, unit) py" where
  "sub_accept E request ud flags = prep E (io_uring_prep_accept E request) ud flags"

definition sub_connect :: "'w env \<Rightarrow> ConnectRequest \<Rightarrow> int \<Rightarrow> int \<Rightarrow> (('w, 'z) submitter_scheme, unit) py" where
  "sub_connect E request ud flags = prep E (io_uring_prep_connect E request) ud flags"

definition sub_splice :: "'w env \<Rightarrow> SpliceRequest \<Rightarrow> int \<Rightarrow> int \<Rightarrow> (('w, 'z) submitter_scheme, unit) py" where
  "sub_splice E request ud flags = prep E (io_uring_prep_splice E request) ud flags"

definition sub_cancel :: "'w env \<Rightarrow> Cancel64Request \<Rightarrow> int \<Rightarrow> int \<Rightarrow> (('w, 'z) submitter_scheme, unit) py" where
  "sub_cancel E request ud flags = prep E (io_uring_prep_cancel64 E request) ud flags"

definition sub_poll_add :: "'w env \<Rightarrow> PollAddRequest \<Rightarrow> int \<Rightarrow> int \<Rightarrow> (('w, 'z) submitter_scheme, unit) py" where
  "sub_poll_add E request ud flags = prep E (io_uring_prep_poll_add E request) ud flags"

section \<open>Registering\<close>

fun register :: "nat \<Rightarrow> nat option \<Rightarrow> (int \<times> KernelRequest) list \<Rightarrow>
    (int \<times> PendingCompletion) list \<Rightarrow> (int \<times> PendingCompletion) list" where
  "register op fut [] c = c"
| "register op fut ((ud, request) # us) c =
     register op fut us (AList.update ud
       \<lparr>pc_operation = op, pc_future = fut, pc_request = request\<rparr> c)"

definition submit :: "nat \<Rightarrow> nat option \<Rightarrow> (('w, 'z) submitter_scheme, unit) py" where
  "submit op fut = modM (\<lambda>s. s\<lparr>cache := register op fut (unsubmitted s) (cache s),
     unsubmitted := [], pending_submit := True\<rparr>)"

lemma register_keys: "dict_keys (register op f us c) = dict_keys c \<union> fst ` set us"
proof (induction op f us c rule: register.induct)
  case (2 op f ud r us c)
  have "dict_keys (AList.update k x d) = insert k (dict_keys d)" for k x and d :: "(int \<times> PendingCompletion) list"
    by (induction d) auto
  then show ?case using 2 by auto
qed simp

section \<open>What flushing does\<close>

text \<open>
  \<open>submits\<close>: the world moved through calls of \<open>io_uring_submit\<close> only. \<open>sub_frame\<close>: nothing
  but the world changed, except that the pending flag may have been cleared.
\<close>

inductive submits :: "'w env \<Rightarrow> 'w \<Rightarrow> 'w \<Rightarrow> bool" for E where
  submits_refl [intro!]: "submits E w w"
| submits_step: "submits E (snd (e_submit E w)) w' \<Longrightarrow> submits E w w'"

definition sub_frame :: "('w, 'z) submitter_scheme \<Rightarrow> ('w, 'z) submitter_scheme \<Rightarrow> bool" where
  "sub_frame s t \<longleftrightarrow> (\<exists>w b. t = s\<lparr>world := w, pending_submit := b\<rparr> \<and> (b \<longrightarrow> pending_submit s))"

lemma sub_frameI:
  "t = s\<lparr>world := w, pending_submit := b\<rparr> \<Longrightarrow> (b \<longrightarrow> pending_submit s) \<Longrightarrow> sub_frame s t"
  by (auto simp: sub_frame_def)

lemma sub_frame_refl: "sub_frame s s"
  unfolding sub_frame_def by (rule exI [of _ "world s"], rule exI [of _ "pending_submit s"]) simp

lemma sub_frame_trans: "sub_frame s t \<Longrightarrow> sub_frame t u \<Longrightarrow> sub_frame s u"
proof -
  assume "sub_frame s t" "sub_frame t u"
  then obtain w b w' b' where t: "t = s\<lparr>world := w, pending_submit := b\<rparr>" "b \<longrightarrow> pending_submit s"
      and u: "u = t\<lparr>world := w', pending_submit := b'\<rparr>" "b' \<longrightarrow> pending_submit t"
    by (auto simp: sub_frame_def)
  then have "u = s\<lparr>world := w', pending_submit := b'\<rparr>" "b' \<longrightarrow> pending_submit s" by auto
  then show "sub_frame s u" by (rule sub_frameI)
qed

lemma sub_frame_world [simp]: "sub_frame s (s\<lparr>world := w\<rparr>)"
  unfolding sub_frame_def by (rule exI [of _ w], rule exI [of _ "pending_submit s"]) simp

lemma sub_frame_upd: "sub_frame s t \<Longrightarrow> sub_frame s (t\<lparr>world := w\<rparr>)"
  by (rule sub_frame_trans [OF _ sub_frame_world])

lemma sub_frameD:
  assumes "sub_frame s t"
  shows "cache t = cache s" "unsubmitted t = unsubmitted s" "pending_submit t \<Longrightarrow> pending_submit s"
  using assms by (auto simp: sub_frame_def)

interpretation sub_frame: step_relation sub_frame
  by unfold_locales (auto intro: sub_frame_refl sub_frame_trans)

lemma wp_liftW [wp_rules]:
  "wp nt (liftW m) s Q X = wp nt m (world s) (\<lambda>x w. Q x (s\<lparr>world := w\<rparr>)) (\<lambda>e w. X e (s\<lparr>world := w\<rparr>))"
  by (simp add: liftW_def wp_zoomM)

lemma liftW_bindM: "liftW (bindM m f) = bindM (liftW m) (\<lambda>x. liftW (f x))"
  by (rule ext) (auto simp: liftW_def zoomM_def bindM_def split: option.splits sum.splits)

lemma liftW_Inr_iff:
  "liftW m s = Some (Inr x, t) \<longleftrightarrow> (\<exists>w. m (world s) = Some (Inr x, w) \<and> t = s\<lparr>world := w\<rparr>)"
  by (auto simp: liftW_def zoomM_def split: option.splits)

definition flush_ok :: "'w env \<Rightarrow> ('w, 'z) submitter_scheme \<Rightarrow> ('w, 'z) submitter_scheme \<Rightarrow> bool" where
  "flush_ok E s t \<longleftrightarrow> sub_frame s t \<and> submits E (world s) (world t) \<and> \<not> pending_submit t \<and>
     (if pending_submit s then e_sq_ready E (world t) = 0 else t = s)"

definition flush_bad :: "'w env \<Rightarrow> exn \<Rightarrow> ('w, 'z) submitter_scheme \<Rightarrow> ('w, 'z) submitter_scheme \<Rightarrow> bool" where
  "flush_bad E e s t \<longleftrightarrow> sub_frame s t \<and> submits E (world s) (world t) \<and> pending_submit s \<and> pending_submit t \<and>
     ((\<exists>n. e = OSError n \<and> 0 < n \<and> n \<noteq> EINTR) \<or>
      e = RuntimeError ''io_uring made no progress submitting queued entries'' \<and> 0 < e_sq_ready E (world t))"

lemma submit_run:
  "liftW (io_uring_submit E) s =
     (case e_submit E (world s) of (r, w) \<Rightarrow>
        Some (if sint r < 0 then Inl (OSError (- sint r)) else Inr (sint r), s\<lparr>world := w\<rparr>))"
  by (simp add: py_defs io_uring_submit_def check_res_def split: prod.split)

definition flush_post ::
  "'w env \<Rightarrow> ('w, 'z) submitter_scheme \<Rightarrow> (exn + unit) \<times> ('w, 'z) submitter_scheme \<Rightarrow> bool" where
  "flush_post E s y = (case fst y of Inl e \<Rightarrow> flush_bad E e s (snd y) | Inr _ \<Rightarrow> flush_ok E s (snd y))"

lemma flush_post_step:
  assumes "pending_submit s" and "liftW (io_uring_submit E) s = Some (r, s1)"
    and "flush_post E (s1\<lparr>pending_submit := b\<rparr>) y" and "b \<or> e_sq_ready E (world s1) = 0"
  shows "flush_post E s y"
proof -
  from assms(2) obtain x where w: "s1 = s\<lparr>world := snd (e_submit E (world s))\<rparr>"
    by (auto simp: submit_run split: prod.splits)
  have f: "sub_frame s (s1\<lparr>pending_submit := b\<rparr>)"
    using assms(1) unfolding w sub_frame_def by (auto intro: exI [of _ "snd (e_submit E (world s))"])
  show ?thesis
    using assms(1,3,4) sub_frame_trans [OF f] submits_step [of E "world s"]
    by (cases "fst y") (auto simp: flush_post_def flush_ok_def flush_bad_def w split: if_splits)
qed

lemma flush_outcome:
  assumes ret: "flush E s = Some y"
  shows "flush_post E s y"
proof (rule flush.raw_induct [where P = flush_post, OF _ ret], goal_cases)
  case (1 f E s y)
  show ?case
  proof (cases "pending_submit s")
    case False
    then show ?thesis using "1"(2) by (auto simp: flush_post_def flush_ok_def sub_frame_refl)
  next
    case True
    obtain r s1 where l: "liftW (io_uring_submit E) s = Some (r, s1)"
      by (cases "e_submit E (world s)") (auto simp: submit_run)
    have s1: "s1 = s1\<lparr>pending_submit := True\<rparr>" using l True by (auto simp: submit_run split: prod.splits)
    note step = flush_post_step [OF True l]
    show ?thesis
    proof (cases r)
      case (Inl e)
      show ?thesis
      proof (cases "e = OSError EINTR")
        case True
        then have "f E s1 = Some y" using "1"(2) \<open>pending_submit s\<close> l Inl by simp
        then show ?thesis using step [of True y] s1 "1"(1) by simp
      next
        case False
        then have "y = (Inl e, s1)" using "1"(2) \<open>pending_submit s\<close> l Inl by simp
        moreover have "flush_bad E e s s1"
          using l Inl False True by (auto simp: flush_bad_def submit_run intro: submits_step split: prod.splits if_splits)
        ultimately show ?thesis by (simp add: flush_post_def)
      qed
    next
      case (Inr n)
      show ?thesis
      proof (cases "e_sq_ready E (world s1) = 0")
        case True
        then show ?thesis using "1" \<open>pending_submit s\<close> l Inr step [of False y] by simp
      next
        case F: False
        show ?thesis
        proof (cases "n = 0")
          case True
          then have "y = (Inl (RuntimeError ''io_uring made no progress submitting queued entries''), s1)"
            using "1"(2) \<open>pending_submit s\<close> l Inr F by simp
          then show ?thesis
            using l F \<open>pending_submit s\<close>
            by (auto simp: flush_post_def flush_bad_def submit_run intro: submits_step split: prod.splits)
        next
          case False
          then have "f E s1 = Some y" using "1"(2) \<open>pending_submit s\<close> l Inr F by simp
          then show ?thesis using step [of True y] s1 "1"(1) by simp
        qed
      qed
    qed
  qed
qed

lemma wp_flush: "wp True (flush E) s (\<lambda>_. flush_ok E s) (\<lambda>e. flush_bad E e s)"
  by (rule wpI) (auto dest: flush_outcome simp: flush_post_def)

text \<open>
  Under the laws of the queue and with finitely many interruptions \<open>flush\<close> returns: an
  interrupted submission spends the budget, a successful one shortens the queue.
\<close>

lemma flush_returns:
  assumes laws: "sq_laws E n" and budget: "eintr_budget E m"
  shows "\<exists>r t. flush E s = Some (r, t)"
proof (induction "m (world s) + e_sq_ready E (world s)" arbitrary: s rule: less_induct)
  case less
  show ?case
  proof (cases "pending_submit s")
    case False
    then show ?thesis by (simp add: flush.simps)
  next
    case True
    obtain c w where c: "e_submit E (world s) = (c, w)" by fastforce
    have b: "if sint c = - EINTR then m w < m (world s) else m w \<le> m (world s)"
      using budget c by (simp add: eintr_budget_def)
    have q: "if sint c < 0 then e_sq_ready E w = e_sq_ready E (world s)
             else int (e_sq_ready E w) = int (e_sq_ready E (world s)) - sint c"
      by (rule submit_ready [OF laws c])
    have IH: "m w + e_sq_ready E w < m (world s) + e_sq_ready E (world s) \<Longrightarrow>
        \<exists>r t. flush E (s\<lparr>world := w\<rparr>) = Some (r, t)"
      using less [of "s\<lparr>world := w\<rparr>"] by simp
    have D: "\<exists>r t. flush E (s\<lparr>world := w, pending_submit := False\<rparr>) = Some (r, t)"
      by (simp add: flush.simps)
    have A: "\<exists>r t. flush E (s\<lparr>world := w\<rparr>) = Some (r, t)" if "sint c = - EINTR"
      using that b q by (intro IH) auto
    have B: "\<exists>r t. flush E (s\<lparr>world := w\<rparr>) = Some (r, t)" if "0 < sint c"
      using that b q by (intro IH) (auto split: if_splits)
    show ?thesis
      using True A B D q by (subst flush.simps) (auto simp: submit_run c)
  qed
qed

section \<open>What the entry-taking methods keep\<close>

definition queue_room :: "'w env \<Rightarrow> ('w, 'z) submitter_scheme \<Rightarrow> nat" where
  "queue_room E s = e_sq_space_left E (world s)"

lemma get_sqe_room:
  assumes "sq_laws E n" and "0 < queue_room E s"
  shows "\<exists>q w. get_sqe E s = Some (Inr q, s\<lparr>world := w\<rparr>) \<and> e_get_sqe E (world s) = (Some q, w) \<and>
           e_sq_ready E w = Suc (e_sq_ready E (world s))"
proof -
  obtain q w where "e_get_sqe E (world s) = (Some q, w)" "e_sq_ready E w = Suc (e_sq_ready E (world s))"
    using get_sqe_free [OF assms(1), of "world s"] assms(2) by (auto simp: queue_room_def)
  then show ?thesis
    by (simp add: get_sqe_def py_defs io_uring_get_sqe_def)
qed

lemma get_sqe_stuck:
  assumes "sq_laws E n" and "queue_room E s = 0" and "\<not> pending_submit s"
  shows "get_sqe E s = Some (Inl (RuntimeError ''io_uring submission queue is full''), s)"
  using get_sqe_full [OF assms(1), of "world s"] assms(2,3)
  by (simp add: get_sqe_def py_defs io_uring_get_sqe_def queue_room_def flush.simps)

lemma wp_get_sqe: "wp True (get_sqe E) s (\<lambda>_. sub_frame s) (\<lambda>_. sub_frame s)"
proof -
  have *: "wp True (flush E) (s\<lparr>world := w\<rparr>) (\<lambda>_ t. sub_frame s t) (\<lambda>_. sub_frame s)" for w
    using wp_flush [of E "s\<lparr>world := w\<rparr>"]
    by (rule wp_mono) (auto simp: flush_ok_def flush_bad_def intro: sub_frame_trans [OF sub_frame_world])
  show ?thesis
    by (auto simp: get_sqe_def wp_rules io_uring_get_sqe_def sub_frame_upd
      split: prod.split option.split intro!: wp_mono [OF *])
qed

lemma wp_ensure_capacity:
  "wp True (ensure_capacity E k) s (\<lambda>_ t. sub_frame s t \<and> k \<le> queue_room E t) (\<lambda>_. sub_frame s)"
proof -
  have "wp True (flush E) s (\<lambda>_. sub_frame s) (\<lambda>_. sub_frame s)"
    using wp_flush [of E s] by (rule wp_mono) (auto simp: flush_ok_def flush_bad_def)
  then show ?thesis
    by (auto simp: ensure_capacity_def wp_rules io_uring_sq_space_left_def queue_room_def
      sub_frame_refl elim!: wp_mono)
qed

definition entry_filled ::
  "'w env \<Rightarrow> int \<Rightarrow> int \<Rightarrow> KernelRequest \<Rightarrow> 'w \<Rightarrow> 'w \<Rightarrow> bool" where
  "entry_filled E ud flags r w w' \<longleftrightarrow> (\<exists>q w1. filled_entry E q r w w1 \<and>
     w' = (if flags \<noteq> 0 then e_set_flags E q flags (e_set_data64 E q ud w1)
           else e_set_data64 E q ud w1))"

lemma set_data64_run:
  "wp False (io_uring_sqe_set_data64 E q ud) w
     (\<lambda>_ w'. w' = e_set_data64 E q ud w) (\<lambda>_ w'. w' = w)"
  by (auto simp: io_uring_sqe_set_data64_def wp_rules c_u64_def)

lemma set_flags_run:
  "wp False (io_uring_sqe_set_flags E q fl) w
     (\<lambda>_ w'. w' = e_set_flags E q fl w) (\<lambda>_ w'. w' = w)"
  by (auto simp: io_uring_sqe_set_flags_def wp_rules c_unsigned_def)

definition prepared ::
  "'w env \<Rightarrow> int \<Rightarrow> int \<Rightarrow> ('w, 'z) submitter_scheme \<Rightarrow> ('w, 'z) submitter_scheme \<Rightarrow> bool" where
  "prepared E ud flags s t \<longleftrightarrow> (\<exists>w0 w b r. entry_filled E ud flags r w0 w \<and> (b \<longrightarrow> pending_submit s) \<and>
     t = s\<lparr>world := w, pending_submit := b, unsubmitted := unsubmitted s @ [(ud, r)]\<rparr>)"

lemma preparedI:
  assumes "sub_frame s t0" and "filled_entry E q r (world t0) w1"
    and "w = (if flags \<noteq> 0 then e_set_flags E q flags (e_set_data64 E q ud w1) else e_set_data64 E q ud w1)"
  shows "prepared E ud flags s (t0\<lparr>world := w, unsubmitted := unsubmitted t0 @ [(ud, r)]\<rparr>)"
proof -
  have "entry_filled E ud flags r (world t0) w" using assms(2,3) by (auto simp: entry_filled_def)
  moreover obtain w0 b where "t0 = s\<lparr>world := w0, pending_submit := b\<rparr>" "b \<longrightarrow> pending_submit s"
    using assms(1) by (auto simp: sub_frame_def)
  ultimately show ?thesis
    unfolding prepared_def
    by (intro exI [of _ w0] exI [of _ w] exI [of _ b] exI [of _ r]) auto
qed

lemmas prepared_flags = preparedI [OF _ _ if_P [symmetric]]
  and prepared_noflags = preparedI [OF _ _ if_not_P [symmetric], unfolded not_not]

lemma allocs_ready: "ffi_allocs E w w' \<Longrightarrow> sq_laws E n \<Longrightarrow> e_sq_ready E w' = e_sq_ready E w"
  by (induction rule: ffi_allocs.induct) (simp_all add: sq_frame)

context prep_interface
begin

lemma wp_prep: "wp True (prep E p ud flags) s (\<lambda>_. prepared E ud flags s) (\<lambda>_. sub_frame s)"
proof -
  have *: "wp True (bindM (liftW (p q)) (\<lambda>request.
     thenM (liftW (io_uring_sqe_set_data64 E q ud))
       (thenM (whenM (flags \<noteq> 0) (liftW (io_uring_sqe_set_flags E q flags)))
         (modM (\<lambda>s. s\<lparr>unsubmitted := unsubmitted s @ [(ud, request)]\<rparr>))))) t0
     (\<lambda>_. prepared E ud flags s) (\<lambda>_. sub_frame s)" if f: "sub_frame s t0" for q t0
    by (auto simp: wp_rules intro: prepared_flags [OF f] prepared_noflags [OF f] intro!: wp_mono [OF wp_weaken [OF prep_runs]]
      wp_mono [OF wp_weaken [OF set_data64_run]] wp_mono [OF wp_weaken [OF set_flags_run]]
      sub_frame_upd [OF f])
  show ?thesis
    unfolding prep_def wp_bindM by (rule wp_mono [OF wp_get_sqe]) (auto intro: * [unfolded wp_bindM])
qed

text \<open>With room in the queue the entry is taken without flushing, whatever happens next.\<close>

lemma prep_room:
  assumes laws: "sq_laws E n" and room: "0 < queue_room E s"
  shows "wp False (prep E p ud flags) s
     (\<lambda>_ t. \<exists>w r. t = s\<lparr>world := w, unsubmitted := unsubmitted s @ [(ud, r)]\<rparr> \<and>
        e_sq_ready E w = Suc (e_sq_ready E (world s)))
     (\<lambda>e t. \<exists>w. t = s\<lparr>world := w\<rparr> \<and> e_sq_ready E w = Suc (e_sq_ready E (world s)))"
proof -
  obtain q w where g: "get_sqe E s = Some (Inr q, s\<lparr>world := w\<rparr>)"
      and r: "e_sq_ready E w = Suc (e_sq_ready E (world s))"
    using get_sqe_room [OF assms] by blast
  have f: "e_sq_ready E v' = e_sq_ready E v" if "filled_entry E q r v v'" for r v v'
    using that allocs_ready [OF _ laws] sq_frame [OF laws] by (auto simp: filled_entry_def)
  show ?thesis
    unfolding prep_def wp_bindM using r
    by (auto simp: wp_def [of _ "get_sqe E"] g)
      (auto simp: wp_rules sq_frame [OF laws] f allocs_ready [OF _ laws]
        intro!: wp_mono [OF prep_runs] wp_mono [OF set_data64_run] wp_mono [OF set_flags_run])
qed

end

section \<open>The contract of a submitter method\<close>

text \<open>
  Every method of \<open>_ProactorSubmit\<close> that prepares an entry either appends one registered-to-be
  pair under the given \<open>user_data\<close> or leaves the submitter's lists alone.
\<close>

locale submit_method =
  fixes E :: "'w env" and m :: "int \<Rightarrow> int \<Rightarrow> (('w, 'z) submitter_scheme, unit) py"
  assumes method_runs: "wp True (m ud flags) s (\<lambda>_. prepared E ud flags s) (\<lambda>_. sub_frame s)"

text \<open>And the registered-to-be request asks what the given one asks.\<close>

locale requesting = submit_method +
  fixes request :: KernelRequest
  assumes method_request: "wp True (m ud flags) s
      (\<lambda>_ t. \<exists>r. asks request r \<and> unsubmitted t = unsubmitted s @ [(ud, r)]) (\<lambda>_ _. True)"

context pinning
begin

lemma prep_requests:
  "wp True (prep E p ud flags) s
     (\<lambda>_ t. \<exists>r. asks request r \<and> unsubmitted t = unsubmitted s @ [(ud, r)]) (\<lambda>_ _. True)"
  unfolding prep_def wp_bindM
  by (rule wp_mono [OF wp_get_sqe])
    (auto simp: wp_rules dest!: sub_frameD(2) intro!: wp_mono [OF prep_pins] wp_mono [OF wp_weaken [OF set_data64_run]]
      wp_mono [OF wp_weaken [OF set_flags_run]])

end

interpretation recv_method: requesting E "sub_recv E r" "RecvReq r" for E :: "'w env" and r
  by unfold_locales (simp_all add: sub_recv_def prep_recv_ok.wp_prep prep_recv_ok.prep_requests)

interpretation read_method: requesting E "sub_read E r" "ReadReq r" for E :: "'w env" and r
  by unfold_locales (simp_all add: sub_read_def prep_read_ok.wp_prep prep_read_ok.prep_requests)

interpretation recvfrom_method: requesting E "sub_recvfrom E r" "RecvFromReq r" for E :: "'w env" and r
  by unfold_locales (simp_all add: sub_recvfrom_def prep_recvfrom_ok.wp_prep prep_recvfrom_ok.prep_requests)

interpretation sendto_method: requesting E "sub_sendto E r" "SendToReq r" for E :: "'w env" and r
  by unfold_locales (simp_all add: sub_sendto_def prep_sendto_ok.wp_prep prep_sendto_ok.prep_requests)

interpretation send_method: requesting E "sub_send E r" "SendReq r" for E :: "'w env" and r
  by unfold_locales (simp_all add: sub_send_def prep_send_ok.wp_prep prep_send_ok.prep_requests)

interpretation write_method: requesting E "sub_write E r" "WriteReq r" for E :: "'w env" and r
  by unfold_locales (simp_all add: sub_write_def prep_write_ok.wp_prep prep_write_ok.prep_requests)

interpretation accept_method: requesting E "sub_accept E r" "AcceptReq r" for E :: "'w env" and r
  by unfold_locales (simp_all add: sub_accept_def prep_accept_ok.wp_prep prep_accept_ok.prep_requests)

interpretation connect_method: requesting E "sub_connect E r" "ConnectReq r" for E :: "'w env" and r
  by unfold_locales (simp_all add: sub_connect_def prep_connect_ok.wp_prep prep_connect_ok.prep_requests)

interpretation splice_method: requesting E "sub_splice E r" "SpliceReq r" for E :: "'w env" and r
  by unfold_locales (simp_all add: sub_splice_def prep_splice_ok.wp_prep prep_splice_ok.prep_requests)

interpretation cancel_method: requesting E "sub_cancel E r" "Cancel64Req r" for E :: "'w env" and r
  by unfold_locales (simp_all add: sub_cancel_def prep_cancel64_ok.wp_prep prep_cancel64_ok.prep_requests)

interpretation poll_add_method: requesting E "sub_poll_add E r" "PollAddReq r" for E :: "'w env" and r
  by unfold_locales (simp_all add: sub_poll_add_def prep_poll_add_ok.wp_prep prep_poll_add_ok.prep_requests)

end
