(* ===== verification/Uring_Proactor.thy ===== *)
theory Uring_Proactor
  imports Uring_Submit
begin

text \<open>
  \<open>IoUringProactor\<close> and \<open>_IoUringFuture\<close>, the part that starts and cancels operations. The
  state extends the submitter's by the proactor's fields and by the two object stores:
  operations and futures, each under the reference it was allocated with.
\<close>

section \<open>Futures\<close>

datatype fut_state = Pending | Cancelled | Finished "exn + pyval"

record future =
  fut_state :: fut_state
  fut_operation :: nat

definition fut_done :: "future \<Rightarrow> bool" where
  "fut_done f = (fut_state f \<noteq> Pending)"

section \<open>State\<close>

text \<open>
  \<open>iouring\<close> is whether \<open>self._iouring\<close> is set; \<open>loop\<close> is the event loop's debug flag, if a
  loop was set; \<open>handler_log\<close> collects the calls of \<open>call_exception_handler\<close>; \<open>alive\<close> says
  whether the weak reference a future has to its proactor still leads to it.
\<close>

datatype handler_call =
    UnexpectedEvent int int
  | CancelFailed nat exn
  | CloseCancelFailed exn nat

record 'w proactor = "'w submitter" +
  iouring :: bool
  loop :: "bool option"
  results :: "nat list"
  stopped_serving :: "fileobj set"
  user_data_counter :: int
  ops :: "nat \<Rightarrow> BaseOperation"
  next_op :: nat
  futs :: "nat \<Rightarrow> future"
  next_fut :: nat
  alive :: bool
  handler_log :: "handler_call list"

type_synonym ('w, 'a) pr = "('w proactor, 'a) py"

definition next_user_data :: "('w, int) pr" where
  "next_user_data = actM (\<lambda>s. (user_data_counter s, s\<lparr>user_data_counter := user_data_counter s + 1\<rparr>))"

definition new_op :: "BaseOperation \<Rightarrow> ('w, nat) pr" where
  "new_op op = actM (\<lambda>s. (next_op s, s\<lparr>ops := (ops s)(next_op s := op), next_op := Suc (next_op s)\<rparr>))"

definition new_future :: "nat \<Rightarrow> ('w, nat) pr" where
  "new_future op = actM (\<lambda>s. (next_fut s,
     s\<lparr>futs := (futs s)(next_fut s := \<lparr>fut_state = Pending, fut_operation = op\<rparr>),
       next_fut := Suc (next_fut s)\<rparr>))"

definition set_loop :: "bool \<Rightarrow> ('w, unit) pr" where
  "set_loop debug = modM (\<lambda>s. s\<lparr>loop := Some debug\<rparr>)"

text \<open>No method calls it.\<close>

definition check_closed :: "('w, unit) pr" where
  "check_closed = readM (\<lambda>s. if iouring s then ret () else raise (RuntimeError ''IoUringProactor is closed''))"

section \<open>Construction\<close>

text \<open>
  The object as \<open>__init__\<close> has it before the ring exists, and after. When
  \<open>io_uring_queue_init\<close> raises, the half-built object keeps \<open>_iouring = None\<close>.
\<close>

definition DEFAULT_ENTRIES :: int where
  "DEFAULT_ENTRIES = 256"

definition new_proactor :: "'w \<Rightarrow> (nat \<Rightarrow> BaseOperation) \<Rightarrow> 'w proactor" where
  "new_proactor w junk = \<lparr>world = w, cache = [], unsubmitted = [], pending_submit = False,
     iouring = False, loop = None, results = [], stopped_serving = {}, user_data_counter = 1,
     ops = junk, next_op = 0, futs = (\<lambda>_. \<lparr>fut_state = Pending, fut_operation = 0\<rparr>),
     next_fut = 0, alive = True, handler_log = []\<rparr>"

definition init_proactor :: "'w env \<Rightarrow> int \<Rightarrow> int \<Rightarrow> ('w, unit) pr" where
  "init_proactor E entries flags =
     thenM (modM (\<lambda>s. s\<lparr>loop := None, results := [], iouring := False\<rparr>))
       (bindM (liftW (io_uring_queue_init E entries flags)) (\<lambda>_.
        modM (\<lambda>s. s\<lparr>iouring := True, cache := [], stopped_serving := {}, unsubmitted := [],
          pending_submit := False, user_data_counter := 1\<rparr>)))"

section \<open>Starting an operation\<close>

text \<open>
  The common tail of the operation methods: make the operation and its future, prepare the
  entry, register both, return the future.
\<close>

definition start ::
  "BaseOperation \<Rightarrow> (int \<Rightarrow> int \<Rightarrow> ('w, unit) pr) \<Rightarrow> int \<Rightarrow> ('w, nat) pr" where
  "start op sub ud =
     bindM (new_op op) (\<lambda>opr. bindM (new_future opr) (\<lambda>fut.
     thenM (sub ud 0) (thenM (submit opr (Some fut)) (ret fut))))"

definition bytearray :: "'w env \<Rightarrow> int \<Rightarrow> ('w, pybuf) pr" where
  "bytearray E nbytes =
     (if nbytes < 0 then raise (ValueError ''negative count'')
      else bindM (liftW (actM (e_bytearray E (nat nbytes)))) (\<lambda>c.
        ret \<lparr>buf_cell = c, buf_readonly = False, buf_nbytes = nat nbytes\<rparr>))"

definition recv :: "'w env \<Rightarrow> fileobj \<Rightarrow> int \<Rightarrow> int \<Rightarrow> ('w, nat) pr" where
  "recv E conn nbytes flags =
     bindM (bytearray E nbytes) (\<lambda>buf. bindM next_user_data (\<lambda>ud.
     case conn of
       SockObj sock \<Rightarrow>
         start (RecvOp \<lparr>user_data = ud, cqe_received = False, rcvop_sock = sock,
                        rcvop_buffer = buf, rcvop_flags = flags\<rparr>)
           (sub_recv E \<lparr>rcv_sock = sock, rcv_buffer = buf, rcv_flags = flags,
                        rcv_buffer_cdata = None\<rparr>) ud
     | _ \<Rightarrow>
         start (ReadOp \<lparr>user_data = ud, cqe_received = False, rdop_file = conn, rdop_buffer = buf\<rparr>)
           (sub_read E \<lparr>rd_file = conn, rd_buffer = buf, rd_offset = OFFSET_CURRENT_POS,
                        rd_buffer_cdata = None\<rparr>) ud))"

definition recv_into :: "'w env \<Rightarrow> fileobj \<Rightarrow> pybuf \<Rightarrow> int \<Rightarrow> ('w, nat) pr" where
  "recv_into E conn buf flags =
     bindM next_user_data (\<lambda>ud.
     case conn of
       SockObj sock \<Rightarrow>
         start (RecvIntoOp \<lparr>user_data = ud, cqe_received = False, rciop_sock = sock,
                            rciop_buffer = buf, rciop_flags = flags\<rparr>)
           (sub_recv E \<lparr>rcv_sock = sock, rcv_buffer = buf, rcv_flags = flags,
                        rcv_buffer_cdata = None\<rparr>) ud
     | _ \<Rightarrow>
         start (ReadIntoOp \<lparr>user_data = ud, cqe_received = False, rdiop_file = conn,
                            rdiop_buffer = buf\<rparr>)
           (sub_read E \<lparr>rd_file = conn, rd_buffer = buf, rd_offset = OFFSET_CURRENT_POS,
                        rd_buffer_cdata = None\<rparr>) ud)"

definition recvfrom :: "'w env \<Rightarrow> socket \<Rightarrow> int \<Rightarrow> int \<Rightarrow> ('w, nat) pr" where
  "recvfrom E conn nbytes flags =
     bindM (bytearray E nbytes) (\<lambda>buf.
     bindM (liftW (new_writable_sockaddr E (sock_family conn))) (\<lambda>sa.
     bindM next_user_data (\<lambda>ud.
       start (RecvFromOp \<lparr>user_data = ud, cqe_received = False, rfop_sock = conn,
                          rfop_buffer = buf, rfop_sockaddr = sa, rfop_flags = flags\<rparr>)
         (sub_recvfrom E \<lparr>rfr_sock = conn, rfr_buffer = buf, rfr_sockaddr = sa,
            rfr_msghdr_flags = 0, rfr_flags = flags, rfr_msghdr = None, rfr_iov = None,
            rfr_iov_base = None\<rparr>) ud)))"

definition recvfrom_into :: "'w env \<Rightarrow> socket \<Rightarrow> pybuf \<Rightarrow> int \<Rightarrow> ('w, nat) pr" where
  "recvfrom_into E conn buf flags =
     bindM (liftW (new_writable_sockaddr E (sock_family conn))) (\<lambda>sa.
     bindM next_user_data (\<lambda>ud.
       start (RecvFromIntoOp \<lparr>user_data = ud, cqe_received = False, rfiop_sock = conn,
                              rfiop_buffer = buf, rfiop_sockaddr = sa, rfiop_flags = flags\<rparr>)
         (sub_recvfrom E \<lparr>rfr_sock = conn, rfr_buffer = buf, rfr_sockaddr = sa,
            rfr_msghdr_flags = 0, rfr_flags = flags, rfr_msghdr = None, rfr_iov = None,
            rfr_iov_base = None\<rparr>) ud))"

text \<open>An address counts as given when it is truthy: an empty string or byte string is not.\<close>

fun addr_truthy :: "pyAddress option \<Rightarrow> bool" where
  "addr_truthy None = False"
| "addr_truthy (Some (AddrTuple h ps)) = True"
| "addr_truthy (Some (AddrStr p)) = (p \<noteq> [])"
| "addr_truthy (Some (AddrBytes p)) = (p \<noteq> [])"

definition sendto :: "'w env \<Rightarrow> socket \<Rightarrow> pybuf \<Rightarrow> int \<Rightarrow> pyAddress option \<Rightarrow> ('w, nat) pr" where
  "sendto E conn buf flags addr =
     bindM (if addr_truthy addr
            then bindM (liftW (new_readable_sockaddr E (sock_family conn) (the addr))) (\<lambda>c. ret (Some c))
            else ret None) (\<lambda>sa.
     bindM next_user_data (\<lambda>ud.
       start (SendToOp \<lparr>user_data = ud, cqe_received = False, stop_sock = conn,
                        stop_buffer = buf, stop_sockaddr = sa, stop_flags = flags\<rparr>)
         (sub_sendto E \<lparr>sto_sock = conn, sto_buffer = buf, sto_sockaddr = sa,
            sto_msghdr_flags = 0, sto_flags = flags, sto_msghdr = None, sto_iov = None,
            sto_iov_base = None\<rparr>) ud))"

definition send :: "'w env \<Rightarrow> fileobj \<Rightarrow> pybuf \<Rightarrow> int \<Rightarrow> ('w, nat) pr" where
  "send E conn buf flags =
     bindM next_user_data (\<lambda>ud.
     case conn of
       SockObj sock \<Rightarrow>
         start (SendOp \<lparr>user_data = ud, cqe_received = False, sndop_sock = sock,
                        sndop_buffer = buf, sndop_flags = flags\<rparr>)
           (sub_send E \<lparr>snd_sock = sock, snd_buffer = buf, snd_flags = flags,
                        snd_buffer_cdata = None\<rparr>) ud
     | _ \<Rightarrow>
         start (WriteOp \<lparr>user_data = ud, cqe_received = False, wrop_file = conn,
                         wrop_buffer = buf, wrop_offset = OFFSET_CURRENT_POS\<rparr>)
           (sub_write E \<lparr>wr_file = conn, wr_buffer = buf, wr_offset = OFFSET_CURRENT_POS,
                         wr_buffer_cdata = None\<rparr>) ud)"

definition SOCK_CLOEXEC :: int where
  "SOCK_CLOEXEC = 524288"

definition accept :: "'w env \<Rightarrow> socket \<Rightarrow> ('w, nat) pr" where
  "accept E listener =
     bindM (liftW (new_writable_sockaddr E (sock_family listener))) (\<lambda>sa.
     bindM next_user_data (\<lambda>ud.
       start (AcceptOp \<lparr>user_data = ud, cqe_received = False, accop_sock = listener,
                        accop_sockaddr = sa, accop_flags = SOCK_CLOEXEC\<rparr>)
         (sub_accept E \<lparr>acc_sock = listener, acc_sockaddr = sa, acc_flags = SOCK_CLOEXEC,
            acc_addrlen_ptr = None\<rparr>) ud))"

definition connect :: "'w env \<Rightarrow> socket \<Rightarrow> pyAddress \<Rightarrow> ('w, nat) pr" where
  "connect E conn address =
     bindM (liftW (new_readable_sockaddr E (sock_family conn) address)) (\<lambda>sa.
     bindM next_user_data (\<lambda>ud.
       start (ConnectOp \<lparr>user_data = ud, cqe_received = False, conop_sock = conn,
                         conop_sockaddr = sa\<rparr>)
         (sub_connect E \<lparr>con_sock = conn, con_sockaddr = sa\<rparr>) ud))"

definition poll_add :: "'w env \<Rightarrow> fileobj \<Rightarrow> int \<Rightarrow> ('w, nat) pr" where
  "poll_add E file poll_mask =
     bindM next_user_data (\<lambda>ud.
       start (PollAddOp \<lparr>user_data = ud, cqe_received = False, polop_file = file,
                         polop_poll_mask = poll_mask\<rparr>)
         (sub_poll_add E \<lparr>pol_file = file, pol_poll_mask = poll_mask\<rparr>) ud)"

definition sendfile :: "'w env \<Rightarrow> socket \<Rightarrow> fileobj \<Rightarrow> int \<Rightarrow> int \<Rightarrow> ('w, nat) pr" where
  "sendfile E sock file offset count =
     thenM (ensure_capacity E 2)
     (bindM (liftW (tryM (e_pipe E))) (\<lambda>(r, w).
      let pr = sint r; pw = sint w in
      bindM next_user_data (\<lambda>f2p. bindM next_user_data (\<lambda>p2s.
      bindM (new_op (SendfileOp \<lparr>sfop_sock = sock, sfop_file = file, pipe_r = pr, pipe_w = pw,
         sfop_offset = offset, sfop_count = count, f2p_user_data = f2p, p2s_user_data = p2s,
         f2p_done = False, p2s_done = False, pipes_closed = False\<rparr>)) (\<lambda>opr.
      bindM (new_future opr) (\<lambda>fut.
      thenM (sub_splice E \<lparr>spl_file_in = file, spl_off_in = offset, spl_file_out = FdInt pw,
               spl_off_out = - 1, spl_nbytes = count, spl_splice_flags = 0\<rparr> f2p
               (e_IOSQE_IO_HARDLINK E))
      (thenM (sub_splice E \<lparr>spl_file_in = FdInt pr, spl_off_in = - 1, spl_file_out = SockObj sock,
               spl_off_out = - 1, spl_nbytes = count, spl_splice_flags = 0\<rparr> p2s 0)
      (thenM (submit opr (Some fut)) (ret fut)))))))))"

section \<open>Cancelling\<close>

definition cancel_operation :: "'w env \<Rightarrow> nat \<Rightarrow> int \<Rightarrow> ('w, unit) pr" where
  "cancel_operation E opr flags =
     bindM (getM (\<lambda>s. get_user_data (ops s opr))) (\<lambda>target. case target of
       None \<Rightarrow> ret ()
     | Some ud \<Rightarrow>
         if ud = 0 then ret ()
         else bindM next_user_data (\<lambda>cud.
           thenM (sub_cancel E \<lparr>can_user_data = ud, can_flags = flags\<rparr> cud 0) (submit opr None)))"

definition base_cancel :: "nat \<Rightarrow> ('w, bool) pr" where
  "base_cancel f = actM (\<lambda>s.
     if fut_done (futs s f) then (False, s)
     else (True, s\<lparr>futs := (futs s)(f := (futs s f)\<lparr>fut_state := Cancelled\<rparr>)\<rparr>))"

definition fut_cancel :: "'w env \<Rightarrow> nat \<Rightarrow> ('w, bool) pr" where
  "fut_cancel E f =
     bindM (getM (\<lambda>s. (fut_state (futs s f), alive s, fut_operation (futs s f)))) (\<lambda>(st, al, opr).
     thenM (whenM (st \<noteq> Cancelled) (whenM al (cancel_operation E opr 0)))
       (base_cancel f))"

end
