(* ===== verification/Uring_Poll.thy ===== *)
theory Uring_Poll
  imports Uring_Proactor
begin

text \<open>
  \<open>IoUringProactor\<close>, the completing side: \<open>_handle_cqe\<close>, \<open>_run_operation\<close>, \<open>_poll\<close>,
  \<open>select\<close>, \<open>_stop_serving\<close> and \<open>close\<close>. The loops that may not end are
  \<^theory_text>\<open>partial_function\<close>s: not returning is \<open>None\<close>.
\<close>

definition log_handler :: "handler_call \<Rightarrow> ('w, unit) pr" where
  "log_handler c = modM (\<lambda>s. s\<lparr>handler_log := handler_log s @ [c]\<rparr>)"

text \<open>Membership in the \<open>WeakSet\<close>: an integer cannot be weakly referenced, so it is never in it.\<close>

definition is_stopped :: "'w proactor \<Rightarrow> fileobj \<Rightarrow> bool" where
  "is_stopped s f = (case f of FdInt n \<Rightarrow> False | _ \<Rightarrow> f \<in> stopped_serving s)"

section \<open>One completion\<close>

definition mark_seen_at :: "'w env \<Rightarrow> nat \<Rightarrow> int \<Rightarrow> ('w, unit) pr" where
  "mark_seen_at E opr ud =
     zoomM (\<lambda>s. (ops s opr, world s)) (\<lambda>(op, w) s. s\<lparr>ops := (ops s)(opr := op), world := w\<rparr>)
       (mark_seen E ud)"

definition set_fut_state :: "nat \<Rightarrow> fut_state \<Rightarrow> 'w proactor \<Rightarrow> 'w proactor" where
  "set_fut_state f st s = s\<lparr>futs := (futs s)(f := (futs s f)\<lparr>fut_state := st\<rparr>)\<rparr>"

definition apply_settle :: "nat \<Rightarrow> settle \<Rightarrow> ('w, unit) pr" where
  "apply_settle f a = readM (\<lambda>s. case a of
       SetNothing \<Rightarrow> ret ()
     | SetResult v \<Rightarrow>
         if fut_done (futs s f) then raise InvalidStateError
         else modM (set_fut_state f (Finished (Inr v)))
     | SetException e \<Rightarrow>
         if fut_done (futs s f) then raise InvalidStateError
         else modM (set_fut_state f (Finished (Inl e))))"

definition run_operation :: "'w env \<Rightarrow> IoUringCqe \<Rightarrow> nat \<Rightarrow> nat \<Rightarrow> ('w, unit) pr" where
  "run_operation E cqe opr f = readM (\<lambda>s.
     if fut_done (futs s f) then ret ()
     else thenM (bindM (liftW (operate E (ops s opr) (cqe_res cqe))) (apply_settle f))
       (readM (\<lambda>s. whenM (fut_done (futs s f)) (modM (\<lambda>s. s\<lparr>results := results s @ [f]\<rparr>)))))"

definition handle_cqe :: "'w env \<Rightarrow> IoUringCqe \<Rightarrow> ('w, unit) pr" where
  "handle_cqe E cqe =
     (let ud = cqe_user_data cqe; res = cqe_res cqe in
      readM (\<lambda>s. case dict_pop ud (cache s) of
        None \<Rightarrow> whenM (loop s = Some True) (log_handler (UnexpectedEvent ud res))
      | Some (pending, c) \<Rightarrow>
          (let opr = pc_operation pending in
           thenM (modM (\<lambda>s. s\<lparr>cache := c\<rparr>))
             (case pc_future pending of
                Some f \<Rightarrow>
                  thenM (mark_seen_at E opr ud)
                    (readM (\<lambda>s. if is_stopped s (get_file_obj (ops s opr))
                                then bindM (fut_cancel E f) (\<lambda>_. ret ())
                                else run_operation E cqe opr f))
              | None \<Rightarrow>
                  whenM (res < 0)
                    (readM (\<lambda>s. if loop s = None \<or> res = - ENOENT \<and> all_seen (ops s opr) then ret ()
                                else log_handler (CancelFailed opr (get_os_error res))))))))"

section \<open>Polling\<close>

text \<open>The ring calls of the proactor take \<open>self._iouring\<close>, which CFFI rejects when it is \<open>None\<close>.\<close>

definition ring_call :: "('w, 'a) py \<Rightarrow> ('w, 'a) pr" where
  "ring_call m = readM (\<lambda>s. if iouring s then liftW m else raise (TypeError ''io_uring''))"

definition consume :: "'w env \<Rightarrow> c_cqe \<Rightarrow> ('w, unit) pr" where
  "consume E cqe = thenM (handle_cqe E (py_cqe cqe)) (ring_call (io_uring_cqe_seen E cqe))"

partial_function (option) wait_loop ::
  "'w env \<Rightarrow> 'w proactor \<Rightarrow> ((exn + c_cqe) \<times> 'w proactor) option" where
  "wait_loop E s =
     (case ring_call (io_uring_wait_cqe E) s of
        None \<Rightarrow> None
      | Some (r, s1) \<Rightarrow> (case r of
          Inl e \<Rightarrow> if e = OSError EINTR then wait_loop E s1 else Some (Inl e, s1)
        | Inr cqe \<Rightarrow> Some (Inr cqe, s1)))"

partial_function (option) peek_loop ::
  "'w env \<Rightarrow> 'w proactor \<Rightarrow> ((exn + unit) \<times> 'w proactor) option" where
  "peek_loop E s =
     (case ring_call (io_uring_peek_cqe E) s of
        None \<Rightarrow> None
      | Some (r, s1) \<Rightarrow> (case r of
          Inl e \<Rightarrow> if e = OSError EAGAIN then Some (Inr (), s1) else Some (Inl e, s1)
        | Inr cqe \<Rightarrow> (case consume E cqe s1 of
            None \<Rightarrow> None
          | Some (r2, s2) \<Rightarrow> (case r2 of
              Inl e \<Rightarrow> Some (Inl e, s2)
            | Inr _ \<Rightarrow> peek_loop E s2))))"

text \<open>
  The timeout is the exact value of the Python float; the product with \<open>1e9\<close> is not rounded.
\<close>

definition timeout_seconds :: "rat \<Rightarrow> int" where
  "timeout_seconds t = \<lfloor>t\<rfloor>"

definition timeout_nanoseconds :: "rat \<Rightarrow> int" where
  "timeout_nanoseconds t = \<lfloor>(t - of_int (timeout_seconds t)) * 1000000000\<rfloor>"

definition wait_timeout :: "'w env \<Rightarrow> rat \<Rightarrow> ('w, c_cqe option) pr" where
  "wait_timeout E t =
     bindM (liftW (new_kernel_timespec (timeout_seconds t) (timeout_nanoseconds t))) (\<lambda>ts.
       catchM (bindM (ring_call (io_uring_wait_cqe_timeout E ts)) (\<lambda>cqe. ret (Some cqe)))
         (\<lambda>e. if e = OSError ETIME \<or> e = OSError EINTR then ret None else raise e))"

definition poll :: "'w env \<Rightarrow> rat option \<Rightarrow> ('w, unit) pr" where
  "poll E timeout =
     thenM (flush E)
       (case timeout of
          None \<Rightarrow> bindM (wait_loop E) (\<lambda>cqe. thenM (consume E cqe) (peek_loop E))
        | Some t \<Rightarrow>
            if t > 0 then
              bindM (wait_timeout E t) (\<lambda>c. case c of
                None \<Rightarrow> ret ()
              | Some cqe \<Rightarrow> thenM (consume E cqe) (peek_loop E))
            else peek_loop E)"

definition select :: "'w env \<Rightarrow> rat option \<Rightarrow> ('w, nat list) pr" where
  "select E timeout =
     thenM (readM (\<lambda>s. whenM (results s = []) (poll E timeout)))
       (actM (\<lambda>s. (results s, s\<lparr>results := []\<rparr>)))"

section \<open>Stopping and closing\<close>

definition stop_entry :: "'w env \<Rightarrow> PendingCompletion \<Rightarrow> ('w, unit) pr" where
  "stop_entry E pending = readM (\<lambda>s.
     case pc_future pending of
       None \<Rightarrow> ret ()
     | Some f \<Rightarrow>
         whenM (is_stopped s (get_file_obj (ops s (pc_operation pending))) \<and> \<not> fut_done (futs s f))
           (bindM (fut_cancel E f) (\<lambda>_. ret ())))"

definition stop_serving :: "'w env \<Rightarrow> fileobj \<Rightarrow> ('w, unit) pr" where
  "stop_serving E obj =
     thenM (case obj of
              FdInt n \<Rightarrow> raise (TypeError ''cannot create weak reference to int object'')
            | _ \<Rightarrow> modM (\<lambda>s. s\<lparr>stopped_serving := insert obj (stopped_serving s)\<rparr>))
       (bindM (getM (\<lambda>s. map snd (cache s))) (\<lambda>ps. forM ps (stop_entry E)))"

definition close_entry :: "'w env \<Rightarrow> PendingCompletion \<Rightarrow> ('w, unit) pr" where
  "close_entry E pending =
     (case pc_future pending of
        None \<Rightarrow> ret ()
      | Some f \<Rightarrow>
          catchM (bindM (fut_cancel E f) (\<lambda>_. ret ()))
            (\<lambda>e. if is_OSError e
                 then readM (\<lambda>s. whenM (loop s \<noteq> None) (log_handler (CloseCancelFailed e f)))
                 else raise e))"

partial_function (option) close_loop ::
  "'w env \<Rightarrow> 'w proactor \<Rightarrow> ((exn + unit) \<times> 'w proactor) option" where
  "close_loop E s =
     (if cache s = [] then Some (Inr (), s)
      else case poll E (Some 1) s of
          None \<Rightarrow> None
        | Some (r, s1) \<Rightarrow> (case r of
            Inl e \<Rightarrow> Some (Inl e, s1)
          | Inr _ \<Rightarrow> close_loop E s1))"

definition close :: "'w env \<Rightarrow> ('w, unit) pr" where
  "close E = readM (\<lambda>s.
     if \<not> iouring s then ret ()
     else thenM (forM (map snd (cache s)) (close_entry E))
       (thenM (close_loop E)
         (thenM (ring_call (io_uring_queue_exit E))
           (modM (\<lambda>s. s\<lparr>results := [], iouring := False\<rparr>)))))"

text \<open>\<open>__del__\<close>.\<close>

definition del_proactor :: "'w env \<Rightarrow> ('w, unit) pr" where
  "del_proactor E = close E"

section \<open>The contract of the polling loops\<close>

text \<open>
  What every poll keeps, from what its parts keep: a completion that a ring call returns is \<open>ready\<close>,
  and only a ready one is handled.
\<close>

locale poller = step_relation R for R :: "'w proactor \<Rightarrow> 'w proactor \<Rightarrow> bool" +
  fixes E :: "'w env" and ready :: "c_cqe \<Rightarrow> 'w proactor \<Rightarrow> bool"
  assumes on_flush: "keeps R (flush E)"
    and on_wait: "wp True (ring_call (io_uring_wait_cqe E)) s (\<lambda>c t. R s t \<and> ready c t) (\<lambda>_. R s)"
    and on_peek: "wp True (ring_call (io_uring_peek_cqe E)) s (\<lambda>c t. R s t \<and> ready c t) (\<lambda>_. R s)"
    and on_timeout: "wp True (ring_call (io_uring_wait_cqe_timeout E ts)) s (\<lambda>c t. R s t \<and> ready c t) (\<lambda>_. R s)"
    and on_consume: "ready c s \<Longrightarrow> wp True (consume E c) s (\<lambda>_. R s) (\<lambda>_. R s)"
    and on_clear: "R s (s\<lparr>results := []\<rparr>)"
begin

lemma wp_wait_loop: "wp True (wait_loop E) s (\<lambda>c t. R s t \<and> ready c t) (\<lambda>_. R s)"
proof -
  have "R s (snd y) \<and> (\<forall>c. fst y = Inr c \<longrightarrow> ready c (snd y))" if run: "wait_loop E s = Some y" for y
  proof (rule wait_loop.raw_induct [where P = "\<lambda>E' s y. E' = E \<longrightarrow>
      R s (snd y) \<and> (\<forall>c. fst y = Inr c \<longrightarrow> ready c (snd y))", OF _ run, rule_format], goal_cases)
    case (1 f E' s y)
    have w: "ring_call (io_uring_wait_cqe E) s = Some (r, t) \<Longrightarrow> R s t \<and> (\<forall>c. r = Inr c \<longrightarrow> ready c t)" for r t
      using on_wait [of s] by (cases r) (auto simp: wp_def)
    show ?case
      using 1 w by (cases y) (auto split: option.splits sum.splits if_splits, metis step_trans)
  qed simp
  then show ?thesis by (intro wpI) auto
qed

lemma keeps_peek_loop: "keeps R (peek_loop E)"
proof (rule keepsI)
  fix s r t assume run: "peek_loop E s = Some (r, t)"
  have "R s (snd (r, t))"
  proof (rule peek_loop.raw_induct [where P = "\<lambda>E' s y. E' = E \<longrightarrow> R s (snd y)", OF _ run, rule_format], goal_cases)
    case (1 f E' s y)
    have p: "ring_call (io_uring_peek_cqe E) s = Some (r, t) \<Longrightarrow> R s t \<and> (\<forall>c. r = Inr c \<longrightarrow> ready c t)" for r t
      using on_peek [of s] by (cases r) (auto simp: wp_def)
    note run = "1"(2) [unfolded "1"(3)]
    show ?case
    proof (cases "\<exists>c t r u. ring_call (io_uring_peek_cqe E) s = Some (Inr c, t) \<and> consume E c t = Some (r, u)")
      case True
      then obtain c t r u where e: "ring_call (io_uring_peek_cqe E) s = Some (Inr c, t)" "consume E c t = Some (r, u)"
        by blast
      have "ready c t" and "R s t" using p [OF e(1)] by simp_all
      then have u: "R s u" using wp_outcome [OF on_consume e(2)] by (auto intro: step_trans)
      show ?thesis
      proof (cases r)
        case (Inl e')
        then show ?thesis using u run e by auto
      next
        case (Inr x)
        then have "f E u = Some y" using run e by simp
        then show ?thesis using "1"(1) step_trans [OF u] by simp
      qed
    next
      case False
      then show ?thesis using run p by (auto split: option.splits sum.splits if_splits)
    qed
  qed simp
  then show "R s t" by simp
qed

lemma wp_after: "R s t \<Longrightarrow> wp nt m t (\<lambda>_. R t) (\<lambda>_. R t) \<Longrightarrow> wp nt m t (\<lambda>_. R s) (\<lambda>_. R s)"
  by (erule wp_mono) (auto intro: step_trans)

lemma keeps_drain: "R s t \<Longrightarrow> ready c t \<Longrightarrow> wp True (thenM (consume E c) (peek_loop E)) t (\<lambda>_. R s) (\<lambda>_. R s)"
proof (rule wp_after)
  assume "ready c t"
  then show "wp True (thenM (consume E c) (peek_loop E)) t (\<lambda>_. R t) (\<lambda>_. R t)"
    using keeps_peek_loop unfolding wp_thenM keeps_wp
    by (intro wp_mono [OF on_consume]) (auto intro: wp_after)
qed

lemma keeps_poll: "keeps R (poll E timeout)"
proof -
  have "wp True (case timeout of
      None \<Rightarrow> bindM (wait_loop E) (\<lambda>cqe. thenM (consume E cqe) (peek_loop E))
    | Some t \<Rightarrow> if t > 0 then bindM (wait_timeout E t) (\<lambda>c. case c of
          None \<Rightarrow> ret () | Some cqe \<Rightarrow> thenM (consume E cqe) (peek_loop E)) else peek_loop E) s
      (\<lambda>_. R s) (\<lambda>_. R s)" for s
    using keeps_peek_loop
    by (auto simp: wait_timeout_def new_kernel_timespec_def wp_bindM wp_catchM wp_liftW wp_ofE wp_if wp_ret wp_raise keeps_wp
      split: option.split sum.split intro: keeps_drain step_refl intro!: wp_mono [OF wp_wait_loop] wp_mono [OF on_timeout])
  then show ?thesis
    unfolding poll_def by (intro keeps_thenM on_flush) (simp add: keeps_wp)
qed

lemma keeps_select: "keeps R (select E timeout)"
  unfolding select_def
  by (intro keeps_thenM keeps_readM keeps_whenM keeps_poll) (auto simp: keeps_def actM_def on_clear)

lemma keeps_close_loop: "keeps R (close_loop E)"
proof (rule keepsI)
  fix s r t assume run: "close_loop E s = Some (r, t)"
  have "R s (snd (r, t))"
  proof (rule close_loop.raw_induct [where P = "\<lambda>E' s y. E' = E \<longrightarrow> R s (snd y)", OF _ run, rule_format], goal_cases)
    case (1 f E' s y)
    then show ?case
      by (auto split: option.splits sum.splits if_splits dest!: keepsD [OF keeps_poll] intro: step_refl)
        (metis snd_conv surj_pair step_trans)
  qed simp
  then show "R s t" by simp
qed

end

end
