(* ===== verification/Uring_Invariant.thy ===== *)
theory Uring_Invariant
  imports Uring_Poll
begin

text \<open>
  The invariant of \<open>IoUringProactor\<close>, and that every starting method keeps it: the cache, the
  operations and the futures refer to each other consistently, \<open>user_data\<close> values are never
  reused, and a future that is done never changes again.
\<close>

section \<open>The invariant\<close>

definition evolves :: "'w proactor \<Rightarrow> 'w proactor \<Rightarrow> bool" where
  "evolves s t \<longleftrightarrow>
     user_data_counter s \<le> user_data_counter t \<and> next_op s \<le> next_op t \<and> next_fut s \<le> next_fut t \<and>
     (\<forall>f < next_fut s. fut_operation (futs t f) = fut_operation (futs s f) \<and>
        (fut_done (futs s f) \<longrightarrow> futs t f = futs s f)) \<and>
     (\<forall>r < next_op s. op_tags (ops t r) = op_tags (ops s r) \<and> op_seen (ops s r) \<subseteq> op_seen (ops t r) \<and>
        get_file_obj (ops t r) = get_file_obj (ops s r))"

lemma evolves_counters:
  "evolves s t \<Longrightarrow> user_data_counter s \<le> user_data_counter t \<and> next_op s \<le> next_op t \<and> next_fut s \<le> next_fut t"
  by (simp add: evolves_def)

lemma evolves_fut:
  "evolves s t \<Longrightarrow> f < next_fut s \<Longrightarrow> f < next_fut t \<and>
     fut_operation (futs t f) = fut_operation (futs s f) \<and> (fut_done (futs s f) \<longrightarrow> futs t f = futs s f)"
  by (simp add: evolves_def)

lemma evolves_op:
  "evolves s t \<Longrightarrow> r < next_op s \<Longrightarrow> r < next_op t \<and> op_tags (ops t r) = op_tags (ops s r) \<and>
     op_seen (ops s r) \<subseteq> op_seen (ops t r) \<and> get_file_obj (ops t r) = get_file_obj (ops s r)"
  by (simp add: evolves_def)

lemma evolves_refl: "evolves s s"
  by (simp add: evolves_def)

lemma evolves_trans:
  assumes st: "evolves s t" and tu: "evolves t u"
  shows "evolves s u"
  unfolding evolves_def
proof (intro conjI allI impI)
  fix f assume f: "f < next_fut s"
  note a = evolves_fut [OF st f]
  note b = evolves_fut [OF tu, of f]
  show "fut_operation (futs u f) = fut_operation (futs s f)" using a b by simp
  show "futs u f = futs s f" if "fut_done (futs s f)" using a b that by simp
next
  fix r assume r: "r < next_op s"
  note a = evolves_op [OF st r]
  note b = evolves_op [OF tu, of r]
  show "op_tags (ops u r) = op_tags (ops s r)" using a b by simp
  show "op_seen (ops s r) \<subseteq> op_seen (ops u r)" using a b by blast
  show "get_file_obj (ops u r) = get_file_obj (ops s r)" using a b by simp
qed (use evolves_counters [OF st] evolves_counters [OF tu] in simp_all)

definition entry_static :: "'w proactor \<Rightarrow> int \<Rightarrow> PendingCompletion \<Rightarrow> bool" where
  "entry_static s ud p \<longleftrightarrow> 1 \<le> ud \<and> ud < user_data_counter s \<and> pc_operation p < next_op s \<and>
     (\<forall>f. pc_future p = Some f \<longrightarrow> f < next_fut s \<and>
        fut_operation (futs s f) = pc_operation p \<and> ud \<in> op_tags (ops s (pc_operation p)))"

definition entry_live :: "'w proactor \<Rightarrow> int \<Rightarrow> PendingCompletion \<Rightarrow> bool" where
  "entry_live s ud p \<longleftrightarrow> (\<forall>f. pc_future p = Some f \<longrightarrow>
     ud \<notin> op_seen (ops s (pc_operation p)) \<and>
     (\<forall>u \<in> op_tags (ops s (pc_operation p)) - op_seen (ops s (pc_operation p)).
        \<exists>p'. (u, p') \<in> set (cache s) \<and> pc_future p' = Some f))"

lemma entry_static_mono: "evolves s t \<Longrightarrow> entry_static s ud p \<Longrightarrow> entry_static t ud p"
  unfolding entry_static_def using evolves_counters [of s t] evolves_fut [of s t] evolves_op [of s t]
  by auto

definition futs_ok :: "'w proactor \<Rightarrow> bool" where
  "futs_ok s \<longleftrightarrow> (\<forall>f < next_fut s. fut_operation (futs s f) < next_op s)"

definition ops_ok :: "'w proactor \<Rightarrow> bool" where
  "ops_ok s \<longleftrightarrow> 1 \<le> user_data_counter s \<and> (\<forall>r < next_op s. op_wf (ops s r) \<and>
     (\<forall>u \<in> op_tags (ops s r). 1 \<le> u \<and> u < user_data_counter s))"

definition results_ok :: "'w proactor \<Rightarrow> bool" where
  "results_ok s \<longleftrightarrow> distinct (results s) \<and> (\<forall>f \<in> set (results s). f < next_fut s \<and> fut_done (futs s f))"

lemma results_ok_mono: "evolves s t \<Longrightarrow> results_ok s \<Longrightarrow> results t = results s \<Longrightarrow> results_ok t"
  unfolding results_ok_def using evolves_fut [of s t] by auto

definition cache_ok :: "'w proactor \<Rightarrow> bool" where
  "cache_ok s \<longleftrightarrow> distinct (map fst (cache s)) \<and>
     (\<forall>(ud, p) \<in> set (cache s). entry_static s ud p \<and> entry_live s ud p)"

definition proactor_inv :: "'w proactor \<Rightarrow> bool" where
  "proactor_inv s \<longleftrightarrow> unsubmitted s = [] \<and> cache_ok s \<and> futs_ok s \<and> ops_ok s \<and> results_ok s"

lemmas inv_defs = proactor_inv_def cache_ok_def futs_ok_def ops_ok_def results_ok_def
  entry_static_def entry_live_def

text \<open>
  What every method keeps, as long as the counter stays in the range of the 64-bit
  \<open>user_data\<close> field; the starting and cancelling ones only ever add entries at the end of the
  cache.
\<close>

definition sound_step :: "'w proactor \<Rightarrow> 'w proactor \<Rightarrow> bool" where
  "sound_step s t \<longleftrightarrow> user_data_counter s \<le> user_data_counter t \<and>
     (proactor_inv s \<and> user_data_counter t \<le> 2 ^ 64 \<longrightarrow> proactor_inv t \<and> evolves s t)"

definition grows :: "'w proactor \<Rightarrow> 'w proactor \<Rightarrow> bool" where
  "grows s t \<longleftrightarrow> evolves s t \<and> (\<exists>new. cache t = cache s @ new)"

definition grow_step :: "'w proactor \<Rightarrow> 'w proactor \<Rightarrow> bool" where
  "grow_step s t \<longleftrightarrow> user_data_counter s \<le> user_data_counter t \<and>
     (proactor_inv s \<and> user_data_counter t \<le> 2 ^ 64 \<longrightarrow> proactor_inv t \<and> grows s t)"

lemma grows_refl: "grows s s"
  by (simp add: grows_def evolves_refl)

lemma grows_trans: "grows s t \<Longrightarrow> grows t u \<Longrightarrow> grows s u"
  unfolding grows_def using evolves_trans [of s t u] by auto

lemma grow_stepI: "user_data_counter s \<le> user_data_counter t \<Longrightarrow>
    (proactor_inv s \<Longrightarrow> proactor_inv t \<and> grows s t) \<Longrightarrow> grow_step s t"
  by (simp add: grow_step_def)

lemma grow_sound: "grow_step s t \<Longrightarrow> sound_step s t"
  by (simp add: grow_step_def sound_step_def grows_def)

interpretation sound: step_relation sound_step
proof
  fix s :: "'a proactor"
  show "sound_step s s" by (simp add: sound_step_def evolves_refl)
next
  fix s t u :: "'a proactor"
  assume "sound_step s t" "sound_step t u"
  then show "sound_step s u" using evolves_trans [of s t u] unfolding sound_step_def by auto
qed

interpretation growing: step_relation grow_step
proof
  fix s :: "'a proactor"
  show "grow_step s s" by (simp add: grow_step_def grows_refl)
next
  fix s t u :: "'a proactor"
  assume "grow_step s t" "grow_step t u"
  then show "grow_step s u" using grows_trans [of s t u] unfolding grow_step_def by auto
qed

lemma inv_frame:
  "proactor_inv (s\<lparr>world := w\<rparr>) = proactor_inv s"
  "proactor_inv (s\<lparr>pending_submit := b\<rparr>) = proactor_inv s"
  "proactor_inv (s\<lparr>handler_log := l\<rparr>) = proactor_inv s"
  "proactor_inv (s\<lparr>iouring := b\<rparr>) = proactor_inv s"
  "proactor_inv (s\<lparr>stopped_serving := S\<rparr>) = proactor_inv s"
  "proactor_inv (s\<lparr>loop := d\<rparr>) = proactor_inv s"
  by (simp_all add: inv_defs)

lemma evolves_frame:
  "evolves s (t\<lparr>world := w\<rparr>) = evolves s t"
  "evolves s (t\<lparr>pending_submit := b\<rparr>) = evolves s t"
  "evolves s (t\<lparr>handler_log := l\<rparr>) = evolves s t"
  "evolves s (t\<lparr>iouring := b\<rparr>) = evolves s t"
  "evolves s (t\<lparr>stopped_serving := S\<rparr>) = evolves s t"
  "evolves s (t\<lparr>loop := d\<rparr>) = evolves s t"
  "evolves s (t\<lparr>cache := c\<rparr>) = evolves s t"
  "evolves s (t\<lparr>unsubmitted := us\<rparr>) = evolves s t"
  "evolves s (t\<lparr>results := rs\<rparr>) = evolves s t"
  by (simp_all add: evolves_def)

lemma sub_frame_grow: "sub_frame s t \<Longrightarrow> grow_step s t"
  by (auto simp: sub_frame_def grow_step_def grows_def inv_frame evolves_frame evolves_refl)

lemma keeps_liftW: "keeps grow_step (liftW m)"
  by (auto simp: keeps_def liftW_def zoomM_def grow_step_def grows_def inv_frame evolves_frame evolves_refl
    split: option.splits)

section \<open>Starting\<close>

definition started ::
  "'w env \<Rightarrow> BaseOperation \<Rightarrow> int \<Rightarrow> 'w proactor \<Rightarrow> 'w proactor \<Rightarrow> bool" where
  "started E op ud s t \<longleftrightarrow> (\<exists>w0 w r. entry_filled E ud 0 r w0 w \<and>
     t = s\<lparr>ops := (ops s)(next_op s := op), next_op := Suc (next_op s),
       futs := (futs s)(next_fut s := \<lparr>fut_state = Pending, fut_operation = next_op s\<rparr>),
       next_fut := Suc (next_fut s), world := w,
       cache := register (next_op s) (Some (next_fut s)) (unsubmitted s @ [(ud, r)]) (cache s),
       unsubmitted := [], pending_submit := True\<rparr>)"

definition not_started :: "BaseOperation \<Rightarrow> 'w proactor \<Rightarrow> 'w proactor \<Rightarrow> bool" where
  "not_started op s t \<longleftrightarrow> (\<exists>w b. (b \<longrightarrow> pending_submit s) \<and>
     t = s\<lparr>ops := (ops s)(next_op s := op), next_op := Suc (next_op s),
       futs := (futs s)(next_fut s := \<lparr>fut_state = Pending, fut_operation = next_op s\<rparr>),
       next_fut := Suc (next_fut s), world := w, pending_submit := b\<rparr>)"

lemma wp_start:
  assumes m: "submit_method E m"
  shows "wp True (start op m ud) s (\<lambda>f t. f = next_fut s \<and> started E op ud s t)
    (\<lambda>_. not_started op s)"
proof -
  let ?s1 = "s\<lparr>ops := (ops s)(next_op s := op), next_op := Suc (next_op s),
    futs := (futs s)(next_fut s := \<lparr>fut_state = Pending, fut_operation = next_op s\<rparr>),
    next_fut := Suc (next_fut s)\<rparr>"
  have ok: "started E op ud s (t\<lparr>cache := register (next_op s) (Some (next_fut s)) (unsubmitted t) (cache t),
      unsubmitted := [], pending_submit := True\<rparr>)" if p: "prepared E ud 0 ?s1 t" for t
  proof -
    from p obtain w0 w b r where e: "entry_filled E ud 0 r w0 w"
        and t: "t = ?s1\<lparr>world := w, pending_submit := b, unsubmitted := unsubmitted s @ [(ud, r)]\<rparr>"
      unfolding prepared_def by auto
    show ?thesis
      unfolding started_def by (intro exI [of _ w0] exI [of _ w] exI [of _ r]) (simp add: e t)
  qed
  have bad: "not_started op s t" if "sub_frame ?s1 t" for t
    using that unfolding sub_frame_def not_started_def by auto
  show ?thesis
    unfolding start_def
    by (simp add: wp_rules new_op_def new_future_def submit_def)
      (rule wp_mono [OF submit_method.method_runs [OF m]], simp_all add: ok bad)
qed

lemma cache_okD:
  "cache_ok s \<Longrightarrow> (ud, p) \<in> set (cache s) \<Longrightarrow> entry_static s ud p \<and> entry_live s ud p"
  by (auto simp: cache_ok_def)

lemma inv_fresh: "proactor_inv s \<Longrightarrow> user_data_counter s \<le> ud \<Longrightarrow> ud \<notin> dict_keys (cache s)"
  by (auto simp: proactor_inv_def entry_static_def dest!: cache_okD)

text \<open>The entries survive a step that keeps them and what their operations have seen.\<close>

lemma entry_keep:
  assumes e: "evolves s t" and c: "cache_ok s" and p: "(ud, p) \<in> set (cache s)"
    and sub: "set (cache s) \<subseteq> set (cache t)"
    and seen: "op_seen (ops t (pc_operation p)) = op_seen (ops s (pc_operation p))"
  shows "entry_static t ud p \<and> entry_live t ud p"
proof -
  from cache_okD [OF c p] have st: "entry_static s ud p" and li: "entry_live s ud p" by auto
  from st have "pc_operation p < next_op s" by (simp add: entry_static_def)
  note o = evolves_op [OF e this]
  have "entry_live t ud p"
    unfolding entry_live_def seen
  proof (intro allI impI)
    fix f assume f: "pc_future p = Some f"
    with li have "ud \<notin> op_seen (ops s (pc_operation p))"
      and "\<forall>u\<in>op_tags (ops s (pc_operation p)) - op_seen (ops s (pc_operation p)).
        \<exists>p'. (u, p') \<in> set (cache s) \<and> pc_future p' = Some f"
      by (auto simp: entry_live_def)
    then show "ud \<notin> op_seen (ops s (pc_operation p)) \<and>
      (\<forall>u\<in>op_tags (ops t (pc_operation p)) - op_seen (ops s (pc_operation p)).
        \<exists>p'. (u, p') \<in> set (cache t) \<and> pc_future p' = Some f)"
      using o sub by fastforce
  qed
  then show ?thesis using entry_static_mono [OF e st] by simp
qed

lemma cache_ok_append:
  assumes e: "evolves s t" and c: "cache_ok s" and t: "cache t = cache s @ new"
    and d: "distinct (map fst (cache t))"
    and seen: "\<And>ud p. (ud, p) \<in> set (cache s) \<Longrightarrow>
      op_seen (ops t (pc_operation p)) = op_seen (ops s (pc_operation p))"
    and new: "\<And>ud p. (ud, p) \<in> set new \<Longrightarrow> entry_static t ud p \<and> entry_live t ud p"
  shows "cache_ok t"
  unfolding cache_ok_def
proof (intro conjI ballI)
  show "distinct (map fst (cache t))" by (rule d)
  fix x assume "x \<in> set (cache t)"
  then have m: "x \<in> set (cache s) \<or> x \<in> set new" using t by simp
  obtain ud p where x: "x = (ud, p)" by (cases x)
  have "entry_static t ud p \<and> entry_live t ud p" if "(ud, p) \<in> set (cache s)"
    using entry_keep [OF e c that] t seen [OF that] by simp
  then show "case x of (ud, p) \<Rightarrow> entry_static t ud p \<and> entry_live t ud p"
    using x m new by auto
qed

lemma entry_op_old: "cache_ok s \<Longrightarrow> (ud, p) \<in> set (cache s) \<Longrightarrow> pc_operation p < next_op s"
  by (auto simp: entry_static_def dest: cache_okD)

text \<open>
  The effect all starting operations share: a new operation with fresh \<open>user_data\<close>, a new
  pending future, and either no new cache entry or one for each \<open>user_data\<close> of the operation.
\<close>

definition extended :: "'w proactor \<Rightarrow> BaseOperation \<Rightarrow> (int \<times> PendingCompletion) list \<Rightarrow>
    'w proactor \<Rightarrow> bool" where
  "extended s op new t \<longleftrightarrow>
     ops t = (ops s)(next_op s := op) \<and> next_op t = Suc (next_op s) \<and>
     futs t = (futs s)(next_fut s := \<lparr>fut_state = Pending, fut_operation = next_op s\<rparr>) \<and>
     next_fut t = Suc (next_fut s) \<and> user_data_counter s \<le> user_data_counter t \<and>
     unsubmitted t = [] \<and> results t = results s \<and> cache t = cache s @ new"

lemma extended_inv:
  assumes inv: "proactor_inv s" and x: "extended s op new t"
    and op: "op_wf op" "op_seen op = {}"
      "\<And>u. u \<in> op_tags op \<Longrightarrow> user_data_counter s \<le> u \<and> u < user_data_counter t"
    and new: "distinct (map fst new)" "new = [] \<or> fst ` set new = op_tags op"
      "\<And>u p. (u, p) \<in> set new \<Longrightarrow> pc_operation p = next_op s \<and> pc_future p = Some (next_fut s)"
  shows "proactor_inv t \<and> grows s t"
proof
  have e: "evolves s t"
    using x unfolding extended_def evolves_def by auto
  then show "grows s t" using x by (simp add: grows_def extended_def)
  from inv have c: "cache_ok s" by (simp add: proactor_inv_def)
  have n: "cache t = cache s @ new" "next_op t = Suc (next_op s)" "next_fut t = Suc (next_fut s)"
      "ops t (next_op s) = op" "fut_operation (futs t (next_fut s)) = next_op s"
      "user_data_counter s \<le> user_data_counter t"
    and o: "\<And>r. r < next_op s \<Longrightarrow> ops t r = ops s r"
    using x unfolding extended_def by auto
  have pos: "1 \<le> user_data_counter s"
    and old: "\<And>r u. r < next_op s \<Longrightarrow> op_wf (ops s r) \<and>
      (u \<in> op_tags (ops s r) \<longrightarrow> 1 \<le> u \<and> u < user_data_counter s)"
    using inv by (auto simp: proactor_inv_def ops_ok_def)
  have fresh: "u \<notin> dict_keys (cache s)" if "u \<in> fst ` set new" for u
    using that new(2) op(3) inv_fresh [OF inv, of u] by auto
  have d: "distinct (map fst (cache t))"
    using c fresh new(1) unfolding n(1) by (auto simp: cache_ok_def)
  have "entry_static t u p \<and> entry_live t u p" if up: "(u, p) \<in> set new" for u p
  proof -
    have u: "u \<in> op_tags op" and p: "pc_operation p = next_op s" "pc_future p = Some (next_fut s)"
      using up new by force+
    have "entry_static t u p"
      using op(3) [OF u] u pos p n by (simp add: entry_static_def)
    moreover have "\<exists>p'. (v, p') \<in> set new \<and> pc_future p' = Some (next_fut s)" if "v \<in> op_tags op" for v
      using that up new(2,3) by fastforce
    then have "entry_live t u p"
      using op(2) p n unfolding entry_live_def by fastforce
    ultimately show ?thesis by simp
  qed
  then have "cache_ok t"
    using o entry_op_old [OF c] by (intro cache_ok_append [OF e c n(1) d]) auto
  moreover have "futs_ok t"
    using inv x unfolding proactor_inv_def futs_ok_def extended_def by (auto simp: less_Suc_eq)
  moreover have "ops_ok t"
    unfolding ops_ok_def
  proof (intro conjI allI impI)
    show "1 \<le> user_data_counter t" using pos n by simp
    fix r assume r: "r < next_op t"
    show "op_wf (ops t r)" using r n o old op by (auto simp: less_Suc_eq)
    show "\<forall>u\<in>op_tags (ops t r). 1 \<le> u \<and> u < user_data_counter t"
    proof (cases "r = next_op s")
      case True
      then show ?thesis using n pos op(3) by fastforce
    next
      case False
      then have "r < next_op s" using r n by simp
      then show ?thesis using old o n by fastforce
    qed
  qed
  ultimately show "proactor_inv t"
    using inv x results_ok_mono [OF e] by (simp add: proactor_inv_def extended_def)
qed

lemma not_started_extended:
  "not_started op (s\<lparr>user_data_counter := c\<rparr>) t \<Longrightarrow> unsubmitted s = [] \<Longrightarrow> user_data_counter s \<le> c \<Longrightarrow>
     extended s op [] t \<and> user_data_counter t = c"
  by (auto simp: not_started_def extended_def)

lemma started_extended:
  assumes "started E op ud (s\<lparr>user_data_counter := c\<rparr>) t" and "unsubmitted s = []"
    and "user_data_counter s \<le> c" and "ud \<notin> dict_keys (cache s)"
  shows "\<exists>r. extended s op [(ud, \<lparr>pc_operation = next_op s, pc_future = Some (next_fut s), pc_request = r\<rparr>)] t \<and>
           user_data_counter t = c"
  using assms update_fresh [OF assms(4)] by (auto simp: started_def extended_def)

lemma keeps_begin:
  assumes m: "\<And>ud. submit_method E (m ud)"
    and op: "\<And>ud. op_tags (op ud) = {ud} \<and> op_seen (op ud) = {} \<and> op_wf (op ud)"
  shows "keeps grow_step (bindM next_user_data (\<lambda>ud. start (op ud) (m ud) ud))"
  unfolding keeps_wp
proof
  fix s :: "'a proactor"
  let ?c = "user_data_counter s" and ?s1 = "s\<lparr>user_data_counter := user_data_counter s + 1\<rparr>"
  have "grow_step s t" if t: "started E (op ?c) ?c ?s1 t" for t
  proof (rule grow_stepI)
    show "user_data_counter s \<le> user_data_counter t" using t by (auto simp: started_def)
    assume inv: "proactor_inv s"
    then obtain r where x: "extended s (op ?c)
        [(?c, \<lparr>pc_operation = next_op s, pc_future = Some (next_fut s), pc_request = r\<rparr>)] t"
        and c: "user_data_counter t = ?c + 1"
      using started_extended [OF t] inv_fresh [OF inv order_refl] by (auto simp: proactor_inv_def)
    show "proactor_inv t \<and> grows s t"
      by (rule extended_inv [OF inv x]) (use op [of ?c] c in auto)
  qed
  moreover have "grow_step s t" if t: "not_started (op ?c) ?s1 t" for t
  proof (rule grow_stepI)
    show "user_data_counter s \<le> user_data_counter t" using t by (auto simp: not_started_def)
    assume inv: "proactor_inv s"
    then have x: "extended s (op ?c) [] t" and c: "user_data_counter t = ?c + 1"
      using not_started_extended [OF t] by (auto simp: proactor_inv_def)
    show "proactor_inv t \<and> grows s t"
      by (rule extended_inv [OF inv x]) (use op [of ?c] c in auto)
  qed
  ultimately have "wp True (start (op ?c) (m ?c) ?c) ?s1 (\<lambda>_. grow_step s) (\<lambda>_. grow_step s)"
    by (auto intro!: wp_mono [OF wp_start [OF m]])
  then show "wp True (bindM next_user_data (\<lambda>ud. start (op ud) (m ud) ud)) s
      (\<lambda>_. grow_step s) (\<lambda>_. grow_step s)"
    by (simp add: wp_rules next_user_data_def)
qed

lemmas submit_methods =
  recv_method.submit_method_axioms read_method.submit_method_axioms
  recvfrom_method.submit_method_axioms sendto_method.submit_method_axioms
  send_method.submit_method_axioms write_method.submit_method_axioms
  accept_method.submit_method_axioms connect_method.submit_method_axioms
  splice_method.submit_method_axioms cancel_method.submit_method_axioms
  poll_add_method.submit_method_axioms

lemma keeps_bytearray: "keeps grow_step (bytearray E n)"
  by (simp add: bytearray_def growing.keeps_rules keeps_liftW)

lemmas keeps_begins = growing.keeps_rules keeps_liftW keeps_bytearray keeps_begin submit_methods

lemma keeps_recv: "keeps grow_step (recv E conn n flags)"
  by (cases conn) (auto simp: recv_def op_defs intro!: keeps_begins)

lemma keeps_recv_into: "keeps grow_step (recv_into E conn buf flags)"
  by (cases conn) (auto simp: recv_into_def op_defs intro!: keeps_begins)

lemma keeps_recvfrom: "keeps grow_step (recvfrom E conn n flags)"
  by (auto simp: recvfrom_def op_defs intro!: keeps_begins)

lemma keeps_recvfrom_into: "keeps grow_step (recvfrom_into E conn buf flags)"
  by (auto simp: recvfrom_into_def op_defs intro!: keeps_begins)

lemma keeps_sendto: "keeps grow_step (sendto E conn buf flags addr)"
  by (auto simp: sendto_def op_defs intro!: keeps_begins)

lemma keeps_send: "keeps grow_step (send E conn buf flags)"
  by (cases conn) (auto simp: send_def op_defs intro!: keeps_begins)

lemma keeps_accept: "keeps grow_step (accept E listener)"
  by (auto simp: accept_def op_defs intro!: keeps_begins)

lemma keeps_connect: "keeps grow_step (connect E conn address)"
  by (auto simp: connect_def op_defs intro!: keeps_begins)

lemma keeps_poll_add: "keeps grow_step (poll_add E file events)"
  by (auto simp: poll_add_def op_defs intro!: keeps_begins)

section \<open>Sendfile\<close>

text \<open>
  The second splice of a pair cannot fail where the first succeeded: its descriptors are a
  pipe end and a socket, its count was converted before, and its slot was reserved.
\<close>

lemma splice_count:
  assumes "sub_splice E req ud flags s = Some (Inr (), t)"
  shows "c_unsigned (spl_nbytes req) = Inr (spl_nbytes req)"
proof -
  have c: "c_unsigned x = Inr y \<Longrightarrow> y = x" for x y by (simp add: c_unsigned_def split: if_splits)
  from assms obtain q w r w' where "io_uring_prep_splice E req q w = Some (Inr r, w')"
    unfolding sub_splice_def prep_def
    by (auto simp: bindM_Inr_iff liftW_Inr_iff)
  then show ?thesis
    by (auto simp: io_uring_prep_splice_def bindM_Inr_iff ofE_def dest: c)
qed

lemma splice_request:
  assumes "sub_splice E req ud flags s = Some (Inr (), t)" and "unsubmitted t = unsubmitted s @ [(ud, r)]"
  shows "r = SpliceReq req"
proof -
  obtain r' where "asks (SpliceReq req) r'" "unsubmitted t = unsubmitted s @ [(ud, r')]"
    using wp_Inr [OF splice_method.method_request assms(1)] by blast
  then show ?thesis using assms(2) by (cases r) (auto simp: asks_def)
qed

lemma splice_runs:
  assumes laws: "sq_laws E n" and room: "0 < queue_room E s" and ud: "0 \<le> ud" "ud < 2 ^ 64"
    and count: "c_unsigned count = Inr count"
  shows "\<exists>w. sub_splice E \<lparr>spl_file_in = FdInt (sint (fd :: 32 word)), spl_off_in = - 1,
       spl_file_out = SockObj sock, spl_off_out = - 1, spl_nbytes = count, spl_splice_flags = 0\<rparr> ud 0 s
     = Some (Inr (), s\<lparr>world := w, unsubmitted := unsubmitted s @ [(ud, SpliceReq
         \<lparr>spl_file_in = FdInt (sint fd), spl_off_in = - 1, spl_file_out = SockObj sock, spl_off_out = - 1,
          spl_nbytes = count, spl_splice_flags = 0\<rparr>)]\<rparr>) \<and>
       e_sq_ready E w = Suc (e_sq_ready E (world s))"
proof -
  obtain q w where g: "get_sqe E s = Some (Inr q, s\<lparr>world := w\<rparr>)"
      and r: "e_sq_ready E w = Suc (e_sq_ready E (world s))"
    using get_sqe_room [OF laws room] by blast
  have u: "c_u64 ud = Inr ud" using ud by (simp add: c_u64_def)
  have z: "c_int64 (- 1) = Inr (- 1)" "c_unsigned 0 = Inr 0" by (simp_all add: c_int64_def c_unsigned_def)
  show ?thesis
    unfolding sub_splice_def prep_def bindM_run [where m = "get_sqe E", OF g]
    using r by (auto simp: bindM_def thenM_def liftW_def zoomM_def io_uring_prep_splice_def fd_of_def file_fileno_def
      sock_fileno_def call_prep_def io_uring_sqe_set_data64_def whenM_def ofE_def ret_def getM_def modM_def
      count u z sq_frame [OF laws])
qed

definition sendfile_op :: "SendfileOperation \<Rightarrow> 'w proactor \<Rightarrow> bool" where
  "sendfile_op op s \<longleftrightarrow> f2p_user_data op = user_data_counter s \<and>
     p2s_user_data op = user_data_counter s + 1 \<and> \<not> f2p_done op \<and> \<not> p2s_done op \<and> \<not> pipes_closed op"

definition sendfile_args :: "socket \<Rightarrow> fileobj \<Rightarrow> int \<Rightarrow> int \<Rightarrow> SendfileOperation \<Rightarrow> bool" where
  "sendfile_args sock file offset count op \<longleftrightarrow>
     sfop_sock op = sock \<and> sfop_file op = file \<and> sfop_offset op = offset \<and> sfop_count op = count"

text \<open>
  What \<open>sendfile\<close> does: on success both entries are in the queue, taken one after the other
  after the capacity check and not submitted in between, each registered with the splice it
  stands for; on failure nothing was registered.
\<close>

definition pair_entry :: "'w proactor \<Rightarrow> SpliceRequest \<Rightarrow> PendingCompletion" where
  "pair_entry s q = \<lparr>pc_operation = next_op s, pc_future = Some (next_fut s), pc_request = SpliceReq q\<rparr>"

definition linked_pair :: "'w env \<Rightarrow> (SendfileOperation \<Rightarrow> bool) \<Rightarrow> 'w proactor \<Rightarrow> 'w proactor \<Rightarrow> bool" where
  "linked_pair E A s t \<longleftrightarrow> (\<exists>s0 op w. sub_frame s s0 \<and> 2 \<le> queue_room E s0 \<and> sendfile_op op s \<and> A op \<and>
     e_sq_ready E w = e_sq_ready E (world s0) + 2 \<and>
     t = s\<lparr>user_data_counter := user_data_counter s + 2,
       ops := (ops s)(next_op s := SendfileOp op), next_op := Suc (next_op s),
       futs := (futs s)(next_fut s := \<lparr>fut_state = Pending, fut_operation = next_op s\<rparr>),
       next_fut := Suc (next_fut s), world := w,
       cache := register (next_op s) (Some (next_fut s))
         (unsubmitted s @ [(user_data_counter s, SpliceReq (f2p_request op)),
            (user_data_counter s + 1, SpliceReq (p2s_request op))]) (cache s),
       unsubmitted := [], pending_submit := True\<rparr>)"

definition no_pair :: "'w proactor \<Rightarrow> 'w proactor \<Rightarrow> bool" where
  "no_pair s t \<longleftrightarrow> sub_frame s t \<or> (\<exists>op. sendfile_op op s \<and>
     not_started (SendfileOp op) (s\<lparr>user_data_counter := user_data_counter s + 2\<rparr>) t)"

lemma sendfile_tail:
  fixes E :: "'w env" and s :: "('w, 'z) submitter_scheme"
  assumes laws: "sq_laws E n" and room: "2 \<le> queue_room E s" and ud: "0 \<le> ud2" "ud2 < 2 ^ 64"
    and count: "spl_nbytes req = count"
  shows "wp True (thenM (sub_splice E req ud1 flags)
     (thenM (sub_splice E \<lparr>spl_file_in = FdInt (sint (fd :: 32 word)), spl_off_in = - 1,
         spl_file_out = SockObj sock, spl_off_out = - 1, spl_nbytes = count, spl_splice_flags = 0\<rparr> ud2 0)
       (thenM (submit opr (Some fut)) (ret fut)))) s
     (\<lambda>f t. f = fut \<and> (\<exists>w. e_sq_ready E w = e_sq_ready E (world s) + 2 \<and>
        t = s\<lparr>world := w, cache := register opr (Some fut) (unsubmitted s @ [(ud1, SpliceReq req),
                (ud2, SpliceReq \<lparr>spl_file_in = FdInt (sint fd), spl_off_in = - 1, spl_file_out = SockObj sock,
                   spl_off_out = - 1, spl_nbytes = count, spl_splice_flags = 0\<rparr>)]) (cache s),
              unsubmitted := [], pending_submit := True\<rparr>))
     (\<lambda>_ t. \<exists>w. t = s\<lparr>world := w\<rparr>)"
    (is "wp True (thenM ?one (thenM ?two ?end)) s ?Q ?X")
proof -
  have pr: "wp False ?one s
     (\<lambda>_ t. \<exists>w r. t = s\<lparr>world := w, unsubmitted := unsubmitted s @ [(ud1, r)]\<rparr> \<and>
        e_sq_ready E w = Suc (e_sq_ready E (world s)))
     (\<lambda>e t. \<exists>w. t = s\<lparr>world := w\<rparr> \<and> e_sq_ready E w = Suc (e_sq_ready E (world s)))"
    using room prep_splice_ok.prep_room [OF laws, of s req ud1 flags] by (simp add: sub_splice_def)
  have "wp True (thenM ?two ?end) t ?Q ?X" if one: "?one s = Some (Inr (), t)" for t
  proof -
    from wp_Inr [OF pr one] obtain w r where t: "t = s\<lparr>world := w, unsubmitted := unsubmitted s @ [(ud1, r)]\<rparr>"
      and rd: "e_sq_ready E w = Suc (e_sq_ready E (world s))" by blast
    have r: "r = SpliceReq req" by (rule splice_request [OF one]) (simp add: t)
    have "0 < queue_room E t"
      using room rd sq_total [OF laws, of w] sq_total [OF laws, of "world s"] by (simp add: queue_room_def t)
    then obtain w2 where two: "?two t = Some (Inr (), t\<lparr>world := w2, unsubmitted := unsubmitted t @ [(ud2,
            SpliceReq \<lparr>spl_file_in = FdInt (sint fd), spl_off_in = - 1, spl_file_out = SockObj sock,
                   spl_off_out = - 1, spl_nbytes = count, spl_splice_flags = 0\<rparr>)]\<rparr>)"
        and rd2: "e_sq_ready E w2 = Suc (e_sq_ready E (world t))"
      using splice_runs [OF laws _ ud] splice_count [OF one] count by blast
    show ?thesis
      unfolding wp_def thenM_run [where m = ?two, OF two]
      using rd rd2 by (auto simp: thenM_def bindM_def modM_def ret_def submit_def t r)
  qed
  moreover have "?X e t" if "?one s = Some (Inl e, t)" for e t
    using wp_Inl [OF pr that] by blast
  ultimately show ?thesis
    by - (rule wp_thenM_I, simp_all)
qed

lemma pipe_frame:
  "sq_laws E n \<Longrightarrow> e_pipe E w = (r, w') \<Longrightarrow> e_sq_ready E w' = e_sq_ready E w"
  using sq_frame(5) [of E n w] by simp

lemma wp_sendfile:
  assumes laws: "sq_laws E n" and lo: "1 \<le> user_data_counter s" and hi: "user_data_counter s + 1 < 2 ^ 64"
  shows "wp True (sendfile E sock file offset count) s
     (\<lambda>f t. f = next_fut s \<and> linked_pair E (sendfile_args sock file offset count) s t) (\<lambda>_ t. no_pair s t)"
proof -
  let ?A = "sendfile_args sock file offset count"
  let ?c = "user_data_counter s"
  show ?thesis
    unfolding sendfile_def Let_def wp_thenM
  proof (rule wp_mono [OF wp_ensure_capacity], goal_cases)
    case (1 x s0)
    then have f: "sub_frame s s0" and room: "2 \<le> queue_room E s0" by auto
    show ?case
    proof (cases "e_pipe E (world s0)")
      case (Pair r w)
      show ?thesis
      proof (cases r)
        case (Inl e)
        then show ?thesis using f Pair
          by (simp add: wp_rules no_pair_def sub_frame_upd)
      next
        case (Inr fds)
        obtain pr pw where fds: "fds = (pr, pw)" by fastforce
        have c0: "user_data_counter s0 = ?c" using f by (auto simp: sub_frame_def)
        let ?op = "\<lparr>sfop_sock = sock, sfop_file = file, pipe_r = sint pr, pipe_w = sint pw,
           sfop_offset = offset, sfop_count = count, f2p_user_data = ?c, p2s_user_data = ?c + 1,
           f2p_done = False, p2s_done = False, pipes_closed = False\<rparr>"
        let ?s1 = "s0\<lparr>world := w, user_data_counter := ?c + 2,
           ops := (ops s0)(next_op s0 := SendfileOp ?op), next_op := Suc (next_op s0),
           futs := (futs s0)(next_fut s0 := \<lparr>fut_state = Pending, fut_operation = next_op s0\<rparr>),
           next_fut := Suc (next_fut s0)\<rparr>"
        have room1: "2 \<le> queue_room E ?s1"
          using room pipe_frame [OF laws Pair] sq_total [OF laws, of w] sq_total [OF laws, of "world s0"]
          by (simp add: queue_room_def)
        have op: "sendfile_op ?op s" "?A ?op" by (simp_all add: sendfile_op_def sendfile_args_def)
        have "linked_pair E ?A s t" if "e_sq_ready E v = e_sq_ready E w + 2"
            "t = ?s1\<lparr>world := v, cache := register (next_op s0) (Some (next_fut s0))
              (unsubmitted s0 @ [(?c, SpliceReq (f2p_request ?op)), (?c + 1, SpliceReq (p2s_request ?op))]) (cache s0),
              unsubmitted := [], pending_submit := True\<rparr>"
          for t v
          unfolding linked_pair_def
          using f room op that pipe_frame [OF laws Pair]
          by (intro exI [of _ s0] exI [of _ ?op] exI [of _ v])
            (auto simp: sub_frame_def)
        moreover have "no_pair s (?s1\<lparr>world := v\<rparr>)" for v
        proof -
          obtain w0 b where "s0 = s\<lparr>world := w0, pending_submit := b\<rparr>" "b \<longrightarrow> pending_submit s"
            using f by (auto simp: sub_frame_def)
          then have "not_started (SendfileOp ?op) (s\<lparr>user_data_counter := ?c + 2\<rparr>) (?s1\<lparr>world := v\<rparr>)"
            unfolding not_started_def by (intro exI [of _ v] exI [of _ b]) simp
          then show ?thesis using op unfolding no_pair_def by blast
        qed
        moreover have "next_fut s0 = next_fut s" using f by (auto simp: sub_frame_def)
        ultimately have "wp True (thenM (sub_splice E
             \<lparr>spl_file_in = file, spl_off_in = offset, spl_file_out = FdInt (sint pw),
               spl_off_out = - 1, spl_nbytes = count, spl_splice_flags = 0\<rparr> ?c (e_IOSQE_IO_HARDLINK E))
           (thenM (sub_splice E \<lparr>spl_file_in = FdInt (sint pr), spl_off_in = - 1, spl_file_out = SockObj sock,
               spl_off_out = - 1, spl_nbytes = count, spl_splice_flags = 0\<rparr> (?c + 1) 0)
             (thenM (submit (next_op s0) (Some (next_fut s0))) (ret (next_fut s0))))) ?s1
           (\<lambda>f t. f = next_fut s \<and> linked_pair E ?A s t) (\<lambda>_ t. no_pair s t)"
          using hi lo by - (rule wp_mono [OF sendfile_tail [OF laws room1]], auto simp: f2p_request_def p2s_request_def)
        then show ?thesis
          using Pair Inr fds c0
          by (simp add: wp_bindM wp_liftW wp_tryM next_user_data_def new_op_def new_future_def wp_actM
              add.commute)
      qed
    qed
  next
    case (2 e t)
    then show ?case by (simp add: no_pair_def)
  qed
qed

lemma linked_extended:
  assumes x: "linked_pair E A s t" and us: "unsubmitted s = []"
    and fresh: "\<And>u. user_data_counter s \<le> u \<Longrightarrow> u \<notin> dict_keys (cache s)"
  shows "\<exists>op. sendfile_op op s \<and> A op \<and> user_data_counter t = user_data_counter s + 2 \<and>
     extended s (SendfileOp op) [(user_data_counter s, pair_entry s (f2p_request op)),
       (user_data_counter s + 1, pair_entry s (p2s_request op))] t"
proof -
  have c: "AList.update (user_data_counter s + 1) p2 (AList.update (user_data_counter s) p1 (cache s)) =
     cache s @ [(user_data_counter s, p1), (user_data_counter s + 1, p2)]" for p1 p2
    using fresh [of "user_data_counter s"] fresh [of "user_data_counter s + 1"]
    by (simp add: update_fresh)
  show ?thesis
    using x unfolding linked_pair_def extended_def by (auto simp: us c pair_entry_def)
qed

interpretation counting: step_relation "\<lambda>s t. user_data_counter t = user_data_counter s"
  by unfold_locales auto

lemma counts_method:
  "submit_method E m \<Longrightarrow> keeps (\<lambda>s t. user_data_counter t = user_data_counter s) (m ud flags)"
  unfolding keeps_wp
  by (auto elim!: wp_mono [OF submit_method.method_runs] simp: prepared_def sub_frame_def)

lemma sendfile_counter:
  "wp True (sendfile E sock file offset count) s (\<lambda>_ t. user_data_counter t = user_data_counter s + 2)
     (\<lambda>_ t. sub_frame s t \<or> user_data_counter t = user_data_counter s + 2)"
proof -
  let ?k = "\<lambda>m. keeps (\<lambda>s t. user_data_counter t = user_data_counter s) m"
  have "?k (new_op op)" "?k (new_future r)" "?k (submit r f)" for op r f
    by (auto simp: keeps_def new_op_def new_future_def submit_def py_defs)
  then have tail: "?k (bindM (new_op op) (\<lambda>opr. bindM (new_future opr) (\<lambda>fut.
     thenM (sub_splice E r1 u1 fl) (thenM (sub_splice E r2 u2 0) (thenM (submit opr (Some fut)) (ret fut))))))"
    for op r1 u1 fl r2 u2
    by (intro counting.keeps_rules counts_method [OF splice_method.submit_method_axioms])
  have tail': "wp True (bindM (new_op op) (\<lambda>opr. bindM (new_future opr) (\<lambda>fut.
     thenM (sub_splice E r1 u1 fl) (thenM (sub_splice E r2 u2 0) (thenM (submit opr (Some fut)) (ret fut)))))) t
     (\<lambda>_ t. user_data_counter t = user_data_counter s + 2)
     (\<lambda>_ t. sub_frame s t \<or> user_data_counter t = user_data_counter s + 2)"
    if "user_data_counter t = user_data_counter s + 2" for op r1 u1 fl r2 u2 t
    by (rule wp_mono [OF spec [OF tail [unfolded keeps_wp]]]) (simp_all add: that)
  show ?thesis
    unfolding sendfile_def Let_def wp_thenM [where m = "ensure_capacity E 2"]
  proof (rule wp_mono [OF wp_ensure_capacity], goal_cases)
    case (1 x s0)
    then have f: "sub_frame s s0" by simp
    then have "user_data_counter s0 = user_data_counter s" by (auto simp: sub_frame_def)
    then show ?case
      using f tail' by (cases "e_pipe E (world s0)")
        (auto simp: wp_bindM [where m = "liftW _"] wp_bindM [where m = "actM _"] wp_liftW wp_tryM
          next_user_data_def wp_actM sub_frame_upd split: sum.split)
  qed simp
qed

lemma keeps_sendfile:
  assumes laws: "sq_laws E n"
  shows "keeps grow_step (sendfile E sock file offset count)"
  unfolding keeps_wp
proof
  fix s :: "'a proactor"
  let ?m = "sendfile E sock file offset count"
  note cnt = sendfile_counter [where s = s]
  show "wp True ?m s (\<lambda>_. grow_step s) (\<lambda>_. grow_step s)"
  proof (cases "proactor_inv s \<and> user_data_counter s + 1 < 2 ^ 64")
    case True
    then have inv: "proactor_inv s" and lo: "1 \<le> user_data_counter s" and us: "unsubmitted s = []"
      by (auto simp: proactor_inv_def ops_ok_def)
    have "grow_step s t" if x: "linked_pair E (sendfile_args sock file offset count) s t" for t
    proof -
      from linked_extended [OF x us inv_fresh [OF inv]] obtain op where
        op: "sendfile_op op s" and c: "user_data_counter t = user_data_counter s + 2"
        and e: "extended s (SendfileOp op) [(user_data_counter s, pair_entry s (f2p_request op)),
           (user_data_counter s + 1, pair_entry s (p2s_request op))] t"
        by blast
      have "proactor_inv t \<and> grows s t"
        by (rule extended_inv [OF inv e]) (use op c in \<open>auto simp: sendfile_op_def op_defs pair_entry_def\<close>)
      then show ?thesis using c by (intro grow_stepI) auto
    qed
    moreover have "grow_step s t" if x: "no_pair s t" for t
    proof (cases "sub_frame s t")
      case True
      then show ?thesis by (rule sub_frame_grow)
    next
      case False
      then obtain op where op: "sendfile_op op s"
          and n: "not_started (SendfileOp op) (s\<lparr>user_data_counter := user_data_counter s + 2\<rparr>) t"
        using x by (auto simp: no_pair_def)
      from not_started_extended [OF n us] have e: "extended s (SendfileOp op) [] t"
          and c: "user_data_counter t = user_data_counter s + 2" by auto
      have "proactor_inv t \<and> grows s t"
        by (rule extended_inv [OF inv e]) (use op c in \<open>auto simp: sendfile_op_def op_defs\<close>)
      then show ?thesis using c by (intro grow_stepI) auto
    qed
    ultimately show ?thesis
      using True by (auto intro!: wp_mono [OF wp_sendfile [OF laws lo]])
  next
    case False
    have "grow_step s t" if "user_data_counter t = user_data_counter s + 2" for t
      using that False by (auto simp: grow_step_def)
    then show ?thesis by (auto intro!: wp_mono [OF cnt] intro: sub_frame_grow)
  qed
qed

text \<open>
  All outcomes of \<open>sendfile\<close> on a consistent state: it raised before it made the operation, it
  made the operation and registered nothing, or it registered both splices.
\<close>

lemma sendfile_outcome:
  assumes laws: "sq_laws E n" and inv: "proactor_inv s" and hi: "user_data_counter t \<le> 2 ^ 64"
    and run: "sendfile E sock file offset count s = Some (r, t)"
  shows "sub_frame s t \<or> (\<exists>op. sendfile_op op s \<and> user_data_counter t = user_data_counter s + 2 \<and>
    (extended s (SendfileOp op) [] t \<or> sendfile_args sock file offset count op \<and>
     extended s (SendfileOp op) [(user_data_counter s, pair_entry s (f2p_request op)),
       (user_data_counter s + 1, pair_entry s (p2s_request op))] t))"
proof (cases "sub_frame s t")
  case False
  let ?A = "sendfile_args sock file offset count"
  have us: "unsubmitted s = []" and lo: "1 \<le> user_data_counter s" using inv by (auto simp: proactor_inv_def ops_ok_def)
  have "user_data_counter t = user_data_counter s + 2"
    using wp_Inr [OF sendfile_counter] wp_Inl [OF sendfile_counter] run False by (cases r) fastforce+
  then have "linked_pair E ?A s t \<or> no_pair s t"
    using wp_Inr [OF wp_sendfile [OF laws lo]] wp_Inl [OF wp_sendfile [OF laws lo]] run hi by (cases r) fastforce+
  then show ?thesis
    using linked_extended [OF _ us inv_fresh [OF inv], of E ?A t] not_started_extended [OF _ us] False
    by (fastforce simp: no_pair_def)
qed simp

end
