(* ===== verification/Uring_Safety.thy ===== *)
theory Uring_Safety
  imports Uring_Invariant
begin

text \<open>
  The invariant across cancelling, completing, polling, stopping and closing, and with it
  across every reachable state of the proactor.
\<close>

section \<open>Conditional steps\<close>

text \<open>
  A step that keeps the invariant and satisfies \<open>Q\<close> when its precondition holds of the state it
  starts in, as long as the counter stays in range. The references a method is given (an
  operation, a future) must be ones the proactor made: that is the precondition.
\<close>

definition step_if :: "('w proactor \<Rightarrow> 'w proactor \<Rightarrow> bool) \<Rightarrow> bool \<Rightarrow> 'w proactor \<Rightarrow> 'w proactor \<Rightarrow> bool" where
  "step_if Q P s t \<longleftrightarrow> user_data_counter s \<le> user_data_counter t \<and>
     (P \<and> proactor_inv s \<and> user_data_counter t \<le> 2 ^ 64 \<longrightarrow> proactor_inv t \<and> Q s t)"

lemma step_if_weaken: "step_if Q P s t \<Longrightarrow> (\<And>s t. Q s t \<Longrightarrow> R s t) \<Longrightarrow> step_if R P s t"
  by (simp add: step_if_def)

text \<open>What is proved of a step: any reflexive and transitive relation that lets states evolve.\<close>

locale evolving =
  fixes Q :: "'w proactor \<Rightarrow> 'w proactor \<Rightarrow> bool"
  assumes Q_refl: "Q s s"
    and Q_trans: "Q s t \<Longrightarrow> Q t u \<Longrightarrow> Q s u"
    and Q_evolves: "Q s t \<Longrightarrow> evolves s t"
begin

lemma step_if_refl: "step_if Q P s s"
  by (simp add: step_if_def Q_refl)

lemma step_if_trans:
  assumes "step_if Q P s t" and "step_if Q R t u"
    and "P \<Longrightarrow> proactor_inv s \<Longrightarrow> proactor_inv t \<Longrightarrow> Q s t \<Longrightarrow> R"
  shows "step_if Q P s u"
  using assms Q_trans [of s t u] unfolding step_if_def by auto

text \<open>A loop over the entries the cache had when it started.\<close>

lemma entries_loop:
  assumes body: "\<And>p t. wp True (body p) t
      (\<lambda>_. step_if Q (\<forall>f. pc_future p = Some f \<longrightarrow> f < next_fut t) t)
      (\<lambda>_. step_if Q (\<forall>f. pc_future p = Some f \<longrightarrow> f < next_fut t) t)"
  shows "keeps (step_if Q True) (bindM (getM (\<lambda>s. map snd (cache s))) (\<lambda>ps. forM ps body))"
  unfolding keeps_wp
proof
  fix s :: "'w proactor"
  have "wp True (forM (map snd (cache s)) body) s (\<lambda>_. step_if Q True s) (\<lambda>_. step_if Q True s)"
  proof (rule wp_forM)
    fix p t assume p: "p \<in> set (map snd (cache s))" and st: "step_if Q True s t"
    have "step_if Q True s u" if "step_if Q (\<forall>f. pc_future p = Some f \<longrightarrow> f < next_fut t) t u" for u
    proof (rule step_if_trans [OF st that])
      assume "proactor_inv s" and "Q s t"
      then show "\<forall>f. pc_future p = Some f \<longrightarrow> f < next_fut t"
        using p evolves_counters [OF Q_evolves]
        by (fastforce simp: proactor_inv_def entry_static_def dest: cache_okD)
    qed
    then show "wp True (body p) t (\<lambda>_. step_if Q True s) (\<lambda>_. step_if Q True s)"
      by (intro wp_mono [OF body])
  qed (rule step_if_refl)
  then show "wp True (bindM (getM (\<lambda>s. map snd (cache s))) (\<lambda>ps. forM ps body)) s
      (\<lambda>_. step_if Q True s) (\<lambda>_. step_if Q True s)"
    by (simp add: wp_bindM wp_getM)
qed

end

sublocale evolving \<subseteq> calls: step_relation "step_if Q True"
  by unfold_locales (auto intro: step_if_refl step_if_trans)

section \<open>Cancelling\<close>

text \<open>The contract of the two parts of \<open>_IoUringFuture.cancel\<close>, and what follows for the callers.\<close>

locale cancelling = evolving +
  fixes E :: "'w env"
  assumes cancel_op: "wp True (cancel_operation E opr 0) s
      (\<lambda>_. step_if Q (opr < next_op s) s) (\<lambda>_. step_if Q (opr < next_op s) s)"
    and cancel_fut: "\<not> fut_done (futs s f) \<Longrightarrow> step_if Q (f < next_fut s) s (set_fut_state f Cancelled s)"
begin

lemma fut_cancel_if:
  "wp True (fut_cancel E f) s (\<lambda>_. step_if Q (f < next_fut s) s) (\<lambda>_. step_if Q (f < next_fut s) s)"
proof -
  have op: "fut_operation (futs s f) < next_op s" if "f < next_fut s" "proactor_inv s"
    using that by (simp add: proactor_inv_def futs_ok_def)
  have base: "wp True (base_cancel f) t (\<lambda>_. step_if Q (f < next_fut s) s) (\<lambda>_. step_if Q (f < next_fut s) s)"
    if t: "step_if Q (f < next_fut s) s t" for t
  proof -
    have "step_if Q (f < next_fut s) s (set_fut_state f Cancelled t)" if "\<not> fut_done (futs t f)"
      by (rule step_if_trans [OF t cancel_fut [OF that]])
        (auto dest!: Q_evolves dest: evolves_counters)
    then show ?thesis
      using t by (auto simp: base_cancel_def wp_rules set_fut_state_def)
  qed
  have *: "wp True (cancel_operation E (fut_operation (futs s f)) 0) s
      (\<lambda>_. step_if Q (f < next_fut s) s) (\<lambda>_. step_if Q (f < next_fut s) s)"
    by (rule wp_mono [OF cancel_op]) (auto simp: step_if_def op)
  show ?thesis
    by (auto simp: fut_cancel_def wp_bindM wp_getM wp_thenM wp_whenM
      intro!: base wp_mono [OF *] step_if_refl)
qed

lemma fut_cancel_unit:
  "wp True (bindM (fut_cancel E f) (\<lambda>_. ret ())) s
     (\<lambda>_. step_if Q (f < next_fut s) s) (\<lambda>_. step_if Q (f < next_fut s) s)"
  by (simp add: wp_bindM wp_ret fut_cancel_if)

lemma stop_entries: "keeps (step_if Q True) (bindM (getM (\<lambda>s. map snd (cache s))) (\<lambda>ps. forM ps (stop_entry E)))"
proof (rule entries_loop)
  fix p t
  show "wp True (stop_entry E p) t (\<lambda>_. step_if Q (\<forall>f. pc_future p = Some f \<longrightarrow> f < next_fut t) t)
      (\<lambda>_. step_if Q (\<forall>f. pc_future p = Some f \<longrightarrow> f < next_fut t) t)"
    using fut_cancel_unit [of _ t]
    by (cases "pc_future p") (simp_all add: stop_entry_def wp_readM wp_ret wp_whenM step_if_refl)
qed

end

text \<open>The instance for the growth of the cache.\<close>

abbreviation grow_if :: "bool \<Rightarrow> 'w proactor \<Rightarrow> 'w proactor \<Rightarrow> bool" where
  "grow_if \<equiv> step_if grows"

lemma grow_if_step: "grow_step s t \<Longrightarrow> grow_if P s t"
  by (simp add: step_if_def grow_step_def)

interpretation growth: evolving grows
  by unfold_locales (auto simp: grows_refl grows_def intro: evolves_trans)

definition cancel_sent :: "'w env \<Rightarrow> nat \<Rightarrow> int \<Rightarrow> int \<Rightarrow> 'w proactor \<Rightarrow> 'w proactor \<Rightarrow> bool" where
  "cancel_sent E opr ud flags s t \<longleftrightarrow> (\<exists>w. t = s\<lparr>user_data_counter := user_data_counter s + 1,
     world := w, cache := register opr None (unsubmitted s @ [(user_data_counter s,
       Cancel64Req \<lparr>can_user_data = ud, can_flags = flags\<rparr>)]) (cache s),
     unsubmitted := [], pending_submit := True\<rparr>)"

lemma cancel_prepared:
  assumes "sub_cancel E \<lparr>can_user_data = ud, can_flags = flags\<rparr> cud 0 s = Some (Inr (), t)"
  shows "\<exists>w b. t = s\<lparr>world := w, pending_submit := b, unsubmitted := unsubmitted s @
     [(cud, Cancel64Req \<lparr>can_user_data = ud, can_flags = flags\<rparr>)]\<rparr>"
proof -
  obtain q s0 r w v where g: "get_sqe E s = Some (Inr q, s0)"
      and p: "io_uring_prep_cancel64 E \<lparr>can_user_data = ud, can_flags = flags\<rparr> q (world s0) = Some (Inr r, w)"
      and t: "t = s0\<lparr>world := v, unsubmitted := unsubmitted s0 @ [(cud, r)]\<rparr>"
    using assms unfolding sub_cancel_def prep_def
    by (auto simp: bindM_Inr_iff liftW_Inr_iff thenM_def whenM_def ret_def modM_def)
  have "r = Cancel64Req \<lparr>can_user_data = ud, can_flags = flags\<rparr>"
    using p by (auto simp: io_uring_prep_cancel64_def bindM_Inr_iff thenM_def ret_def)
  moreover have "sub_frame s s0" using wp_Inr [OF wp_get_sqe g] .
  then obtain w0 b where "s0 = s\<lparr>world := w0, pending_submit := b\<rparr>" by (auto simp: sub_frame_def)
  ultimately show ?thesis
    using t by (intro exI [of _ v] exI [of _ b]) simp
qed

lemma wp_cancel_operation:
  "wp True (cancel_operation E opr flags) s
     (\<lambda>_ t. case get_user_data (ops s opr) of None \<Rightarrow> t = s
            | Some ud \<Rightarrow> if ud = 0 then t = s else cancel_sent E opr ud flags s t)
     (\<lambda>_ t. sub_frame (s\<lparr>user_data_counter := user_data_counter s + 1\<rparr>) t)"
proof (cases "get_user_data (ops s opr)")
  case None
  then show ?thesis by (simp add: cancel_operation_def wp_rules)
next
  case (Some ud)
  let ?s1 = "s\<lparr>user_data_counter := user_data_counter s + 1\<rparr>"
  have "wp True (thenM (sub_cancel E \<lparr>can_user_data = ud, can_flags = flags\<rparr> (user_data_counter s) 0)
      (submit opr None)) ?s1 (\<lambda>_. cancel_sent E opr ud flags s) (\<lambda>_. sub_frame ?s1)"
  proof (rule wp_thenM_I)
    fix x t assume "sub_cancel E \<lparr>can_user_data = ud, can_flags = flags\<rparr> (user_data_counter s) 0 ?s1 = Some (Inr x, t)"
    then have "sub_cancel E \<lparr>can_user_data = ud, can_flags = flags\<rparr> (user_data_counter s) 0 ?s1 = Some (Inr (), t)"
      by simp
    from cancel_prepared [OF this]
    show "wp True (submit opr None) t (\<lambda>_. cancel_sent E opr ud flags s) (\<lambda>_. sub_frame ?s1)"
      by (auto simp: submit_def wp_rules cancel_sent_def)
  next
    fix e t assume "sub_cancel E \<lparr>can_user_data = ud, can_flags = flags\<rparr> (user_data_counter s) 0 ?s1 = Some (Inl e, t)"
    from wp_Inl [OF submit_method.method_runs [OF cancel_method.submit_method_axioms] this]
    show "sub_frame ?s1 t" .
  qed
  then show ?thesis
    by (simp add: cancel_operation_def wp_bindM wp_getM Some next_user_data_def wp_actM wp_ret)
qed

lemma cancel_sent_grow:
  assumes "cancel_sent E opr ud flags s t"
  shows "grow_if (opr < next_op s) s t"
  unfolding step_if_def
proof (intro conjI impI)
  show "user_data_counter s \<le> user_data_counter t" using assms by (auto simp: cancel_sent_def)
  let ?p = "\<lparr>pc_operation = opr, pc_future = None,
    pc_request = Cancel64Req \<lparr>can_user_data = ud, can_flags = flags\<rparr>\<rparr>"
  assume "opr < next_op s \<and> proactor_inv s \<and> user_data_counter t \<le> 2 ^ 64"
  then have opr: "opr < next_op s" and inv: "proactor_inv s" by auto
  from inv have c: "cache_ok s" and us: "unsubmitted s = []" and pos: "1 \<le> user_data_counter s"
    by (auto simp: proactor_inv_def ops_ok_def)
  note fr = inv_fresh [OF inv order_refl]
  have t: "cache t = cache s @ [(user_data_counter s, ?p)]" "ops t = ops s" "futs t = futs s"
      "next_op t = next_op s" "next_fut t = next_fut s" "results t = results s" "unsubmitted t = []"
      "user_data_counter t = user_data_counter s + 1"
    using assms us update_fresh [OF fr] by (auto simp: cancel_sent_def)
  have e: "evolves s t" by (simp add: evolves_def t)
  then show "grows s t" by (simp add: grows_def t)
  have d: "distinct (map fst (cache t))" using c fr by (auto simp: cache_ok_def t)
  have "cache_ok t"
    by (rule cache_ok_append [OF e c t(1) d])
      (auto simp: t entry_static_def entry_live_def opr pos)
  moreover have "ops_ok t" using inv by (fastforce simp: proactor_inv_def ops_ok_def t)
  ultimately show "proactor_inv t"
    using inv results_ok_mono [OF e] by (simp add: proactor_inv_def futs_ok_def t)
qed

lemma grow_cancel_operation:
  "wp True (cancel_operation E opr flags) s (\<lambda>_. grow_if (opr < next_op s) s) (\<lambda>_. grow_if (opr < next_op s) s)"
proof -
  have count: "grow_step s (s\<lparr>user_data_counter := user_data_counter s + 1\<rparr>)"
  proof (rule grow_stepI)
    let ?t = "s\<lparr>user_data_counter := user_data_counter s + 1\<rparr>"
    assume inv: "proactor_inv s"
    have e: "evolves s ?t" by (simp add: evolves_def)
    have "cache_ok ?t"
      using inv by (intro cache_ok_append [OF e, where new = "[]"]) (auto simp: proactor_inv_def cache_ok_def)
    moreover have "ops_ok ?t" using inv by (fastforce simp: proactor_inv_def ops_ok_def)
    ultimately show "proactor_inv ?t \<and> grows s ?t"
      using inv results_ok_mono [OF e] e by (simp add: proactor_inv_def futs_ok_def grows_def)
  qed simp
  show ?thesis
    by (rule wp_mono [OF wp_cancel_operation])
      (auto intro: cancel_sent_grow grow_if_step growing.step_refl
        growing.step_trans [OF count sub_frame_grow] split: option.splits if_splits)
qed

lemma settle_future_grow:
  assumes "\<not> fut_done (futs s f)"
  shows "grow_step s (set_fut_state f st s)"
proof (rule grow_stepI)
  let ?t = "set_fut_state f st s"
  assume inv: "proactor_inv s"
  have t: "cache ?t = cache s" "ops ?t = ops s" "next_op ?t = next_op s" "next_fut ?t = next_fut s"
      "results ?t = results s" "unsubmitted ?t = unsubmitted s" "user_data_counter ?t = user_data_counter s"
      "\<And>g. fut_operation (futs ?t g) = fut_operation (futs s g)"
    by (auto simp: set_fut_state_def)
  have e: "evolves s ?t" using assms by (auto simp: evolves_def set_fut_state_def)
  have "cache_ok ?t"
    using inv by (intro cache_ok_append [OF e, where new = "[]"]) (auto simp: proactor_inv_def cache_ok_def t)
  then show "proactor_inv ?t \<and> grows s ?t"
    using inv e results_ok_mono [OF e]
    by (simp add: proactor_inv_def futs_ok_def ops_ok_def grows_def t)
qed (simp add: set_fut_state_def)

interpretation grow_calls: cancelling grows E for E
  by unfold_locales (auto intro: grow_cancel_operation grow_if_step settle_future_grow)

section \<open>Completing\<close>

text \<open>
  Taking an entry out of the cache and recording its completion in its operation: the other
  entries of that operation are still unseen, the entries of other operations unaffected.
\<close>

definition popped :: "int \<Rightarrow> 'w proactor \<Rightarrow> 'w proactor \<Rightarrow> bool" where
  "popped ud s t \<longleftrightarrow> cache t = AList.delete ud (cache s) \<and> unsubmitted t = unsubmitted s \<and>
     user_data_counter t = user_data_counter s \<and> next_op t = next_op s \<and> next_fut t = next_fut s \<and>
     futs t = futs s \<and> results t = results s"

lemma popped_inv:
  assumes inv: "proactor_inv s" and p: "(ud, p) \<in> set (cache s)" and t: "popped ud s t"
    and ops: "\<And>r. op_tags (ops t r) = op_tags (ops s r) \<and> get_file_obj (ops t r) = get_file_obj (ops s r) \<and>
        (op_wf (ops s r) \<longrightarrow> op_wf (ops t r))"
    and seen: "\<And>r. op_seen (ops t r) = (if r = pc_operation p \<and> pc_future p \<noteq> None
        then insert ud (op_seen (ops s r)) else op_seen (ops s r))"
  shows "proactor_inv t \<and> evolves s t"
proof
  from inv have c: "cache_ok s" by (simp add: proactor_inv_def)
  have t': "cache t = AList.delete ud (cache s)" "next_op t = next_op s" "next_fut t = next_fut s"
      "futs t = futs s" "results t = results s" "unsubmitted t = unsubmitted s"
      "user_data_counter t = user_data_counter s"
    using t by (simp_all add: popped_def)
  show e: "evolves s t" by (auto simp: evolves_def t' ops seen)
  have dist: "distinct (map fst (cache s))" using c by (simp add: cache_ok_def)
  have d: "distinct (map fst (cache t))" unfolding t' using dist by (rule distinct_delete)
  have sub: "(u, q) \<in> set (cache t) \<longleftrightarrow> (u, q) \<in> set (cache s) \<and> u \<noteq> ud" for u q
    unfolding t' using dist by (auto simp: AList.delete_eq)
  have uniq: "q = p" if "(ud, q) \<in> set (cache s)" for q
    using dist that p by (metis eq_key_imp_eq_value)
  have "entry_static t u q \<and> entry_live t u q" if uq: "(u, q) \<in> set (cache t)" for u q
  proof
    from uq sub have us: "(u, q) \<in> set (cache s)" and ne: "u \<noteq> ud" by auto
    from cache_okD [OF c us] have st: "entry_static s u q" and li: "entry_live s u q" by auto
    show "entry_static t u q" by (rule entry_static_mono [OF e st])
    show "entry_live t u q"
      unfolding entry_live_def
    proof (intro allI impI conjI ballI)
      fix f assume f: "pc_future q = Some f"
      from li f have old: "u \<notin> op_seen (ops s (pc_operation q))"
          "\<And>v. v \<in> op_tags (ops s (pc_operation q)) \<Longrightarrow> v \<notin> op_seen (ops s (pc_operation q)) \<Longrightarrow>
             \<exists>q'. (v, q') \<in> set (cache s) \<and> pc_future q' = Some f"
        by (auto simp: entry_live_def)
      show "u \<notin> op_seen (ops t (pc_operation q))" using old ne by (auto simp: seen)
      fix v assume "v \<in> op_tags (ops t (pc_operation q)) - op_seen (ops t (pc_operation q))"
      then have v: "v \<in> op_tags (ops s (pc_operation q))" "v \<notin> op_seen (ops t (pc_operation q))"
          "v \<notin> op_seen (ops s (pc_operation q))"
        by (auto simp: ops seen split: if_splits)
      then obtain q' where q': "(v, q') \<in> set (cache s)" "pc_future q' = Some f" using old by blast
      have "v \<noteq> ud"
      proof
        assume "v = ud"
        then have "q' = p" using q' uniq by simp
        moreover have "fut_operation (futs s f) = pc_operation q" "fut_operation (futs s f) = pc_operation q'"
          using st f cache_okD [OF c q'(1)] q'(2) by (auto simp: entry_static_def)
        ultimately show False using v(2) q'(2) \<open>v = ud\<close> by (simp add: seen)
      qed
      then show "\<exists>q'. (v, q') \<in> set (cache t) \<and> pc_future q' = Some f" using q' sub by blast
    qed
  qed
  then have "cache_ok t" using d by (auto simp: cache_ok_def)
  moreover have "ops_ok t" using inv by (auto simp: proactor_inv_def ops_ok_def t' ops)
  ultimately show "proactor_inv t"
    using inv results_ok_mono [OF e] by (simp add: proactor_inv_def futs_ok_def t')
qed

lemma wp_mark_seen_at:
  "wp False (mark_seen_at E opr ud) s
    (\<lambda>_ t. \<exists>op' w. mark_seen E ud (ops s opr, world s) = Some (Inr (), (op', w)) \<and>
       t = s\<lparr>ops := (ops s)(opr := op'), world := w\<rparr>)
    (\<lambda>e t. \<exists>op' w. mark_seen E ud (ops s opr, world s) = Some (Inl e, (op', w)) \<and>
       t = s\<lparr>ops := (ops s)(opr := op'), world := w\<rparr>)"
  using mark_seen_returns [of E ud "ops s opr" "world s"]
  by (auto simp: mark_seen_at_def zoomM_def wp_def split: option.splits sum.splits)

definition marked :: "'w proactor \<Rightarrow> int \<Rightarrow> PendingCompletion \<Rightarrow> BaseOperation \<Rightarrow> 'w \<Rightarrow> 'w proactor" where
  "marked s ud p op' w =
     s\<lparr>cache := AList.delete ud (cache s), ops := (ops s)(pc_operation p := op'), world := w\<rparr>"

lemma marked_simps [simp]:
  "cache (marked s ud p op' w) = AList.delete ud (cache s)" "world (marked s ud p op' w) = w"
  "ops (marked s ud p op' w) = (ops s)(pc_operation p := op')" "next_op (marked s ud p op' w) = next_op s"
  "futs (marked s ud p op' w) = futs s" "next_fut (marked s ud p op' w) = next_fut s"
  "results (marked s ud p op' w) = results s" "user_data_counter (marked s ud p op' w) = user_data_counter s"
  "unsubmitted (marked s ud p op' w) = unsubmitted s" "stopped_serving (marked s ud p op' w) = stopped_serving s"
  by (simp_all add: marked_def)

lemma marked_inv:
  assumes inv: "proactor_inv s" and p: "(ud, p) \<in> set (cache s)" and f: "pc_future p = Some f"
    and m: "mark_seen E ud (ops s (pc_operation p), w0) = Some (r, (op', w))"
  shows "proactor_inv (marked s ud p op' w) \<and> evolves s (marked s ud p op' w)"
proof -
  from inv p have "entry_static s ud p" by (auto simp: proactor_inv_def dest: cache_okD)
  then have own: "ud \<in> op_tags (ops s (pc_operation p))" using f by (simp add: entry_static_def)
  show ?thesis
    by (rule popped_inv [OF inv p])
      (use mark_seen_own [OF own m] mark_seen_file [OF m] f in \<open>auto simp: popped_def\<close>)
qed

lemma keeps_apply_settle: "keeps grow_step (apply_settle f a)"
  unfolding apply_settle_def
  by (cases a) (auto intro!: growing.keeps_rules simp: keeps_def readM_def modM_def raise_def ret_def
      intro: settle_future_grow growing.step_refl)

lemma results_append:
  assumes "fut_done (futs s f)" and "f \<notin> set (results s)"
  shows "grow_if (f < next_fut s) s (s\<lparr>results := results s @ [f]\<rparr>)"
  unfolding step_if_def
proof (intro conjI impI)
  let ?t = "s\<lparr>results := results s @ [f]\<rparr>"
  assume "f < next_fut s \<and> proactor_inv s \<and> user_data_counter ?t \<le> 2 ^ 64"
  then have f: "f < next_fut s" and inv: "proactor_inv s" by auto
  have e: "evolves s ?t" by (simp add: evolves_def)
  have "cache_ok ?t"
    using inv by (intro cache_ok_append [OF e, where new = "[]"]) (auto simp: proactor_inv_def cache_ok_def)
  then show "proactor_inv ?t"
    using inv f assms by (simp add: proactor_inv_def futs_ok_def ops_ok_def results_ok_def)
  show "grows s ?t" by (simp add: grows_def e)
qed simp

interpretation reporting: step_relation "\<lambda>s t. results t = results s"
  by unfold_locales auto

lemma settle_results:
  "keeps (\<lambda>s t. results t = results s) (bindM (liftW m) (apply_settle f))"
proof -
  have "keeps (\<lambda>s t. results t = results s) (apply_settle f a)" for a
    by (cases a) (auto simp: keeps_def apply_settle_def py_defs set_fut_state_def)
  then show ?thesis
    unfolding liftW_def by (intro reporting.keeps_bindM reporting.keeps_zoomM) simp_all
qed

lemma grow_run_operation:
  "wp True (run_operation E cqe opr f) s (\<lambda>_. grow_if (f < next_fut s) s) (\<lambda>_. grow_if (f < next_fut s) s)"
proof (cases "fut_done (futs s f)")
  case True
  then show ?thesis
    by (simp add: run_operation_def wp_rules grow_if_step growing.step_refl)
next
  case False
  let ?m = "bindM (liftW (operate E (ops s opr) (cqe_res cqe))) (apply_settle f)"
  have *: "keeps grow_step ?m"
    by (intro growing.keeps_rules keeps_liftW keeps_apply_settle)
  have "wp True ?m s (\<lambda>_ t. grow_step s t \<and> results t = results s) (\<lambda>_ t. grow_step s t \<and> results t = results s)"
    by (rule wp_conj [OF spec [OF * [unfolded keeps_wp]] spec [OF settle_results [unfolded keeps_wp]]])
  moreover have "grow_if (f < next_fut s) s (t\<lparr>results := results t @ [f]\<rparr>)"
    if t: "grow_step s t" "results t = results s" and d: "fut_done (futs t f)" for t
  proof (cases "proactor_inv s")
    case True
    then have "f \<notin> set (results t)" using False t(2) by (auto simp: proactor_inv_def results_ok_def)
    then show ?thesis
      by (intro growth.step_if_trans [OF grow_if_step [OF t(1)] results_append [OF d]])
        (auto simp: grows_def dest: evolves_counters)
  next
    case False
    then show ?thesis using t(1) by (simp add: step_if_def grow_step_def)
  qed
  ultimately show ?thesis
    using False
    by (auto simp: run_operation_def wp_readM wp_thenM wp_whenM wp_modM elim!: wp_mono intro: grow_if_step)
qed

text \<open>
  Handling a completion: sound, and the cache loses the entry of that completion and no
  other; entries of cancellations issued on the way are added at the end.
\<close>

definition completes :: "int \<Rightarrow> 'w proactor \<Rightarrow> 'w proactor \<Rightarrow> bool" where
  "completes ud s t \<longleftrightarrow> sound_step s t \<and> (proactor_inv s \<and> user_data_counter t \<le> 2 ^ 64 \<longrightarrow>
     (\<exists>new. cache t = AList.delete ud (cache s) @ new))"

lemma completes_then:
  assumes st: "completes ud s t" and tu: "grow_if P t u" and P: "proactor_inv s \<Longrightarrow> P"
  shows "completes ud s u"
  using assms evolves_trans [of s t u]
  unfolding completes_def sound_step_def step_if_def grows_def by auto

lemma pop_static:
  assumes "dict_pop ud (cache s) = Some (p, c)"
  shows "(ud, p) \<in> set (cache s) \<and> c = AList.delete ud (cache s)"
  using dict_pop_SomeD [OF assms] map_of_SomeD by fastforce

lemma popped_completes:
  assumes "proactor_inv s \<Longrightarrow> proactor_inv t \<and> evolves s t" and "user_data_counter t = user_data_counter s"
    and "cache t = AList.delete ud (cache s)"
  shows "completes ud s t"
  using assms by (simp add: completes_def sound_step_def)

text \<open>
  The cases of \<open>_handle_cqe\<close>: an unknown number, the answer to a cancellation, an operation that
  does not accept the completion, an operation whose file was stopped, and one that is run.
\<close>

lemma wp_handle_rule:
  fixes E :: "'w env" and s :: "'w proactor" and cqe :: IoUringCqe
  defines "ud \<equiv> cqe_user_data cqe"
  assumes unknown: "\<And>l. ud \<notin> dict_keys (cache s) \<Longrightarrow> Q s \<and> Q (s\<lparr>handler_log := l\<rparr>)"
    and answered: "\<And>p l. (ud, p) \<in> set (cache s) \<Longrightarrow> pc_future p = None \<Longrightarrow>
      Q (s\<lparr>cache := AList.delete ud (cache s)\<rparr>) \<and> Q (s\<lparr>cache := AList.delete ud (cache s), handler_log := l\<rparr>)"
    and refused: "\<And>p f op' w e. (ud, p) \<in> set (cache s) \<Longrightarrow> pc_future p = Some f \<Longrightarrow>
      mark_seen E ud (ops s (pc_operation p), world s) = Some (Inl e, (op', w)) \<Longrightarrow> Q (marked s ud p op' w)"
    and stopped: "\<And>p f op' w. (ud, p) \<in> set (cache s) \<Longrightarrow> pc_future p = Some f \<Longrightarrow>
      mark_seen E ud (ops s (pc_operation p), world s) = Some (Inr (), (op', w)) \<Longrightarrow>
      wp True (bindM (fut_cancel E f) (\<lambda>_. ret ())) (marked s ud p op' w) (\<lambda>_. Q) (\<lambda>_. Q)"
    and run: "\<And>p f op' w. (ud, p) \<in> set (cache s) \<Longrightarrow> pc_future p = Some f \<Longrightarrow>
      mark_seen E ud (ops s (pc_operation p), world s) = Some (Inr (), (op', w)) \<Longrightarrow>
      wp True (run_operation E cqe (pc_operation p) f) (marked s ud p op' w) (\<lambda>_. Q) (\<lambda>_. Q)"
  shows "wp True (handle_cqe E cqe) s (\<lambda>_. Q) (\<lambda>_. Q)"
proof (cases "dict_pop (cqe_user_data cqe) (cache s)")
  case None
  then show ?thesis
    using unknown dict_pop_None [of ud "cache s"]
    by (simp add: handle_cqe_def Let_def log_handler_def wp_rules ud_def)
next
  case (Some x)
  obtain p c where x: "x = (p, c)" by fastforce
  from pop_static [OF Some [unfolded x]] have p: "(ud, p) \<in> set (cache s)" and c: "c = AList.delete ud (cache s)"
    by (auto simp: ud_def)
  show ?thesis
  proof (cases "pc_future p")
    case None
    then show ?thesis
      using Some x c answered [OF p None] by (simp add: handle_cqe_def Let_def log_handler_def wp_rules)
  next
    case f: (Some f)
    note eq = marked_def [of s ud p, folded c]
    show ?thesis
      using Some x f refused [OF p f, unfolded eq] stopped [OF p f, unfolded eq] run [OF p f, unfolded eq]
      by (auto simp: handle_cqe_def Let_def wp_readM wp_thenM wp_modM ud_def
        intro!: wp_mono [OF wp_weaken [OF wp_mark_seen_at]])
  qed
qed

lemma wp_handle_cqe:
  "wp True (handle_cqe E cqe) s (\<lambda>_. completes (cqe_user_data cqe) s) (\<lambda>_. completes (cqe_user_data cqe) s)"
proof (rule wp_handle_rule)
  let ?ud = "cqe_user_data cqe"
  show "completes ?ud s s \<and> completes ?ud s (s\<lparr>handler_log := l\<rparr>)" if "?ud \<notin> dict_keys (cache s)" for l
    using that by (auto intro!: popped_completes simp: inv_frame evolves_frame evolves_refl)
  show "completes ?ud s (s\<lparr>cache := AList.delete ?ud (cache s)\<rparr>) \<and>
      completes ?ud s (s\<lparr>cache := AList.delete ?ud (cache s), handler_log := l\<rparr>)"
    if p: "(?ud, p) \<in> set (cache s)" "pc_future p = None" for p l
    using popped_inv [OF _ p(1), of "s\<lparr>cache := AList.delete ?ud (cache s)\<rparr>"]
    by (auto intro!: popped_completes simp: p(2) popped_def inv_frame evolves_frame)
  fix p f op' w r
  assume p: "(?ud, p) \<in> set (cache s)" and f: "pc_future p = Some f"
  have fut: "f < next_fut s" if "proactor_inv s"
    using that p f by (auto simp: proactor_inv_def entry_static_def dest: cache_okD)
  have marked: "completes ?ud s (marked s ?ud p op' w)"
    if "mark_seen E ?ud (ops s (pc_operation p), world s) = Some (r, (op', w))" for r
    by (rule popped_completes) (use marked_inv [OF _ p f that] in simp_all)
  show "completes ?ud s (marked s ?ud p op' w)"
    if "mark_seen E ?ud (ops s (pc_operation p), world s) = Some (Inl e, (op', w))" for e
    by (rule marked [OF that])
  assume m: "mark_seen E ?ud (ops s (pc_operation p), world s) = Some (Inr (), (op', w))"
  have then_: "completes ?ud s u" if "grow_if (f < next_fut s) (marked s ?ud p op' w) u" for u
    using completes_then [OF marked [OF m] that] fut by simp
  show "wp True (bindM (fut_cancel E f) (\<lambda>_. ret ())) (marked s ?ud p op' w) (\<lambda>_. completes ?ud s) (\<lambda>_. completes ?ud s)"
    by (rule wp_mono [OF grow_calls.fut_cancel_unit]) (simp_all add: then_)
  show "wp True (run_operation E cqe (pc_operation p) f) (marked s ?ud p op' w) (\<lambda>_. completes ?ud s) (\<lambda>_. completes ?ud s)"
    by (rule wp_mono [OF grow_run_operation]) (simp_all add: then_)
qed

lemma keeps_handle_cqe: "keeps sound_step (handle_cqe E cqe)"
  unfolding keeps_wp by (auto intro!: wp_mono [OF wp_handle_cqe] simp: completes_def)

section \<open>Polling, stopping and closing\<close>

text \<open>
  What the public methods keep follows from the laws of their parts: the fields that may change
  freely, the cancelling above, and the handling of one completion.
\<close>

locale framed = cancelling +
  assumes on_log: "Q s (s\<lparr>handler_log := l\<rparr>)"
    and on_ring: "Q s (s\<lparr>iouring := b\<rparr>)"
    and on_stopped: "Q s (s\<lparr>stopped_serving := S\<rparr>)"
    and on_loop: "Q s (s\<lparr>loop := d\<rparr>)"
    and on_results: "Q s (s\<lparr>results := []\<rparr>)"
    and on_handle: "keeps (step_if Q True) (handle_cqe E cqe)"
begin

lemma frames:
  "step_if Q True s (s\<lparr>handler_log := l\<rparr>)" "step_if Q True s (s\<lparr>iouring := b\<rparr>)"
  "step_if Q True s (s\<lparr>stopped_serving := S\<rparr>)" "step_if Q True s (s\<lparr>loop := d\<rparr>)"
  "step_if Q True s (s\<lparr>results := []\<rparr>)"
proof -
  have "proactor_inv s \<Longrightarrow> proactor_inv (s\<lparr>results := []\<rparr>)"
    using cache_ok_append [of s "s\<lparr>results := []\<rparr>" "[]"] Q_evolves [OF on_results, of s]
    by (auto simp: proactor_inv_def futs_ok_def ops_ok_def results_ok_def cache_ok_def)
  then show "step_if Q True s (s\<lparr>results := []\<rparr>)" by (simp add: step_if_def on_results)
qed (simp_all add: step_if_def inv_frame on_log on_ring on_stopped on_loop)

end

text \<open>With what the calls of the ring keep, every method that starts nothing keeps it.\<close>

locale operating = framed +
  assumes on_flushing: "keeps (step_if Q True) (flush E)"
    and on_call: "keeps (step_if Q True) (ring_call (io_uring_wait_cqe E))"
      "keeps (step_if Q True) (ring_call (io_uring_peek_cqe E))"
      "keeps (step_if Q True) (ring_call (io_uring_wait_cqe_timeout E ts))"
      "keeps (step_if Q True) (ring_call (io_uring_cqe_seen E c))"
      "keeps (step_if Q True) (ring_call (io_uring_queue_exit E))"
begin

lemma keeps_consume: "keeps (step_if Q True) (consume E cqe)"
  by (simp add: consume_def calls.keeps_rules on_handle on_call)

sublocale polls: poller "step_if Q True" E "\<lambda>_ _. True"
  by unfold_locales (simp_all add: on_flushing on_call [unfolded keeps_wp] keeps_consume [unfolded keeps_wp] frames)

lemma keeps_stop_serving: "keeps (step_if Q True) (stop_serving E obj)"
  unfolding stop_serving_def
  by (intro calls.keeps_thenM stop_entries)
    (auto split: fileobj.split intro!: calls.keeps_raise calls.keeps_modM frames)

lemma close_entries: "keeps (step_if Q True) (bindM (getM (\<lambda>s. map snd (cache s))) (\<lambda>ps. forM ps (close_entry E)))"
proof (rule entries_loop)
  fix p t
  have log: "step_if Q P s u \<Longrightarrow> step_if Q P s (u\<lparr>handler_log := l\<rparr>)" for P s u l
    by (erule step_if_trans) (use frames(1) in auto)
  show "wp True (close_entry E p) t (\<lambda>_. step_if Q (\<forall>f. pc_future p = Some f \<longrightarrow> f < next_fut t) t)
      (\<lambda>_. step_if Q (\<forall>f. pc_future p = Some f \<longrightarrow> f < next_fut t) t)"
    by (cases "pc_future p")
      (auto simp: close_entry_def wp_catchM wp_readM wp_whenM wp_ret wp_raise log_handler_def wp_modM step_if_refl
      intro: log intro!: wp_mono [OF fut_cancel_unit])
qed

lemma keeps_close: "keeps (step_if Q True) (close E)"
proof -
  have last: "keeps (step_if Q True) (modM (\<lambda>s. s\<lparr>results := [], iouring := False\<rparr>))"
    using calls.step_trans [OF frames(5) frames(2)] by (intro calls.keeps_modM) simp
  have "keeps (step_if Q True) (thenM (bindM (getM (\<lambda>s. map snd (cache s))) (\<lambda>ps. forM ps (close_entry E)))
      (thenM (close_loop E) (thenM (ring_call (io_uring_queue_exit E))
        (modM (\<lambda>s. s\<lparr>results := [], iouring := False\<rparr>)))))"
    by (intro calls.keeps_thenM close_entries polls.keeps_close_loop on_call last)
  then show ?thesis
    by (auto simp: close_def keeps_def readM_def ret_def thenM_def bindM_def getM_def
      intro: step_if_refl split: if_splits)
qed

lemma keeps_set_loop: "keeps (step_if Q True) (set_loop debug)"
  by (auto simp: keeps_def set_loop_def modM_def frames)

end

text \<open>Where the world may change freely, so may everything that only acts on it.\<close>

locale running = framed +
  assumes on_world: "Q s (s\<lparr>world := w, pending_submit := b\<rparr>)"
begin

lemma world_frame:
  "step_if Q True s (s\<lparr>world := w, pending_submit := b\<rparr>)" "step_if Q True s (s\<lparr>world := w\<rparr>)"
proof -
  show *: "step_if Q True s (s\<lparr>world := w, pending_submit := b\<rparr>)" for b
    by (simp add: step_if_def inv_frame on_world)
  show "step_if Q True s (s\<lparr>world := w\<rparr>)" using * [of "pending_submit s"] by simp
qed

lemma keeps_ring_call: "keeps (step_if Q True) (ring_call m)"
proof -
  have "keeps (step_if Q True) (liftW m)"
    by (auto simp: keeps_def liftW_def zoomM_def world_frame split: option.splits)
  then show ?thesis by (auto simp: ring_call_def intro!: calls.keeps_rules)
qed

lemma keeps_flushing: "keeps (step_if Q True) (flush E)"
  unfolding keeps_wp
  by (auto intro!: wp_mono [OF wp_flush] world_frame simp: flush_ok_def flush_bad_def sub_frame_def)

end

sublocale running \<subseteq> operating
  by unfold_locales (rule keeps_flushing keeps_ring_call)+

section \<open>Reachable states\<close>

text \<open>
  \<open>api_call\<close>: a call of a public method with any arguments, or a cancellation of a future the
  proactor returned. A call may raise; the state it leaves is a state of the run all the same.
  \<open>api_step\<close>: a call, or a change of the world between calls.
\<close>

inductive api_call :: "'w env \<Rightarrow> 'w proactor \<Rightarrow> 'w proactor \<Rightarrow> bool" for E where
  step_recv: "recv E conn nbytes flags s = Some (r, t) \<Longrightarrow> api_call E s t"
| step_recv_into: "recv_into E conn buf flags s = Some (r, t) \<Longrightarrow> api_call E s t"
| step_recvfrom: "recvfrom E sock nbytes flags s = Some (r, t) \<Longrightarrow> api_call E s t"
| step_recvfrom_into: "recvfrom_into E sock buf flags s = Some (r, t) \<Longrightarrow> api_call E s t"
| step_sendto: "sendto E sock buf flags addr s = Some (r, t) \<Longrightarrow> api_call E s t"
| step_send: "send E conn buf flags s = Some (r, t) \<Longrightarrow> api_call E s t"
| step_accept: "accept E sock s = Some (r, t) \<Longrightarrow> api_call E s t"
| step_connect: "connect E sock address s = Some (r, t) \<Longrightarrow> api_call E s t"
| step_poll_add: "poll_add E conn events s = Some (r, t) \<Longrightarrow> api_call E s t"
| step_sendfile: "sendfile E sock conn offset count s = Some (r, t) \<Longrightarrow> api_call E s t"
| step_cancel_operation: "opr < next_op s \<Longrightarrow> cancel_operation E opr flags s = Some (r, t) \<Longrightarrow> api_call E s t"
| step_fut_cancel: "f < next_fut s \<Longrightarrow> fut_cancel E f s = Some (b, t) \<Longrightarrow> api_call E s t"
| step_select: "select E timeout s = Some (rs, t) \<Longrightarrow> api_call E s t"
| step_stop_serving: "stop_serving E obj s = Some (u, t) \<Longrightarrow> api_call E s t"
| step_close: "close E s = Some (u, t) \<Longrightarrow> api_call E s t"
| step_set_loop: "set_loop debug s = Some (u, t) \<Longrightarrow> api_call E s t"

inductive api_step :: "'w env \<Rightarrow> 'w proactor \<Rightarrow> 'w proactor \<Rightarrow> bool" for E where
  step_call: "api_call E s t \<Longrightarrow> api_step E s t"
| step_world: "api_step E s (s\<lparr>world := w\<rparr>)"

inductive reachable :: "'w env \<Rightarrow> 'w proactor \<Rightarrow> bool" for E where
  reachable_init: "init_proactor E entries flags (new_proactor w junk) = Some (r, s) \<Longrightarrow> reachable E s"
| reachable_step: "reachable E s \<Longrightarrow> api_step E s t \<Longrightarrow> reachable E t"

text \<open>A client of all public methods: the starting ones keep the relation as well.\<close>

inductive_set starting_methods :: "'w env \<Rightarrow> ('w, nat) pr set" for E where
  starting_recv: "recv E conn nbytes flags \<in> starting_methods E"
| starting_recv_into: "recv_into E conn buf flags \<in> starting_methods E"
| starting_recvfrom: "recvfrom E sock nbytes flags \<in> starting_methods E"
| starting_recvfrom_into: "recvfrom_into E sock buf flags \<in> starting_methods E"
| starting_sendto: "sendto E sock buf flags addr \<in> starting_methods E"
| starting_send: "send E conn buf flags \<in> starting_methods E"
| starting_accept: "accept E sock \<in> starting_methods E"
| starting_connect: "connect E sock address \<in> starting_methods E"
| starting_poll_add: "poll_add E conn events \<in> starting_methods E"
| starting_sendfile: "sendfile E sock conn offset count \<in> starting_methods E"

locale client = running +
  assumes on_cancel: "wp True (cancel_operation E opr flags) s
      (\<lambda>_. step_if Q (opr < next_op s) s) (\<lambda>_. step_if Q (opr < next_op s) s)"
    and on_start: "sq_laws E n \<Longrightarrow> m \<in> starting_methods E \<Longrightarrow> keeps (step_if Q True) m"
begin

lemma api_call_keeps:
  assumes laws: "sq_laws E n"
  shows "api_call E s t \<Longrightarrow> step_if Q True s t"
proof (induction rule: api_call.induct)
  case (step_cancel_operation opr s flags r t)
  then show ?case using wp_outcome [OF on_cancel step_cancel_operation(2)] by simp
next
  case (step_fut_cancel f s b t)
  then show ?case using wp_outcome [OF fut_cancel_if step_fut_cancel(2)] by simp
qed (blast intro: starting_methods.intros keepsD [OF on_start [OF laws]] keepsD [OF polls.keeps_select] keepsD [OF keeps_stop_serving]
    keepsD [OF keeps_close] keepsD [OF keeps_set_loop])+

lemma api_step_keeps: "sq_laws E n \<Longrightarrow> api_step E s t \<Longrightarrow> step_if Q True s t"
  by (erule api_step.cases) (simp_all add: api_call_keeps world_frame)

end

text \<open>The invariant itself is the instance for \<open>evolves\<close>.\<close>

lemma sound_step_if: "step_if evolves True s t = sound_step s t"
  by (simp add: step_if_def sound_step_def)

lemma sound_start:
  assumes "sq_laws E n" and "m \<in> starting_methods E"
  shows "keeps sound_step m"
proof -
  have "keeps grow_step m"
    using assms(2)
    by cases (auto intro: keeps_recv keeps_recv_into keeps_recvfrom keeps_recvfrom_into keeps_sendto keeps_send
      keeps_accept keeps_connect keeps_poll_add keeps_sendfile [OF assms(1)])
  then show ?thesis by (rule keeps_mono) (rule grow_sound)
qed

interpretation soundness: client evolves E for E :: "'w env"
proof
  fix s :: "'w proactor" and f assume "\<not> fut_done (futs s f)"
  from grow_if_step [OF settle_future_grow [OF this]]
  show "step_if evolves (f < next_fut s) s (set_fut_state f Cancelled s)"
    by (rule step_if_weaken) (simp add: grows_def)
next
  have *: "wp True (cancel_operation E opr flags) s
      (\<lambda>_. step_if evolves (opr < next_op s) s) (\<lambda>_. step_if evolves (opr < next_op s) s)" for opr flags s
    by (rule wp_mono [OF grow_cancel_operation]) (auto elim!: step_if_weaken simp: grows_def)
  show "wp True (cancel_operation E opr 0) s
      (\<lambda>_. step_if evolves (opr < next_op s) s) (\<lambda>_. step_if evolves (opr < next_op s) s)" for opr s by (rule *)
  show "wp True (cancel_operation E opr flags) s
      (\<lambda>_. step_if evolves (opr < next_op s) s) (\<lambda>_. step_if evolves (opr < next_op s) s)" for opr flags s by (rule *)
next
  fix cqe
  show "keeps (step_if evolves True) (handle_cqe E cqe)"
    using keeps_handle_cqe [of E cqe] by (simp add: keeps_def sound_step_if)
next
  fix n and m :: "('w, nat) pr"
  assume "sq_laws E n" and "m \<in> starting_methods E"
  from sound_start [OF this] show "keeps (step_if evolves True) m" by (simp add: keeps_def sound_step_if)
qed (simp_all add: evolves_frame evolves_refl evolves_trans)

lemma api_step_sound: "sq_laws E n \<Longrightarrow> api_step E s t \<Longrightarrow> sound_step s t"
  using soundness.api_step_keeps [of E n s t] by (simp add: sound_step_if)

lemma init_inv:
  "init_proactor E entries flags (new_proactor w junk) = Some (r, s) \<Longrightarrow> proactor_inv s"
  by (auto simp: init_proactor_def py_defs new_proactor_def inv_defs split: option.splits sum.splits prod.splits)

lemma reachable_inv:
  assumes "reachable E s" and "sq_laws E n"
  shows "1 \<le> user_data_counter s \<and> (user_data_counter s \<le> 2 ^ 64 \<longrightarrow> proactor_inv s)"
  using assms(1)
proof (induction rule: reachable.induct)
  case (reachable_init entries flags w junk r s)
  then have "proactor_inv s" by (rule init_inv)
  then show ?case by (auto simp: proactor_inv_def ops_ok_def)
next
  case (reachable_step s t)
  then have "sound_step s t" by (intro api_step_sound [OF assms(2)])
  then show ?case using reachable_step.IH by (auto simp: sound_step_def)
qed

end
