(* ===== verification/Uring_Behaviour.thy ===== *)
theory Uring_Behaviour
  imports Uring_Safety
begin

text \<open>
  What single calls do, beyond keeping the invariant: what a starting call registers, what a
  completion does to the future it belongs to, and how the polling loops end.
\<close>

section \<open>Starting calls\<close>

text \<open>
  \<open>registers\<close>: the call made one operation, one pending future and one cache entry under the
  next \<open>user_data\<close>, with a request that asks for exactly what the operation stands for.
  \<open>registers_nothing\<close>: it raised, and the cache and the submitter's list are as they were.
\<close>

definition registers :: "'w env \<Rightarrow> 'w proactor \<Rightarrow> nat \<Rightarrow> 'w proactor \<Rightarrow> bool" where
  "registers E s f t \<longleftrightarrow> f = next_fut s \<and> fut_state (futs t f) = Pending \<and>
     (\<exists>r w0 w. entry_filled E (user_data_counter s) 0 r w0 w \<and> world t = w \<and>
       asks (request_for (user_data_counter s) (ops t (next_op s))) r \<and>
       cache t = cache s @ [(user_data_counter s,
         \<lparr>pc_operation = next_op s, pc_future = Some f, pc_request = r\<rparr>)]) \<and>
     user_data_counter s \<notin> dict_keys (cache s) \<and>
     op_tags (ops t (next_op s)) = {user_data_counter s} \<and> results t = results s \<and>
     next_op t = Suc (next_op s) \<and> (\<forall>g < next_op s. ops t g = ops s g) \<and>
     next_fut t = Suc (next_fut s) \<and> (\<forall>g < next_fut s. futs t g = futs s g) \<and>
     user_data_counter t = user_data_counter s + 1 \<and> unsubmitted t = [] \<and> pending_submit t"

definition registers_nothing :: "'w proactor \<Rightarrow> 'w proactor \<Rightarrow> bool" where
  "registers_nothing s t \<longleftrightarrow> cache t = cache s \<and> unsubmitted t = [] \<and> results t = results s \<and>
     user_data_counter s \<le> user_data_counter t \<and> next_fut s \<le> next_fut t \<and> next_op s \<le> next_op t \<and>
     (\<forall>g < next_op s. ops t g = ops s g) \<and> (\<forall>f < next_fut s. futs t f = futs s f) \<and>
     (\<forall>f. next_fut s \<le> f \<and> f < next_fut t \<longrightarrow> fut_state (futs t f) = Pending)"

definition starts :: "'w env \<Rightarrow> ('w, nat) pr \<Rightarrow> bool" where
  "starts E m \<longleftrightarrow> (\<forall>s. proactor_inv s \<longrightarrow> wp True m s (registers E s) (\<lambda>_. registers_nothing s))"

text \<open>
  The single calls, and what each has to ask of the kernel, whatever memory was allocated for it:
  reads and writes at the current position of a file, a fresh writable buffer of the size asked
  for, an address only if one was given.
\<close>

datatype start_call =
    CallRecv fileobj int int
  | CallRecvInto fileobj pybuf int
  | CallRecvFrom socket int int
  | CallRecvFromInto socket pybuf int
  | CallSendTo socket pybuf int "pyAddress option"
  | CallSend fileobj pybuf int
  | CallAccept socket
  | CallConnect socket pyAddress
  | CallPollAdd fileobj int

fun run_call :: "'w env \<Rightarrow> start_call \<Rightarrow> ('w, nat) pr" where
  "run_call E (CallRecv conn n flags) = recv E conn n flags"
| "run_call E (CallRecvInto conn buf flags) = recv_into E conn buf flags"
| "run_call E (CallRecvFrom sock n flags) = recvfrom E sock n flags"
| "run_call E (CallRecvFromInto sock buf flags) = recvfrom_into E sock buf flags"
| "run_call E (CallSendTo sock buf flags addr) = sendto E sock buf flags addr"
| "run_call E (CallSend conn buf flags) = send E conn buf flags"
| "run_call E (CallAccept sock) = accept E sock"
| "run_call E (CallConnect sock address) = connect E sock address"
| "run_call E (CallPollAdd file events) = poll_add E file events"

definition fresh_buffer :: "int \<Rightarrow> pybuf \<Rightarrow> bool" where
  "fresh_buffer n b \<longleftrightarrow> 0 \<le> n \<and> \<not> buf_readonly b \<and> buf_nbytes b = nat n"

fun asked :: "start_call \<Rightarrow> KernelRequest \<Rightarrow> bool" where
  "asked (CallRecv (SockObj sock) n flags) q =
     (case q of RecvReq r \<Rightarrow> rcv_sock r = sock \<and> fresh_buffer n (rcv_buffer r) \<and> rcv_flags r = flags | _ \<Rightarrow> False)"
| "asked (CallRecv file n flags) q =
     (case q of ReadReq r \<Rightarrow> rd_file r = file \<and> fresh_buffer n (rd_buffer r) \<and> rd_offset r = OFFSET_CURRENT_POS | _ \<Rightarrow> False)"
| "asked (CallRecvInto (SockObj sock) buf flags) q =
     (case q of RecvReq r \<Rightarrow> rcv_sock r = sock \<and> rcv_buffer r = buf \<and> rcv_flags r = flags | _ \<Rightarrow> False)"
| "asked (CallRecvInto file buf flags) q =
     (case q of ReadReq r \<Rightarrow> rd_file r = file \<and> rd_buffer r = buf \<and> rd_offset r = OFFSET_CURRENT_POS | _ \<Rightarrow> False)"
| "asked (CallRecvFrom sock n flags) q =
     (case q of RecvFromReq r \<Rightarrow> rfr_sock r = sock \<and> fresh_buffer n (rfr_buffer r) \<and> rfr_flags r = flags | _ \<Rightarrow> False)"
| "asked (CallRecvFromInto sock buf flags) q =
     (case q of RecvFromReq r \<Rightarrow> rfr_sock r = sock \<and> rfr_buffer r = buf \<and> rfr_flags r = flags | _ \<Rightarrow> False)"
| "asked (CallSendTo sock buf flags addr) q =
     (case q of SendToReq r \<Rightarrow> sto_sock r = sock \<and> sto_buffer r = buf \<and> sto_flags r = flags \<and>
        (sto_sockaddr r \<noteq> None \<longleftrightarrow> addr_truthy addr) | _ \<Rightarrow> False)"
| "asked (CallSend (SockObj sock) buf flags) q =
     (case q of SendReq r \<Rightarrow> snd_sock r = sock \<and> snd_buffer r = buf \<and> snd_flags r = flags | _ \<Rightarrow> False)"
| "asked (CallSend file buf flags) q =
     (case q of WriteReq r \<Rightarrow> wr_file r = file \<and> wr_buffer r = buf \<and> wr_offset r = OFFSET_CURRENT_POS | _ \<Rightarrow> False)"
| "asked (CallAccept sock) q = (case q of AcceptReq r \<Rightarrow> acc_sock r = sock \<and> acc_flags r = SOCK_CLOEXEC | _ \<Rightarrow> False)"
| "asked (CallConnect sock address) q = (case q of ConnectReq r \<Rightarrow> con_sock r = sock | _ \<Rightarrow> False)"
| "asked (CallPollAdd file events) q =
     (case q of PollAddReq r \<Rightarrow> pol_file r = file \<and> pol_poll_mask r = events | _ \<Rightarrow> False)"

lemma asked_unpinned: "asked c (unpinned q) = asked c q"
  by (induction c q rule: asked.induct) (auto split: KernelRequest.split)

text \<open>The same with the kind of request.\<close>

definition starts_as :: "'w env \<Rightarrow> (KernelRequest \<Rightarrow> bool) \<Rightarrow> ('w, nat) pr \<Rightarrow> bool" where
  "starts_as E P m \<longleftrightarrow> (\<forall>s. proactor_inv s \<longrightarrow> wp True m s
     (\<lambda>f t. registers E s f t \<and> P (request_for (user_data_counter s) (ops t (next_op s))))
     (\<lambda>_. registers_nothing s))"

lemma starts_asD: "starts_as E P m \<Longrightarrow> starts E m"
  unfolding starts_as_def starts_def by (blast intro: wp_mono)

lemma registers_world:
  "registers E (s\<lparr>world := w\<rparr>) = registers E s"
  "registers_nothing (s\<lparr>world := w\<rparr>) = registers_nothing s"
  "registers_nothing s (s\<lparr>world := w\<rparr>) = (unsubmitted s = [])"
  by (auto simp: registers_def registers_nothing_def fun_eq_iff)

lemma wp_start_request:
  assumes m: "requesting E m q"
  shows "wp True (start op m ud) s (\<lambda>f t. (f = next_fut s \<and> started E op ud s t) \<and>
      (\<exists>r. asks q r \<and> cache t = register (next_op s) (Some (next_fut s)) (unsubmitted s @ [(ud, r)]) (cache s)))
    (\<lambda>_ t. not_started op s t \<and> True)"
proof (rule wp_conj [OF wp_start])
  show m': "submit_method E m" using m by (simp add: requesting_def)
  show "wp True (start op m ud) s (\<lambda>f t. \<exists>r. asks q r \<and>
      cache t = register (next_op s) (Some (next_fut s)) (unsubmitted s @ [(ud, r)]) (cache s)) (\<lambda>_ _. True)"
    unfolding start_def
    by (simp add: wp_rules new_op_def new_future_def submit_def)
      (rule wp_mono [OF wp_conj [OF submit_method.method_runs [OF m'] requesting.method_request [OF m]]],
        auto simp: prepared_def)
qed

lemma starts_begin:
  assumes m: "\<And>ud. requesting E (m ud) (request_for ud (op ud))" and op: "\<And>ud. op_tags (op ud) = {ud}"
    and P: "\<And>ud. P (request_for ud (op ud))"
  shows "starts_as E P (bindM next_user_data (\<lambda>ud. start (op ud) (m ud) ud))"
  unfolding starts_as_def
proof (intro allI impI)
  fix s :: "'a proactor" assume inv: "proactor_inv s"
  let ?c = "user_data_counter s" and ?s1 = "s\<lparr>user_data_counter := user_data_counter s + 1\<rparr>"
  have us: "unsubmitted s = []" and fr: "?c \<notin> dict_keys (cache s)"
    using inv inv_fresh [OF inv order_refl] by (auto simp: proactor_inv_def)
  let ?Q = "\<lambda>f t. registers E s f t \<and> P (request_for ?c (ops t (next_op s)))"
  have "?Q (next_fut s) t" if t: "started E (op ?c) ?c ?s1 t" and r: "asks (request_for ?c (op ?c)) r"
      "cache t = register (next_op s) (Some (next_fut s)) [(?c, r)] (cache s)" for t r
    using t r us update_fresh [OF fr] fr op P unfolding started_def registers_def by auto
  moreover have "registers_nothing s t" if t: "not_started (op ?c) ?s1 t" for t
    using t us unfolding not_started_def registers_nothing_def by auto
  ultimately have "wp True (start (op ?c) (m ?c) ?c) ?s1 ?Q (\<lambda>_. registers_nothing s)"
    by (auto simp: us intro!: wp_mono [OF wp_start_request [OF m]])
  then show "wp True (bindM next_user_data (\<lambda>ud. start (op ud) (m ud) ud)) s
      ?Q (\<lambda>_. registers_nothing s)"
    by (simp add: wp_rules next_user_data_def)
qed

text \<open>The methods of the submitter, each with the request it prepares.\<close>

lemmas requesting_methods =
  recv_method.requesting_axioms read_method.requesting_axioms recvfrom_method.requesting_axioms
  sendto_method.requesting_axioms send_method.requesting_axioms write_method.requesting_axioms
  accept_method.requesting_axioms connect_method.requesting_axioms poll_add_method.requesting_axioms

text \<open>Allocating before starting changes the world only.\<close>

lemma starts_after:
  fixes E :: "'a env"
  assumes "\<And>x. starts_as E P (f x)"
  shows "starts_as E P (bindM (liftW m) f)"
  unfolding starts_as_def
proof (intro allI impI)
  fix s :: "'a proactor" assume inv: "proactor_inv s"
  let ?Q = "\<lambda>f t. registers E s f t \<and> P (request_for (user_data_counter s) (ops t (next_op s)))"
  have us: "unsubmitted s = []" using inv by (simp add: proactor_inv_def)
  have "wp True (f x) (s\<lparr>world := w\<rparr>) ?Q (\<lambda>_. registers_nothing s)" for x w
    using assms [of x] inv unfolding starts_as_def
    by (auto simp: inv_frame registers_world elim!: allE [where x = "s\<lparr>world := w\<rparr>"])
  moreover have "wp True m (world s) (\<lambda>_ _. True) (\<lambda>_ _. True)" by (rule wpI) auto
  ultimately show "wp True (bindM (liftW m) f) s ?Q (\<lambda>_. registers_nothing s)"
    by (auto simp: wp_bindM wp_liftW registers_world us elim!: wp_mono)
qed

lemma starts_raise: "starts_as E P (raise e)"
  by (auto simp: starts_as_def wp_raise registers_nothing_def proactor_inv_def)

lemma starts_bytearray: "(\<And>b. fresh_buffer n b \<Longrightarrow> starts_as E P (f b)) \<Longrightarrow> starts_as E P (bindM (bytearray E n) f)"
  by (auto simp: bytearray_def bindM_assoc fresh_buffer_def intro!: starts_raise starts_after)

lemmas starts_intros = starts_begin starts_after starts_raise starts_bytearray requesting_methods

lemma starts_recv: "starts_as E (asked (CallRecv conn n flags)) (recv E conn n flags)"
  by (cases conn) (auto simp: recv_def op_defs intro!: starts_intros)

lemma starts_recv_into: "starts_as E (asked (CallRecvInto conn buf flags)) (recv_into E conn buf flags)"
  by (cases conn) (auto simp: recv_into_def op_defs intro!: starts_intros)

lemma starts_recvfrom: "starts_as E (asked (CallRecvFrom sock n flags)) (recvfrom E sock n flags)"
  by (auto simp: recvfrom_def op_defs intro!: starts_intros)

lemma starts_recvfrom_into: "starts_as E (asked (CallRecvFromInto sock buf flags)) (recvfrom_into E sock buf flags)"
  by (auto simp: recvfrom_into_def op_defs intro!: starts_intros)

lemma starts_sendto: "starts_as E (asked (CallSendTo sock buf flags addr)) (sendto E sock buf flags addr)"
  by (auto simp: sendto_def op_defs bindM_assoc intro!: starts_intros)

lemma starts_send: "starts_as E (asked (CallSend conn buf flags)) (send E conn buf flags)"
  by (cases conn) (auto simp: send_def op_defs intro!: starts_intros)

lemma starts_accept: "starts_as E (asked (CallAccept sock)) (accept E sock)"
  by (auto simp: accept_def op_defs intro!: starts_intros)

lemma starts_connect: "starts_as E (asked (CallConnect sock address)) (connect E sock address)"
  by (auto simp: connect_def op_defs intro!: starts_intros)

lemma starts_poll_add: "starts_as E (asked (CallPollAdd conn events)) (poll_add E conn events)"
  by (auto simp: poll_add_def op_defs intro!: starts_intros)

lemmas starts_as_all = starts_recv starts_recv_into starts_recvfrom starts_recvfrom_into starts_sendto
  starts_send starts_accept starts_connect starts_poll_add

lemmas starts_all = starts_as_all [THEN starts_asD]

lemma starts_call: "starts_as E (asked c) (run_call E c)"
  by (cases c) (simp_all add: starts_as_all)

section \<open>Completions\<close>

lemma cached_pop:
  assumes inv: "proactor_inv s" and p: "(ud, p) \<in> set (cache s)"
  shows "dict_pop ud (cache s) = Some (p, AList.delete ud (cache s))"
  using assms by (simp add: dict_pop_def proactor_inv_def cache_ok_def)

text \<open>The completion of a cancellation, which has no future, is at most logged.\<close>

lemma handle_futureless:
  assumes "proactor_inv s" and "(cqe_user_data cqe, p) \<in> set (cache s)" and "pc_future p = None"
  shows "handle_cqe E cqe s = Some (Inr (), s\<lparr>cache := AList.delete (cqe_user_data cqe) (cache s),
     handler_log := handler_log s @
       (if cqe_res cqe < 0 \<and> loop s \<noteq> None \<and> \<not> (cqe_res cqe = - ENOENT \<and> all_seen (ops s (pc_operation p)))
        then [CancelFailed (pc_operation p) (get_os_error (cqe_res cqe))] else [])\<rparr>)"
  by (simp add: handle_cqe_def cached_pop [OF assms(1,2)] assms(3) Let_def log_handler_def py_defs)

lemma handle_unknown:
  assumes "cqe_user_data cqe \<notin> dict_keys (cache s)"
  shows "handle_cqe E cqe s = Some (Inr (), if loop s = Some True
     then s\<lparr>handler_log := handler_log s @ [UnexpectedEvent (cqe_user_data cqe) (cqe_res cqe)]\<rparr> else s)"
  by (simp add: handle_cqe_def iffD2 [OF dict_pop_None assms] Let_def log_handler_def py_defs)

lemma handle_future:
  assumes inv: "proactor_inv s" and p: "(cqe_user_data cqe, p) \<in> set (cache s)" and f: "pc_future p = Some f"
    and m: "mark_seen E (cqe_user_data cqe) (ops s (pc_operation p), world s) = Some (Inr (), (op', w))"
  shows "handle_cqe E cqe s =
    (if is_stopped (marked s (cqe_user_data cqe) p op' w) (get_file_obj op')
     then bindM (fut_cancel E f) (\<lambda>_. ret ()) (marked s (cqe_user_data cqe) p op' w)
     else run_operation E cqe (pc_operation p) f (marked s (cqe_user_data cqe) p op' w))"
  using cached_pop [OF inv p] f m
  by (simp add: handle_cqe_def Let_def readM_def thenM_def bindM_def modM_def mark_seen_at_def zoomM_def marked_def)

lemma run_done: "fut_done (futs s f) \<Longrightarrow> run_operation E cqe opr f s = Some (Inr (), s)"
  by (simp add: run_operation_def py_defs)

lemma run_settled:
  assumes "\<not> fut_done (futs s f)" and "operate E (ops s opr) (cqe_res cqe) (world s) = Some (Inr a, w)"
    and "a = SetResult v \<and> st = Finished (Inr v) \<or> a = SetException e \<and> st = Finished (Inl e)"
  shows "run_operation E cqe opr f s = Some (Inr (), (set_fut_state f st (s\<lparr>world := w\<rparr>))\<lparr>results := results s @ [f]\<rparr>)"
  using assms
  by (auto simp: run_operation_def py_defs apply_settle_def set_fut_state_def fut_done_def)

lemma run_outcomes:
  "wp True (run_operation E cqe opr f) s
    (\<lambda>_ t. (\<exists>w. t = s\<lparr>world := w\<rparr>) \<or> (\<not> fut_done (futs s f) \<and>
       (\<exists>w v. t = (set_fut_state f (Finished v) (s\<lparr>world := w\<rparr>))\<lparr>results := results s @ [f]\<rparr>)))
    (\<lambda>_ t. \<exists>w. t = s\<lparr>world := w\<rparr>)"
proof (cases "fut_done (futs s f)")
  case True
  then show ?thesis by (simp add: run_operation_def wp_rules) (rule exI [of _ "world s"], simp)
next
  case False
  have set_: "wp True (apply_settle f a) u (\<lambda>_ t. t = u \<and> a = SetNothing \<or> (\<exists>v. t = set_fut_state f (Finished v) u))
      (\<lambda>_ _. False)" if "futs u = futs s" for a u
    using that False by (cases a) (auto simp: apply_settle_def wp_rules)
  have fr: "fut_done (futs (set_fut_state f (Finished v) u) f)" "results (set_fut_state f (Finished v) u) = results u" for v u
    by (simp_all add: set_fut_state_def fut_done_def)
  have "wp True (apply_settle f a) (s\<lparr>world := w\<rparr>)
      (\<lambda>_ t. wp True (readM (\<lambda>s. whenM (fut_done (futs s f)) (modM (\<lambda>s. s\<lparr>results := results s @ [f]\<rparr>)))) t
        (\<lambda>_ t. (\<exists>w. t = s\<lparr>world := w\<rparr>) \<or>
          (\<exists>w v. t = (set_fut_state f (Finished v) (s\<lparr>world := w\<rparr>))\<lparr>results := results s @ [f]\<rparr>))
        (\<lambda>_ t. \<exists>w. t = s\<lparr>world := w\<rparr>))
      (\<lambda>_ t. \<exists>w. t = s\<lparr>world := w\<rparr>)" for a w
    by - (rule wp_mono [OF set_], use False in \<open>auto simp: wp_rules fr\<close>, metis)
  then show ?thesis
    using False
    by (simp add: run_operation_def wp_readM [where f = "\<lambda>s. if _ s then _ s else _ s"] wp_thenM wp_bindM wp_liftW)
      (rule wpI, auto)
qed

lemma operate_error: "res < 0 \<Longrightarrow> operate E op res w = Some (Inr (SetException (OSError (- res))), w)"
  by (cases op) (simp_all add: sendfile_operate_def get_os_error_def ret_def)

text \<open>Only a linked pair with an entry still to come leaves its future alone.\<close>

lemma operate_nothing:
  assumes "operate E op res w = Some (Inr SetNothing, w')" and "op_wf op"
  shows "w' = w \<and> (\<exists>u \<in> op_tags op. u \<notin> op_seen op)"
  using assms
  by (cases op) (auto simp: sendfile_operate_def op_defs bindM_def ret_def split: if_splits option.splits sum.splits)

lemma cancel_done:
  "wp True (bindM (fut_cancel E f) (\<lambda>_. ret ())) s (\<lambda>_ t. fut_done (futs t f)) (\<lambda>_ _. True)"
proof -
  have "wp True m s (\<lambda>_ _. True) (\<lambda>_ _. True)" for m :: "('a, unit) pr" and s
    by (rule wpI) auto
  then show ?thesis
    by (auto simp: fut_cancel_def wp_bindM wp_getM wp_thenM wp_whenM wp_ret base_cancel_def wp_actM fut_done_def
      elim!: wp_mono)
qed

lemma no_lost_future:
  assumes inv: "proactor_inv s" and p: "(cqe_user_data cqe, p) \<in> set (cache s)" and f: "pc_future p = Some f"
  shows "wp True (handle_cqe E cqe) s
    (\<lambda>_ t. fut_done (futs t f) \<or> (\<exists>u q. (u, q) \<in> set (cache t) \<and> pc_future q = Some f)) (\<lambda>_ _. True)"
proof (rule wpI)
  fix x t assume run: "handle_cqe E cqe s = Some (Inr x, t)"
  let ?ud = "cqe_user_data cqe" and ?op = "pc_operation p"
  from inv p have st: "entry_static s ?ud p" and li: "entry_live s ?ud p"
    by (auto simp: proactor_inv_def dest: cache_okD)
  then have own: "?ud \<in> op_tags (ops s ?op)" and wf: "op_wf (ops s ?op)"
    using inv f by (auto simp: entry_static_def proactor_inv_def ops_ok_def)
  obtain r op' w where m: "mark_seen E ?ud (ops s ?op, world s) = Some (r, (op', w))"
    using mark_seen_returns [of E ?ud "ops s ?op" "world s"] by (cases "mark_seen E ?ud (ops s ?op, world s)") auto
  note mk = mark_seen_own [OF own m]
  let ?t = "marked s ?ud p op' w"
  show "fut_done (futs t f) \<or> (\<exists>u q. (u, q) \<in> set (cache t) \<and> pc_future q = Some f)"
  proof (cases r)
    case (Inl e)
    then have "handle_cqe E cqe s = Some (Inl e, ?t)"
      using cached_pop [OF inv p] f m
      by (simp add: handle_cqe_def Let_def readM_def thenM_def bindM_def modM_def mark_seen_at_def zoomM_def marked_def)
    then show ?thesis using run by simp
  next
    case (Inr u)
    then have h: "(if is_stopped ?t (get_file_obj op') then bindM (fut_cancel E f) (\<lambda>_. ret ()) ?t
        else run_operation E cqe ?op f ?t) = Some (Inr x, t)"
      using run handle_future [OF inv p f, of E op' w] m by simp
    show ?thesis
    proof (cases "is_stopped ?t (get_file_obj op') \<or> fut_done (futs ?t f)")
      case True
      then show ?thesis using h wp_Inr [OF cancel_done] run_done [of ?t f] by (auto split: if_splits)
    next
      case False
      then have nd: "\<not> fut_done (futs ?t f)" and rn: "run_operation E cqe ?op f ?t = Some (Inr x, t)"
        using h by auto
      obtain a v where o: "operate E op' (cqe_res cqe) w = Some (Inr a, v)"
        using rn nd by (auto simp: run_operation_def readM_def thenM_def bindM_Inr_iff liftW_Inr_iff marked_def)
      show ?thesis
      proof (cases a)
        case SetNothing
        from operate_nothing [OF o [unfolded SetNothing]] mk wf obtain u where
          u: "u \<in> op_tags op'" "u \<notin> op_seen op'" by blast
        then have "u \<in> op_tags (ops s ?op) - op_seen (ops s ?op)" and "u \<noteq> ?ud" using mk by auto
        then obtain q where q: "(u, q) \<in> set (cache s)" "pc_future q = Some f"
          using li f by (auto simp: entry_live_def)
        have "cache t = AList.delete ?ud (cache s)"
          using rn nd o SetNothing by (auto simp: run_operation_def marked_def py_defs apply_settle_def)
        then have "(u, q) \<in> set (cache t)" using q \<open>u \<noteq> ?ud\<close> by (auto simp: AList.delete_eq)
        then show ?thesis using q by blast
      next
        case (SetResult y)
        then show ?thesis using rn run_settled [OF nd, of E ?op cqe a v y "Finished (Inr y)"] o
          by (auto simp: marked_def set_fut_state_def fut_done_def)
      next
        case (SetException e)
        then show ?thesis using rn run_settled [OF nd, of E ?op cqe a v _ "Finished (Inl e)" e] o
          by (auto simp: marked_def set_fut_state_def fut_done_def)
      qed
    qed
  qed
qed simp

section \<open>Polling\<close>

text \<open>The reference of \<open>peek_loop\<close>: a list of completions, each peeked, handled and marked as seen.\<close>

inductive drained :: "'w env \<Rightarrow> 'w proactor \<Rightarrow> c_cqe list \<Rightarrow> 'w proactor \<Rightarrow> bool" for E where
  drained_end: "ring_call (io_uring_peek_cqe E) s = Some (Inl (OSError EAGAIN), t) \<Longrightarrow> drained E s [] t"
| drained_next: "ring_call (io_uring_peek_cqe E) s = Some (Inr c, s1) \<Longrightarrow>
    consume E c s1 = Some (Inr (), s2) \<Longrightarrow> drained E s2 cs t \<Longrightarrow> drained E s (c # cs) t"

inductive_cases drained_NilE: "drained E s [] t"
inductive_cases drained_ConsE: "drained E s (c # cs) t"

lemma peek_loop_drained: "drained E s cs t \<Longrightarrow> peek_loop E s = Some (Inr (), t)"
proof (induction rule: drained.induct)
  case (drained_end s t)
  then show ?case by (simp add: peek_loop.simps)
next
  case (drained_next s c s1 s2 cs t)
  then show ?case by (subst peek_loop.simps) simp
qed

lemma drained_peek_loop:
  assumes run: "peek_loop E s = Some (r, t)"
  shows "r = Inr () \<longrightarrow> (\<exists>cs. drained E s cs t)"
proof -
  have "fst (r, t) = Inr () \<longrightarrow> (\<exists>cs. drained E s cs (snd (r, t)))"
  proof (rule peek_loop.raw_induct [where P = "\<lambda>E s y. fst y = Inr () \<longrightarrow> (\<exists>cs. drained E s cs (snd y))", OF _ run],
      goal_cases)
    case (1 f E s y)
    show ?case
    proof
      assume y: "fst y = Inr ()"
      obtain p s1 where p: "ring_call (io_uring_peek_cqe E) s = Some (p, s1)"
        using "1"(2) by (auto split: option.splits)
      show "\<exists>cs. drained E s cs (snd y)"
      proof (cases p)
        case (Inl e)
        then have "e = OSError EAGAIN" "snd y = s1" using "1"(2) p y by (auto split: if_splits)
        then show ?thesis using drained_end p Inl by blast
      next
        case (Inr c)
        obtain q s2 where q: "consume E c s1 = Some (q, s2)"
          using "1"(2) p Inr by (auto split: option.splits)
        have "q = Inr ()" using "1"(2) p Inr q y by (cases q) auto
        then have "f E s2 = Some y" using "1"(2) p Inr q by simp
        then obtain cs where "drained E s2 cs (snd y)" using "1"(1) y by blast
        then show ?thesis using drained_next p q Inr \<open>q = Inr ()\<close> by blast
      qed
    qed
  qed
  then show ?thesis by simp
qed

lemma peek_loop_iff: "peek_loop E s = Some (Inr (), t) \<longleftrightarrow> (\<exists>cs. drained E s cs t)"
  using peek_loop_drained drained_peek_loop [of E s "Inr ()" t] by auto

text \<open>\<open>taken\<close>: a completion was handled and marked as seen, and the queue drained after it.\<close>

definition taken :: "'w env \<Rightarrow> c_cqe \<Rightarrow> 'w proactor \<Rightarrow> 'w proactor \<Rightarrow> bool" where
  "taken E c s t \<longleftrightarrow> (\<exists>u cs. consume E c s = Some (Inr (), u) \<and> drained E u cs t)"

lemma taken_iff: "thenM (consume E c) (peek_loop E) s = Some (Inr (), t) \<longleftrightarrow> taken E c s t"
  by (auto simp: thenM_Inr_iff taken_def peek_loop_iff)

lemma poll_iff:
  "poll E timeout s = Some (Inr (), t) \<longleftrightarrow> (\<exists>u. flush E s = Some (Inr (), u) \<and> (case timeout of
      None \<Rightarrow> \<exists>c v. wait_loop E u = Some (Inr c, v) \<and> taken E c v t
    | Some \<tau> \<Rightarrow> if 0 < \<tau>
        then wait_timeout E \<tau> u = Some (Inr None, t) \<or> (\<exists>c v. wait_timeout E \<tau> u = Some (Inr (Some c), v) \<and> taken E c v t)
        else \<exists>cs. drained E u cs t))"
proof -
  have wait: "(\<exists>x v. wait_timeout E \<tau> u = Some (Inr x, v) \<and>
      (case x of None \<Rightarrow> ret () | Some c \<Rightarrow> thenM (consume E c) (peek_loop E)) v = Some (Inr (), t)) \<longleftrightarrow>
    wait_timeout E \<tau> u = Some (Inr None, t) \<or> (\<exists>c v. wait_timeout E \<tau> u = Some (Inr (Some c), v) \<and> taken E c v t)" for \<tau> u
    by (auto simp: taken_iff ret_Inr_iff split: option.splits)
  show ?thesis
    by (cases timeout)
      (simp_all add: poll_def thenM_Inr_iff [of "flush E"] bindM_Inr_iff taken_iff peek_loop_iff wait)
qed

lemma wait_loop_outcome: "wp True (wait_loop E) s (\<lambda>_ _. True) (\<lambda>e _. e \<noteq> OSError EINTR)"
proof (rule wpI)
  fix e t assume run: "wait_loop E s = Some (Inl e, t)"
  have "fst (Inl e :: exn + c_cqe, t) \<noteq> Inl (OSError EINTR)"
  proof (rule wait_loop.raw_induct [where P = "\<lambda>E s y. fst y \<noteq> Inl (OSError EINTR)", OF _ run], goal_cases)
    case (1 f E s y)
    then show ?case by (cases y) (auto split: option.splits sum.splits if_splits, blast)
  qed
  then show "e \<noteq> OSError EINTR" by simp
qed simp

lemma wait_returns:
  fixes m :: "'w \<Rightarrow> nat"
  assumes budget: "\<And>w c w'. e_wait_cqe E w = (c, w') \<Longrightarrow> sint (fst c) = - EINTR \<Longrightarrow> m w' < m w"
  shows "\<exists>r t. wait_loop E s = Some (r, t)"
proof (induction "m (world s)" arbitrary: s rule: less_induct)
  case less
  obtain c w where c: "e_wait_cqe E (world s) = (c, w)" by fastforce
  show ?case
  proof (cases "iouring s \<and> sint (fst c) = - EINTR")
    case True
    then have "m (world (s\<lparr>world := w\<rparr>)) < m (world s)" using budget [OF c] by simp
    then obtain r t where "wait_loop E (s\<lparr>world := w\<rparr>) = Some (r, t)" using less by blast
    then show ?thesis
      using True c by (subst wait_loop.simps)
        (simp add: ring_call_def io_uring_wait_cqe_def py_defs check_res_def split: prod.split)
  next
    case False
    then show ?thesis
      using c by (subst wait_loop.simps)
        (auto simp: ring_call_def io_uring_wait_cqe_def py_defs check_res_def split: prod.split)
  qed
qed

lemma timeout_parts:
  assumes "0 < t"
  shows "0 \<le> timeout_seconds t \<and> 0 \<le> timeout_nanoseconds t \<and> timeout_nanoseconds t < 1000000000 \<and>
    of_int (timeout_seconds t * 1000000000 + timeout_nanoseconds t) \<le> t * 1000000000 \<and>
    t * 1000000000 < of_int (timeout_seconds t * 1000000000 + timeout_nanoseconds t + 1)"
proof -
  let ?f = "(t - of_int (timeout_seconds t)) * 1000000000"
  have f: "0 \<le> t - of_int (timeout_seconds t)" "t - of_int (timeout_seconds t) < 1"
    by (auto simp: timeout_seconds_def) linarith
  have n: "of_int (timeout_nanoseconds t) \<le> ?f" "?f < of_int (timeout_nanoseconds t) + 1"
    by (auto simp: timeout_nanoseconds_def) linarith
  have "0 \<le> ?f" "?f < 1000000000" using f by auto
  then have "0 \<le> timeout_nanoseconds t" "timeout_nanoseconds t < 1000000000"
    unfolding timeout_nanoseconds_def by (auto simp: floor_less_iff)
  moreover have "0 \<le> timeout_seconds t" using assms by (simp add: timeout_seconds_def)
  ultimately show ?thesis using n by (simp add: algebra_simps)
qed

lemma poll_interrupted:
  assumes "flush E s = Some (Inr (), s1)" and "0 < t" and "timeout_seconds t \<le> 9223372036854775807"
    and "ring_call (io_uring_wait_cqe_timeout E
       \<lparr>tv_sec = timeout_seconds t, tv_nsec = timeout_nanoseconds t\<rparr>) s1 = Some (Inl (OSError n), s2)"
    and "n = ETIME \<or> n = EINTR"
  shows "poll E (Some t) s = Some (Inr (), s2)"
proof -
  have "c_int64 (timeout_seconds t) = Inr (timeout_seconds t)" "c_int64 (timeout_nanoseconds t) = Inr (timeout_nanoseconds t)"
    using timeout_parts [OF assms(2)] assms(3) by (auto simp: c_int64_def)
  then have "new_kernel_timespec (timeout_seconds t) (timeout_nanoseconds t) w =
      Some (Inr \<lparr>tv_sec = timeout_seconds t, tv_nsec = timeout_nanoseconds t\<rparr>, w)" for w :: 'a
    by (simp add: new_kernel_timespec_def bindM_def ofE_def ret_def)
  then have "liftW (new_kernel_timespec (timeout_seconds t) (timeout_nanoseconds t)) s1 =
      Some (Inr \<lparr>tv_sec = timeout_seconds t, tv_nsec = timeout_nanoseconds t\<rparr>, s1)"
    by (simp add: liftW_def zoomM_def)
  then have "wait_timeout E t s1 = Some (Inr None, s2)"
    using assms(4,5) by (auto simp: wait_timeout_def bindM_def catchM_def ret_def)
  then show ?thesis
    using assms(1,2) by (simp add: poll_def thenM_def bindM_def ret_def)
qed

lemma select_pending: "results s \<noteq> [] \<Longrightarrow> select E t s = Some (Inr (results s), s\<lparr>results := []\<rparr>)"
  by (simp add: select_def py_defs)

lemma select_clears: "wp True (select E timeout) s (\<lambda>_ t. results t = []) (\<lambda>_ _. True)"
proof -
  have "wp True m s (\<lambda>_ _. True) (\<lambda>_ _. True)" for m :: "('a, unit) pr" and s
    by (rule wpI) auto
  then show ?thesis
    by (auto simp: select_def wp_thenM wp_actM elim!: wp_mono)
qed

section \<open>Closing\<close>

lemma close_again: "\<not> iouring s \<Longrightarrow> close E s = Some (Inr (), s)"
  by (simp add: close_def py_defs)

lemma close_loop_empty:
  assumes run: "close_loop E s = Some (r, t)"
  shows "r = Inr () \<longrightarrow> cache t = []"
proof -
  have "fst (r, t) = Inr () \<longrightarrow> cache (snd (r, t)) = []"
    by (rule close_loop.raw_induct [where P = "\<lambda>E s y. fst y = Inr () \<longrightarrow> cache (snd y) = []", OF _ run])
      (auto split: option.splits sum.splits if_splits)
  then show ?thesis by simp
qed

lemma close_outcome:
  "wp True (close E) s (\<lambda>_ t. \<not> iouring t \<and> (iouring s \<longrightarrow> cache t = [] \<and> results t = [])) (\<lambda>_ _. True)"
proof -
  have top: "wp True m s (\<lambda>_ _. True) (\<lambda>_ _. True)" for m :: "('a, unit) pr" and s
    by (rule wpI) auto
  have cl: "wp True (close_loop E) s (\<lambda>_ t. cache t = []) (\<lambda>_ _. True)" for s
    by (rule wpI) (use close_loop_empty in fastforce)+
  have "wp True (thenM (close_loop E) (thenM (ring_call (io_uring_queue_exit E))
      (modM (\<lambda>s. s\<lparr>results := [], iouring := False\<rparr>)))) s
      (\<lambda>_ t. \<not> iouring t \<and> cache t = [] \<and> results t = []) (\<lambda>_ _. True)" for s
    by (auto simp: wp_thenM wp_modM ring_call_def wp_readM wp_raise wp_liftW io_uring_queue_exit_def
      intro!: wp_mono [OF cl])
  then show ?thesis
    by (auto simp: close_def wp_readM wp_ret wp_thenM [where m = "forM _ _"] elim!: wp_mono [OF top] intro!: wp_mono [OF top]
      dest: wp_mono)
qed

section \<open>Cancelling\<close>

lemma cancel_twice:
  "fut_state (futs s f) = Cancelled \<Longrightarrow> fut_cancel E f s = Some (Inr False, s)"
  by (simp add: fut_cancel_def py_defs base_cancel_def fut_done_def)

text \<open>
  A cancellation that is sent asks for an entry of the operation that has not completed, under
  a \<open>user_data\<close> of its own; a cancellation of an operation that is complete sends nothing.
\<close>

lemma cancel_target:
  assumes inv: "proactor_inv s" and opr: "opr < next_op s"
  shows "wp True (cancel_operation E opr flags) s
     (\<lambda>_ t. if op_tags (ops s opr) \<subseteq> op_seen (ops s opr) then t = s
            else \<exists>ud \<in> op_tags (ops s opr) - op_seen (ops s opr). cache t = cache s @
              [(user_data_counter s, \<lparr>pc_operation = opr, pc_future = None,
                 pc_request = Cancel64Req \<lparr>can_user_data = ud, can_flags = flags\<rparr>\<rparr>)])
     (\<lambda>_ t. cache t = cache s)"
proof -
  have us: "unsubmitted s = []" and fr: "user_data_counter s \<notin> dict_keys (cache s)"
    using inv inv_fresh [OF inv order_refl] by (auto simp: proactor_inv_def)
  have wf: "op_wf (ops s opr)" and pos: "\<And>u. u \<in> op_tags (ops s opr) \<Longrightarrow> 1 \<le> u"
    using inv opr by (auto simp: proactor_inv_def ops_ok_def)
  show ?thesis
  proof (rule wp_mono [OF wp_cancel_operation], goal_cases)
    case (1 x t)
    then show ?case
    proof (cases "get_user_data (ops s opr)")
      case None
      then show ?thesis using 1 get_user_data_None [OF wf] by simp
    next
      case (Some ud)
      have own: "ud \<in> op_tags (ops s opr)" and new: "ud \<notin> op_seen (ops s opr)"
        using get_user_data_own [OF Some] get_user_data_unseen [OF wf Some] by auto
      have "ud \<noteq> 0" using pos [OF own] by simp
      then show ?thesis
        using 1 Some own new us update_fresh [OF fr] by (auto simp: cancel_sent_def)
    qed
  next
    case (2 e t)
    then show ?case by (auto simp: sub_frame_def)
  qed
qed

section \<open>Stopping\<close>

text \<open>
  Cancelling a pending future marks it \<open>Cancelled\<close> when it returns; when sending the cancellation
  fails the future stays pending. Operations, registrations and results stay as they were.
\<close>

definition cancels :: "nat set \<Rightarrow> 'w proactor \<Rightarrow> 'w proactor \<Rightarrow> bool" where
  "cancels F s t \<longleftrightarrow> ops t = ops s \<and> stopped_serving t = stopped_serving s \<and> results t = results s \<and>
     (\<forall>f. futs t f = (if f \<in> F \<and> \<not> fut_done (futs s f) then (futs s f)\<lparr>fut_state := Cancelled\<rparr> else futs s f))"

lemma cancels_trans: "cancels F s t \<Longrightarrow> cancels G t u \<Longrightarrow> cancels (F \<union> G) s u"
  by (auto simp: cancels_def fut_done_def)

lemma cancel_keeps:
  "wp True (cancel_operation E opr flags) s (\<lambda>_. cancels {} s) (\<lambda>_. cancels {} s)"
  by (rule wp_mono [OF wp_cancel_operation])
    (auto simp: cancels_def cancel_sent_def sub_frame_def split: option.splits if_splits)

lemma fut_cancel_cancels:
  "wp True (bindM (fut_cancel E f) (\<lambda>_. ret ())) s (\<lambda>_. cancels {f} s) (\<lambda>_. cancels {} s)"
  by (auto simp: fut_cancel_def base_cancel_def wp_bindM wp_getM wp_thenM wp_whenM wp_actM wp_ret
    cancels_def fut_done_def intro!: wp_mono [OF cancel_keeps])

definition stop_targets :: "'w proactor \<Rightarrow> PendingCompletion set \<Rightarrow> nat set" where
  "stop_targets s P = {f. \<exists>p \<in> P. pc_future p = Some f \<and> is_stopped s (get_file_obj (ops s (pc_operation p)))}"

lemma stop_entries_cancel:
  "wp True (forM ps (stop_entry E)) s (\<lambda>_. cancels (stop_targets s (set ps)) s)
     (\<lambda>_ t. \<exists>F \<subseteq> stop_targets s (set ps). cancels F s t)"
proof (induction ps arbitrary: s)
  case Nil
  then show ?case by (simp add: wp_ret cancels_def stop_targets_def)
next
  case (Cons p ps)
  have eq: "stop_targets s (insert p P) = stop_targets s {p} \<union> stop_targets s P" for P
    by (auto simp: stop_targets_def)
  have st: "stop_targets t P = stop_targets s P" if "cancels F s t" for F t P
    using that by (simp add: stop_targets_def is_stopped_def cancels_def split: fileobj.split)
  have one: "wp True (stop_entry E p) s (\<lambda>_. cancels (stop_targets s {p}) s) (\<lambda>_. cancels {} s)"
  proof (cases "pc_future p")
    case None
    then show ?thesis by (simp add: stop_entry_def wp_readM wp_ret cancels_def stop_targets_def)
  next
    case (Some f)
    show ?thesis
    proof (cases "is_stopped s (get_file_obj (ops s (pc_operation p))) \<and> \<not> fut_done (futs s f)")
      case True
      then have "stop_targets s {p} = {f}" using Some by (auto simp: stop_targets_def)
      then show ?thesis using True Some fut_cancel_cancels [of E f s] by (simp add: stop_entry_def wp_readM wp_whenM)
    next
      case False
      then have "\<forall>g \<in> stop_targets s {p}. fut_done (futs s g)" using Some by (auto simp: stop_targets_def)
      then show ?thesis using False Some by (auto simp: stop_entry_def wp_readM wp_whenM cancels_def)
    qed
  qed
  show ?case
    unfolding forM.simps wp_thenM
  proof (rule wp_mono [OF one], goal_cases)
    case (1 x t)
    note one = 1
    show ?case
    proof (rule wp_mono [OF Cons.IH], goal_cases)
      case (1 y u)
      then show ?case using cancels_trans [OF one] st [OF one]
        by (simp add: eq [of "set ps"])
    next
      case (2 e u)
      then obtain F where "F \<subseteq> stop_targets s (set ps)" "cancels F t u" using st [OF one] by auto
      then show ?case using cancels_trans [OF one] by (intro exI [of _ "stop_targets s {p} \<union> F"]) (auto simp: eq [of "set ps"])
    qed
  next
    case (2 e t)
    then show ?case by blast
  qed
qed

lemma stop_serving_cancels:
  fixes s :: "'w proactor"
  assumes "\<forall>n. obj \<noteq> FdInt n"
  defines "s' \<equiv> s\<lparr>stopped_serving := insert obj (stopped_serving s)\<rparr>"
  shows "wp True (stop_serving E obj) s
    (\<lambda>_. cancels (stop_targets s' (snd ` set (cache s))) s')
    (\<lambda>_ t. \<exists>F \<subseteq> stop_targets s' (snd ` set (cache s)). cancels F s' t)"
  using stop_entries_cancel [of "map snd (cache s')" E s'] assms
  by (cases obj) (simp_all add: stop_serving_def wp_thenM wp_modM wp_bindM wp_getM)

section \<open>The pipe of a linked pair\<close>

text \<open>Marking completions one after the other; an exception does not stop the next one.\<close>

fun mark_all :: "'w env \<Rightarrow> int list \<Rightarrow> BaseOperation \<times> 'w \<Rightarrow> BaseOperation \<times> 'w" where
  "mark_all E [] x = x"
| "mark_all E (u # us) x = mark_all E us (case mark_seen E u x of None \<Rightarrow> x | Some (r, y) \<Rightarrow> y)"

definition close_pipe :: "'w env \<Rightarrow> SendfileOperation \<Rightarrow> 'w \<Rightarrow> 'w" where
  "close_pipe E op w = snd (e_close E (pipe_w op) (snd (e_close E (pipe_r op) w)))"

lemma mark_all_pipe:
  assumes "\<And>fd w. fst (e_close E fd w) = Inr ()" and "f2p_user_data op \<noteq> p2s_user_data op"
    and "set us \<subseteq> {f2p_user_data op, p2s_user_data op}" and "pipes_closed op = (f2p_done op \<and> p2s_done op)"
  shows "mark_all E us (SendfileOp op, w) =
    (let a = f2p_done op \<or> f2p_user_data op \<in> set us; b = p2s_done op \<or> p2s_user_data op \<in> set us in
     (SendfileOp (op\<lparr>f2p_done := a, p2s_done := b, pipes_closed := a \<and> b\<rparr>),
      if a \<and> b \<and> \<not> pipes_closed op then close_pipe E op w else w))"
  using assms(2-4)
proof (induction us arbitrary: op w)
  case Nil
  then show ?case by (cases op) auto
next
  case (Cons u us)
  have c: "e_close E fd v = (Inr (), snd (e_close E fd v))" for fd v
    using assms(1) [of fd v] by (cases "e_close E fd v") simp
  let ?a = "f2p_done op \<or> u = f2p_user_data op" and ?b = "p2s_done op \<or> u = p2s_user_data op"
  let ?op = "op\<lparr>f2p_done := ?a, p2s_done := ?b, pipes_closed := ?a \<and> ?b\<rparr>"
  have u: "u = f2p_user_data op \<or> u = p2s_user_data op" using Cons.prems by auto
  have m: "mark_seen E u (SendfileOp op, w) = Some (Inr (), (SendfileOp ?op,
      if ?a \<and> ?b \<and> \<not> pipes_closed op then close_pipe E op w else w))"
    using u Cons.prems c [of "pipe_r op" w] c [of "pipe_w op" "snd (e_close E (pipe_r op) w)"]
    by (cases op) (auto simp: mark_seen_def op_defs close_pipe_def Let_def split: prod.splits)
  have IH: "mark_all E us (SendfileOp ?op, v) =
    (let a = f2p_done ?op \<or> f2p_user_data ?op \<in> set us; b = p2s_done ?op \<or> p2s_user_data ?op \<in> set us in
     (SendfileOp (?op\<lparr>f2p_done := a, p2s_done := b, pipes_closed := a \<and> b\<rparr>),
      if a \<and> b \<and> \<not> pipes_closed ?op then close_pipe E ?op v else v))" for v
    by (rule Cons.IH) (use Cons.prems in auto)
  have cp: "close_pipe E ?op v = close_pipe E op v" for v by (simp add: close_pipe_def)
  show ?case
    using m IH Cons.prems by (auto simp: Let_def cp)
qed

lemma mark_all_list: "mark_all E us x = op_protocol.mark_list E us x"
  by (induction us arbitrary: x) simp_all

lemma mark_all_complete:
  assumes "op_wf op" and "set us = op_tags op"
  shows "get_user_data (fst (mark_all E us (op, w))) = None"
  using op_protocol.mark_list_all [OF assms(2,1)] unfolding mark_all_list
  by (metis prod.collapse)

section \<open>Preparations that fail\<close>

lemmas prep_interfaces = prep_send_ok.prep_interface_axioms prep_recv_ok.prep_interface_axioms
  prep_write_ok.prep_interface_axioms prep_read_ok.prep_interface_axioms prep_accept_ok.prep_interface_axioms
  prep_connect_ok.prep_interface_axioms prep_poll_add_ok.prep_interface_axioms
  prep_cancel64_ok.prep_interface_axioms prep_sendto_ok.prep_interface_axioms
  prep_recvfrom_ok.prep_interface_axioms prep_splice_ok.prep_interface_axioms

lemma sub_prep: 
  "m \<in> {sub_send E r1, sub_recv E r2, sub_write E r3, sub_read E r4, sub_accept E r5, sub_connect E r6,
      sub_poll_add E r7, sub_cancel E r8, sub_sendto E r9, sub_recvfrom E r10, sub_splice E r11} \<Longrightarrow>
   \<exists>p. prep_interface E p \<and> m = prep E p"
  by (auto simp: fun_eq_iff sub_send_def sub_recv_def sub_write_def sub_read_def sub_accept_def sub_connect_def
    sub_poll_add_def sub_cancel_def sub_sendto_def sub_recvfrom_def sub_splice_def intro: prep_interfaces)

lemma stuck_prep:
  assumes "sq_laws E n" and "queue_room E s = 0" and "\<not> pending_submit s"
  shows "prep E p ud flags s = Some (Inl (RuntimeError ''io_uring submission queue is full''), s)"
  using get_sqe_stuck [OF assms] by (simp add: prep_def bindM_def)

section \<open>The contract of a starting method\<close>

text \<open>
  What every starting method that prepares one entry keeps, from the common tail and the allocations
  before it.
\<close>

locale starter = step_relation R for R :: "'w proactor \<Rightarrow> 'w proactor \<Rightarrow> bool" +
  fixes E :: "'w env"
  assumes begins: "(\<And>ud. \<exists>p. prep_interface E p \<and> m ud = prep E p) \<Longrightarrow>
      keeps R (bindM next_user_data (\<lambda>ud. start (op ud) (m ud) ud))"
    and new_buffer: "keeps R (liftW (actM (e_bytearray E k)))"
    and new_address: "keeps R (liftW (actM (e_new_sockaddr E a)))"
begin

lemma keeps_lift_ofE: "keeps R (liftW (ofE x))"
  by (auto simp: keeps_def liftW_def zoomM_def ofE_def step_refl)

lemma keeps_lift_bind: "keeps R (liftW m) \<Longrightarrow> (\<And>x. keeps R (liftW (f x))) \<Longrightarrow> keeps R (liftW (bindM m f))"
  by (simp add: liftW_bindM keeps_bindM)

lemma keeps_new_buffer: "keeps R (bytearray E n)"
  by (auto simp: bytearray_def intro!: keeps_rules new_buffer)

lemma keeps_sockaddr:
  "keeps R (liftW (new_writable_sockaddr E fam))" "keeps R (liftW (new_readable_sockaddr E fam addr))"
  unfolding new_writable_sockaddr_def new_readable_sockaddr_def
  by (intro keeps_lift_bind keeps_lift_ofE new_address)+

lemma single_methods:
  "keeps R (recv E conn n flags)" "keeps R (recv_into E conn buf flags)"
  "keeps R (recvfrom E sock n flags)" "keeps R (recvfrom_into E sock buf flags)"
  "keeps R (sendto E sock buf flags addr)" "keeps R (send E conn buf flags)"
  "keeps R (accept E sock)" "keeps R (connect E sock address)" "keeps R (poll_add E conn events)"
  by (cases conn; simp add: recv_def recv_into_def recvfrom_def recvfrom_into_def sendto_def send_def accept_def
    connect_def poll_add_def;
      intro begins keeps_bindM keeps_new_buffer keeps_sockaddr keeps_ret impI conjI;
      rule sub_prep; (rule insertI1 | rule insertI2)+)+

end

end
