(* ===== verification/Uring_Board.thy ===== *)
theory Uring_Board
  imports Uring_Behaviour
begin

text \<open>
  The abstract specification of the proactor: a board of the numbers the kernel still has to
  answer, the states of the futures, and the list of futures to report. Every public method of
  \<open>IoUringProactor\<close> is a sequence of steps of the board.
\<close>

section \<open>The board\<close>

record board =
  b_pending :: "(int \<times> nat option) list"
  b_status :: "nat \<Rightarrow> fut_state"
  b_made :: nat
  b_ready :: "nat list"
  b_next :: int

text \<open>
  A step skips numbers and futures of a call that failed, issues fresh numbers for one new
  future, asks for a cancellation under a fresh number, cancels a pending future, drops an
  answered number, finishes a pending future together with one of its own numbers and puts it
  on the list, or hands the list over.
\<close>

inductive board_step :: "board \<Rightarrow> board \<Rightarrow> bool" where
  board_skip: "b_made b \<le> m \<Longrightarrow> b_next b \<le> n \<Longrightarrow> board_step b (b\<lparr>b_made := m, b_next := n\<rparr>)"
| board_issue: "us \<noteq> [] \<Longrightarrow> distinct us \<Longrightarrow> (\<And>u. u \<in> set us \<Longrightarrow> b_next b \<le> u \<and> u < n) \<Longrightarrow>
    board_step b (b\<lparr>b_pending := b_pending b @ map (\<lambda>u. (u, Some (b_made b))) us,
      b_made := Suc (b_made b), b_next := n\<rparr>)"
| board_ask: "board_step b (b\<lparr>b_pending := b_pending b @ [(b_next b, None)], b_next := b_next b + 1\<rparr>)"
| board_cancel: "f < b_made b \<Longrightarrow> b_status b f = Pending \<Longrightarrow>
    board_step b (b\<lparr>b_status := (b_status b)(f := Cancelled)\<rparr>)"
| board_complete: "board_step b (b\<lparr>b_pending := AList.delete u (b_pending b)\<rparr>)"
| board_finish: "(u, Some f) \<in> set (b_pending b) \<Longrightarrow> b_status b f = Pending \<Longrightarrow>
    board_step b (b\<lparr>b_pending := AList.delete u (b_pending b),
      b_status := (b_status b)(f := Finished v), b_ready := b_ready b @ [f]\<rparr>)"
| board_deliver: "board_step b (b\<lparr>b_ready := []\<rparr>)"

text \<open>What the board promises: numbers are fresh, and exactly finished futures are reported.\<close>

definition board_ok :: "board \<Rightarrow> bool" where
  "board_ok b \<longleftrightarrow> distinct (map fst (b_pending b)) \<and>
     (\<forall>(u, f) \<in> set (b_pending b). u < b_next b \<and> (\<forall>g. f = Some g \<longrightarrow> g < b_made b)) \<and>
     (\<forall>f \<ge> b_made b. b_status b f = Pending) \<and>
     distinct (b_ready b) \<and> (\<forall>f \<in> set (b_ready b). \<exists>v. b_status b f = Finished v)"

lemma board_step_ok:
  assumes "board_step b c" and "board_ok b"
  shows "board_ok c"
  using assms
proof cases
  case (board_issue us n)
  then have "u \<notin> fst ` set (b_pending b)" if "u \<in> set us" for u
    using assms(2) that by (fastforce simp: board_ok_def)
  moreover obtain u where "u \<in> set us" using board_issue by (cases us) auto
  ultimately show ?thesis
    using board_issue assms(2) by (fastforce simp: board_ok_def comp_def)
next
  case (board_complete u)
  then show ?thesis
    using assms(2) by (auto simp: board_ok_def distinct_delete set_delete)
next
  case (board_finish u f v)
  then show ?thesis
    using assms(2) by (auto simp: board_ok_def distinct_delete set_delete)
qed (fastforce simp: board_ok_def)+

lemma board_steps_ok: "board_step\<^sup>*\<^sup>* b c \<Longrightarrow> board_ok b \<Longrightarrow> board_ok c"
  by (induction rule: rtranclp_induct) (auto intro: board_step_ok)

section \<open>Refinement\<close>

definition board_of :: "'w proactor \<Rightarrow> board" where
  "board_of s = \<lparr>b_pending = map (\<lambda>(u, p). (u, pc_future p)) (cache s),
     b_status = (\<lambda>f. if f < next_fut s then fut_state (futs s f) else Pending),
     b_made = next_fut s, b_ready = results s, b_next = user_data_counter s\<rparr>"

definition refines :: "'w proactor \<Rightarrow> 'w proactor \<Rightarrow> bool" where
  "refines s t \<longleftrightarrow> evolves s t \<and> board_step\<^sup>*\<^sup>* (board_of s) (board_of t)"

lemma board_frame [simp]:
  "board_of (s\<lparr>world := w\<rparr>) = board_of s" "board_of (s\<lparr>pending_submit := b\<rparr>) = board_of s"
  "board_of (s\<lparr>handler_log := l\<rparr>) = board_of s" "board_of (s\<lparr>iouring := b\<rparr>) = board_of s"
  "board_of (s\<lparr>stopped_serving := S\<rparr>) = board_of s" "board_of (s\<lparr>loop := d\<rparr>) = board_of s"
  "board_of (s\<lparr>unsubmitted := us\<rparr>) = board_of s" "board_of (s\<lparr>ops := os\<rparr>) = board_of s"
  by (simp_all add: board_of_def fun_eq_iff)

lemma map_delete: "map (\<lambda>(u, p). (u, f p)) (AList.delete k xs) = AList.delete k (map (\<lambda>(u, p). (u, f p)) xs)"
  by (induction xs) auto

lemma step_if_refines:
  assumes "step_if evolves P s t"
    and "P \<Longrightarrow> proactor_inv s \<Longrightarrow> user_data_counter t \<le> 2 ^ 64 \<Longrightarrow> board_step\<^sup>*\<^sup>* (board_of s) (board_of t)"
  shows "step_if refines P s t"
  using assms by (simp add: step_if_def refines_def)

lemma grow_if_evolves: "grow_if P s t \<Longrightarrow> step_if evolves P s t"
  by (erule step_if_weaken) (simp add: grows_def)

section \<open>Cancelling and starting\<close>

lemma board_counter:
  assumes "user_data_counter s \<le> c"
  shows "board_step (board_of s) (board_of (s\<lparr>user_data_counter := c\<rparr>))"
proof -
  have eq: "board_of (s\<lparr>user_data_counter := c\<rparr>) = board_of s\<lparr>b_made := b_made (board_of s), b_next := c\<rparr>"
    by (simp add: board_of_def fun_eq_iff)
  show ?thesis unfolding eq by (rule board_skip) (use assms in \<open>simp_all add: board_of_def\<close>)
qed

lemma board_cancel_sent:
  assumes "cancel_sent E opr ud flags s t" and inv: "proactor_inv s"
  shows "board_step (board_of s) (board_of t)"
proof -
  have us: "unsubmitted s = []" using inv by (simp add: proactor_inv_def)
  have "board_of t = board_of s\<lparr>b_pending := b_pending (board_of s) @ [(b_next (board_of s), None)],
      b_next := b_next (board_of s) + 1\<rparr>"
    using assms(1) us update_fresh [OF inv_fresh [OF inv order_refl]]
    by (auto simp: cancel_sent_def board_of_def fun_eq_iff)
  then show ?thesis by (auto intro: board_ask)
qed

lemma board_sub_frame: "sub_frame s t \<Longrightarrow> board_of t = board_of s"
  by (auto simp: sub_frame_def)

lemma cancel_refines:
  "wp True (cancel_operation E opr flags) s
     (\<lambda>_. step_if refines (opr < next_op s) s) (\<lambda>_. step_if refines (opr < next_op s) s)"
proof (rule wp_mono [OF wp_conj [OF grow_cancel_operation wp_cancel_operation]])
  fix x t
  assume a: "grow_if (opr < next_op s) s t \<and> (case get_user_data (ops s opr) of None \<Rightarrow> t = s
            | Some ud \<Rightarrow> if ud = 0 then t = s else cancel_sent E opr ud flags s t)"
  show "step_if refines (opr < next_op s) s t"
    by (rule step_if_refines [OF grow_if_evolves])
      (use a in \<open>auto intro: board_cancel_sent split: option.splits if_splits\<close>)
next
  fix e t
  assume a: "grow_if (opr < next_op s) s t \<and> sub_frame (s\<lparr>user_data_counter := user_data_counter s + 1\<rparr>) t"
  show "step_if refines (opr < next_op s) s t"
    by (rule step_if_refines [OF grow_if_evolves])
      (use a board_counter [of s "user_data_counter s + 1"] in \<open>auto dest!: board_sub_frame\<close>)
qed

lemma settle_refines:
  assumes "\<not> fut_done (futs s f)"
  shows "step_if refines (f < next_fut s) s (set_fut_state f Cancelled s)"
proof (rule step_if_refines [OF grow_if_evolves [OF grow_if_step [OF settle_future_grow [OF assms]]]])
  assume f: "f < next_fut s"
  then have eq: "board_of (set_fut_state f Cancelled s) = board_of s\<lparr>b_status := (b_status (board_of s))(f := Cancelled)\<rparr>"
    by (auto simp: board_of_def set_fut_state_def fun_eq_iff)
  show "board_step\<^sup>*\<^sup>* (board_of s) (board_of (set_fut_state f Cancelled s))"
    unfolding eq
    by (rule r_into_rtranclp, rule board_cancel) (use assms f in \<open>simp_all add: board_of_def fut_done_def\<close>)
qed

lemma board_registers:
  assumes inv: "proactor_inv s" and r: "registers E s f t"
  shows "board_step (board_of s) (board_of t)"
proof -
  have "b_status (board_of t) g = b_status (board_of s) g" for g
    using r by (cases "g < next_fut s") (auto simp: registers_def board_of_def less_Suc_eq)
  then have eq: "board_of t = board_of s\<lparr>
      b_pending := b_pending (board_of s) @ map (\<lambda>u. (u, Some (b_made (board_of s)))) [user_data_counter s],
      b_made := Suc (b_made (board_of s)), b_next := user_data_counter s + 1\<rparr>"
    using r by (auto simp: registers_def board_of_def fun_eq_iff)
  show ?thesis unfolding eq by (rule board_issue) (simp_all add: board_of_def)
qed

lemma board_nothing:
  assumes r: "registers_nothing s t"
  shows "board_step (board_of s) (board_of t)"
proof -
  have "b_status (board_of t) g = b_status (board_of s) g" for g
    using r by (auto simp: registers_nothing_def board_of_def not_less)
  then have eq: "board_of t = board_of s\<lparr>b_made := next_fut t, b_next := user_data_counter t\<rparr>"
    using r by (simp add: registers_nothing_def board_of_def fun_eq_iff)
  show ?thesis
    unfolding eq by (rule board_skip) (use r in \<open>simp_all add: board_of_def registers_nothing_def\<close>)
qed

lemma board_extended:
  assumes x: "extended s op new t" and n: "new = map (\<lambda>(u, r). (u, \<lparr>pc_operation = next_op s, pc_future = Some (next_fut s), pc_request = r\<rparr>)) us"
    and us: "distinct (map fst us)" "\<And>u. u \<in> fst ` set us \<Longrightarrow> user_data_counter s \<le> u \<and> u < user_data_counter t"
  shows "board_step (board_of s) (board_of t)"
proof -
  have st: "b_status (board_of t) = b_status (board_of s)"
    using x by (auto simp: extended_def board_of_def fun_eq_iff)
  show ?thesis
  proof (cases us)
    case Nil
    then have eq: "board_of t = board_of s\<lparr>b_made := next_fut t, b_next := user_data_counter t\<rparr>"
      using x n st by (simp add: extended_def board_of_def)
    show ?thesis
      unfolding eq by (rule board_skip) (use x in \<open>simp_all add: board_of_def extended_def\<close>)
  next
    case (Cons a as)
    have "map (\<lambda>(u, p). (u, pc_future p)) new = map (\<lambda>u. (u, Some (next_fut s))) (map fst us)"
      by (auto simp: n)
    then have eq: "board_of t = board_of s\<lparr>
        b_pending := b_pending (board_of s) @ map (\<lambda>u. (u, Some (b_made (board_of s)))) (map fst us),
        b_made := Suc (b_made (board_of s)), b_next := user_data_counter t\<rparr>"
      using x st by (simp add: extended_def board_of_def)
    show ?thesis
      unfolding eq by (rule board_issue) (use us Cons in \<open>auto simp: board_of_def\<close>)
  qed
qed

lemma board_starts:
  assumes "starts E m" and inv: "proactor_inv s" and run: "m s = Some (r, t)"
  shows "board_step (board_of s) (board_of t)"
proof -
  have w: "wp True m s (registers E s) (\<lambda>_. registers_nothing s)"
    using assms(1) inv by (simp add: starts_def)
  show ?thesis
  proof (cases r)
    case (Inl e)
    show ?thesis by (rule board_nothing) (rule wp_Inl [OF w run [unfolded Inl]])
  next
    case (Inr f)
    show ?thesis by (rule board_registers [OF inv wp_Inr [OF w run [unfolded Inr]]])
  qed
qed

lemma board_sendfile:
  assumes "sq_laws E n" and "proactor_inv s" and "user_data_counter t \<le> 2 ^ 64"
    and "sendfile E sock conn offset count s = Some (r, t)"
  shows "board_step\<^sup>*\<^sup>* (board_of s) (board_of t)"
  using sendfile_outcome [OF assms]
proof (elim disjE exE conjE)
  assume "sub_frame s t"
  then show ?thesis by (simp add: board_sub_frame)
next
  fix op assume x: "extended s (SendfileOp op) [] t"
  have "board_step (board_of s) (board_of t)"
    by (rule board_extended [OF x, where us = "[]"]) auto
  then show ?thesis by blast
next
  let ?c = "user_data_counter s"
  fix op assume c: "user_data_counter t = ?c + 2"
    and x: "extended s (SendfileOp op) [(?c, pair_entry s (f2p_request op)), (?c + 1, pair_entry s (p2s_request op))] t"
  have "board_step (board_of s) (board_of t)"
    by (rule board_extended [OF x, where us = "[(?c, SpliceReq (f2p_request op)), (?c + 1, SpliceReq (p2s_request op))]"])
      (auto simp: c pair_entry_def)
  then show ?thesis by blast
qed

lemma start_refines:
  assumes laws: "sq_laws E n" and m: "m \<in> starting_methods E"
  shows "keeps (step_if refines True) m"
proof (rule keepsI)
  fix s r t assume run: "m s = Some (r, t)"
  have sound: "step_if evolves True s t"
    using keepsD [OF sound_start [OF laws m] run] by (simp add: sound_step_if)
  show "step_if refines True s t"
  proof (rule step_if_refines [OF sound])
    assume inv: "proactor_inv s" and hi: "user_data_counter t \<le> 2 ^ 64"
    have "(\<exists>sock conn offset count. m = sendfile E sock conn offset count) \<or> starts E m"
      using m by cases (auto intro: starts_all)
    then show "board_step\<^sup>*\<^sup>* (board_of s) (board_of t)"
      using board_sendfile [OF laws inv hi] board_starts [where m = m, OF _ inv run] run by auto
  qed
qed

section \<open>Completing\<close>

interpretation board_calls: cancelling refines E for E :: "'w env"
proof
  fix s t u :: "'w proactor" assume "refines s t" "refines t u"
  then show "refines s u" unfolding refines_def by (blast intro: evolves_trans rtranclp_trans)
qed (auto simp: refines_def evolves_refl intro: cancel_refines settle_refines)

lemma board_popped:
  assumes "cache t = AList.delete u (cache s)" and "futs t = futs s" and "next_fut t = next_fut s"
    and "results t = results s" and "user_data_counter t = user_data_counter s"
  shows "board_step (board_of s) (board_of t)"
proof -
  have eq: "board_of t = board_of s\<lparr>b_pending := AList.delete u (b_pending (board_of s))\<rparr>"
    using assms by (simp add: board_of_def map_delete fun_eq_iff)
  show ?thesis unfolding eq by (rule board_complete)
qed

lemma board_finished:
  assumes p: "(u, p) \<in> set (cache s)" "pc_future p = Some f" and f: "f < next_fut s" "\<not> fut_done (futs s f)"
    and t: "cache t = AList.delete u (cache s)" "futs t = futs (set_fut_state f (Finished v) s)"
      "next_fut t = next_fut s" "results t = results s @ [f]" "user_data_counter t = user_data_counter s"
  shows "board_step (board_of s) (board_of t)"
proof -
  have eq: "board_of t = board_of s\<lparr>b_pending := AList.delete u (b_pending (board_of s)),
      b_status := (b_status (board_of s))(f := Finished v), b_ready := b_ready (board_of s) @ [f]\<rparr>"
    using t f by (auto simp: board_of_def map_delete set_fut_state_def fun_eq_iff)
  show ?thesis
    unfolding eq by (rule board_finish) (use p f in \<open>force simp: board_of_def fut_done_def\<close>)+
qed

lemma handle_board:
  fixes E :: "'w env" and s :: "'w proactor"
  assumes inv: "proactor_inv s"
  shows "wp True (handle_cqe E cqe) s
    (\<lambda>_ t. user_data_counter t \<le> 2 ^ 64 \<longrightarrow> board_step\<^sup>*\<^sup>* (board_of s) (board_of t))
    (\<lambda>_ t. user_data_counter t \<le> 2 ^ 64 \<longrightarrow> board_step\<^sup>*\<^sup>* (board_of s) (board_of t))"
proof -
  let ?ud = "cqe_user_data cqe"
  define ok where "ok t \<longleftrightarrow> (user_data_counter t \<le> 2 ^ 64 \<longrightarrow> board_step\<^sup>*\<^sup>* (board_of s) (board_of t))" for t :: "'w proactor"
  have "wp True (handle_cqe E cqe) s (\<lambda>_. ok) (\<lambda>_. ok)"
  proof (rule wp_handle_rule)
    show "ok s \<and> ok (s\<lparr>handler_log := l\<rparr>)" for l by (simp add: ok_def)
    have "board_step (board_of s) (board_of (s\<lparr>cache := AList.delete ?ud (cache s)\<rparr>))"
      by (rule board_popped) simp_all
    then show "ok (s\<lparr>cache := AList.delete ?ud (cache s)\<rparr>) \<and> ok (s\<lparr>cache := AList.delete ?ud (cache s), handler_log := l\<rparr>)" for l
      by (auto simp: ok_def)
    fix p f op' w
    assume p: "(?ud, p) \<in> set (cache s)" and f: "pc_future p = Some f"
    let ?t = "marked s ?ud p op' w"
    have fut: "f < next_fut s"
      using inv p f by (auto simp: proactor_inv_def entry_static_def dest: cache_okD)
    have pop: "board_step (board_of s) (board_of ?t)" by (rule board_popped) simp_all
    then show "ok ?t" by (auto simp: ok_def)
    assume m: "mark_seen E ?ud (ops s (pc_operation p), world s) = Some (Inr (), (op', w))"
    have "proactor_inv ?t" using marked_inv [OF inv p f m] by simp
    then show "wp True (bindM (fut_cancel E f) (\<lambda>_. ret ())) ?t (\<lambda>_. ok) (\<lambda>_. ok)"
      by (intro wp_mono [OF board_calls.fut_cancel_unit])
        (use fut in \<open>auto simp: ok_def step_if_def refines_def intro: converse_rtranclp_into_rtranclp [where r = board_step, OF pop]\<close>)
    show "wp True (run_operation E cqe (pc_operation p) f) ?t (\<lambda>_. ok) (\<lambda>_. ok)"
    proof (rule wp_mono [OF run_outcomes])
      fix e t assume "\<exists>w'. t = ?t\<lparr>world := w'\<rparr>"
      then show "ok t" using pop by (auto simp: ok_def)
    next
      fix x t
      assume a: "(\<exists>w'. t = ?t\<lparr>world := w'\<rparr>) \<or> \<not> fut_done (futs ?t f) \<and>
         (\<exists>w' v. t = (set_fut_state f (Finished v) (?t\<lparr>world := w'\<rparr>))\<lparr>results := results ?t @ [f]\<rparr>)"
      have "board_step (board_of s) (board_of ((set_fut_state f (Finished v) (?t\<lparr>world := w'\<rparr>))\<lparr>results := results s @ [f]\<rparr>))"
        if "\<not> fut_done (futs s f)" for w' v
        by (rule board_finished [OF p f fut that]) (simp_all add: set_fut_state_def)
      then show "ok t" using a pop by (auto simp: ok_def)
    qed
  qed
  then show ?thesis by (rule wp_mono) (simp_all add: ok_def)
qed

interpretation board_client: client refines E for E :: "'w env"
proof
  fix cqe
  have "wp True (handle_cqe E cqe) s (\<lambda>_. step_if refines True s) (\<lambda>_. step_if refines True s)" for s
  proof (cases "proactor_inv s")
    case True
    show ?thesis
      by (rule wp_mono [OF wp_conj [OF wp_handle_cqe handle_board [OF True]]])
        (auto intro!: step_if_refines simp: completes_def sound_step_if)
  next
    case False
    show ?thesis
      by (rule wp_mono [OF wp_handle_cqe]) (use False in \<open>auto simp: completes_def sound_step_def step_if_def\<close>)
  qed
  then show "keeps (step_if refines True) (handle_cqe E cqe)" by (simp add: keeps_wp)
next
  fix s :: "'w proactor"
  have "board_of (s\<lparr>results := []\<rparr>) = board_of s\<lparr>b_ready := []\<rparr>" by (simp add: board_of_def fun_eq_iff)
  then show "refines s (s\<lparr>results := []\<rparr>)"
    using board_deliver [of "board_of s"] by (auto simp: refines_def evolves_frame evolves_refl)
qed (auto simp: refines_def evolves_frame evolves_refl intro: start_refines cancel_refines)

lemma api_step_board:
  assumes "sq_laws E n" and "api_step E s t" and "proactor_inv s" and "user_data_counter t \<le> 2 ^ 64"
  shows "board_step\<^sup>*\<^sup>* (board_of s) (board_of t)"
  using board_client.api_step_keeps [OF assms(1,2)] assms(3,4) by (simp add: step_if_def refines_def)

section \<open>Reachable boards\<close>

definition empty_board :: board where
  "empty_board = \<lparr>b_pending = [], b_status = (\<lambda>_. Pending), b_made = 0, b_ready = [], b_next = 1\<rparr>"

lemma empty_board_ok: "board_ok empty_board"
  by (simp add: board_ok_def empty_board_def)

lemma board_init:
  "init_proactor E entries flags (new_proactor w junk) = Some (r, s) \<Longrightarrow> board_of s = empty_board"
  by (auto simp: init_proactor_def py_defs new_proactor_def board_of_def empty_board_def
    split: option.splits sum.splits prod.splits)

lemma reachable_board:
  assumes "reachable E s" and laws: "sq_laws E n" and "user_data_counter s \<le> 2 ^ 64"
  shows "board_step\<^sup>*\<^sup>* empty_board (board_of s)"
  using assms(1,3)
proof (induction rule: reachable.induct)
  case (reachable_init entries flags w junk r s)
  from board_init [OF reachable_init(1)] have "board_of s = empty_board" .
  then show ?case by simp
next
  case (reachable_step s t)
  have c: "user_data_counter s \<le> 2 ^ 64"
    using api_step_sound [OF laws reachable_step(2)] reachable_step.prems by (simp add: sound_step_def)
  then have "proactor_inv s" using reachable_inv [OF reachable_step(1) laws] by simp
  from api_step_board [OF laws reachable_step(2) this reachable_step.prems] reachable_step.IH [OF c]
  show ?case by (rule rtranclp_trans [rotated])
qed

text \<open>A future the client has seen done stays done on every board.\<close>

end
