(* ===== verification/Uring_Trace.thy ===== *)
theory Uring_Trace
  imports Uring_Behaviour
begin

text \<open>
  The memory the kernel may reach, over a whole run. Auxiliary state records, beside any world, what the
  calls of \<open>liburing\<close> hand over: \<open>traced E\<close> does what \<open>E\<close> does and keeps that record. The invariant
  is that the memory of every entry that is queued or with the kernel is owned by the request
  registered, or about to be registered, under the entry's number.
\<close>

section \<open>What was handed over\<close>

text \<open>
  An entry of the submission queue: its slot, the memory of the call it was filled with and its
  \<open>user_data\<close>, both as far as they were written since it was taken.
\<close>

record queued =
  q_slot :: nat
  q_cells :: "nat set option"
  q_tag :: "int option"

definition entry_of :: "queued \<Rightarrow> (int \<times> nat set) list" where
  "entry_of e = (case (q_tag e, q_cells e) of (Some t, Some c) \<Rightarrow> [(t, c)] | _ \<Rightarrow> [])"

lemma entry_of_simps [simp]:
  "entry_of \<lparr>q_slot = q, q_cells = None, q_tag = t\<rparr> = []" "entry_of \<lparr>q_slot = q, q_cells = c, q_tag = None\<rparr> = []"
  "entry_of \<lparr>q_slot = q, q_cells = Some c', q_tag = Some t'\<rparr> = [(t', c')]"
  by (simp_all add: entry_of_def split: option.split)

text \<open>
  \<open>rt_held\<close>: what the kernel was given and has not completed; \<open>rt_done\<close>: the numbers it completed.
  \<open>rt_stale\<close>: an entry was submitted that had not been written completely since it was taken, so
  that the kernel found what an earlier use had left in the slot. \<open>rt_broken\<close>: \<open>liburing\<close> handed
  out a slot that was in the queue, consumed more entries than were in it, or reported a number that
  it was not given.
\<close>

record ring_trace =
  rt_queue :: "queued list"
  rt_held :: "(int \<times> nat set) list"
  rt_done :: "int list"
  rt_stale :: bool
  rt_broken :: bool

definition empty_trace :: ring_trace where
  "empty_trace = \<lparr>rt_queue = [], rt_held = [], rt_done = [], rt_stale = False, rt_broken = False\<rparr>"

definition take_slot :: "nat \<Rightarrow> ring_trace \<Rightarrow> ring_trace" where
  "take_slot q g = g\<lparr>rt_queue := rt_queue g @ [\<lparr>q_slot = q, q_cells = None, q_tag = None\<rparr>],
     rt_broken := rt_broken g \<or> q \<in> q_slot ` set (rt_queue g)\<rparr>"

definition fill_slot :: "nat \<Rightarrow> nat set \<Rightarrow> ring_trace \<Rightarrow> ring_trace" where
  "fill_slot q c g = g\<lparr>rt_queue := map (\<lambda>e. if q_slot e = q then e\<lparr>q_cells := Some c\<rparr> else e) (rt_queue g)\<rparr>"

definition tag_slot :: "nat \<Rightarrow> int \<Rightarrow> ring_trace \<Rightarrow> ring_trace" where
  "tag_slot q t g = g\<lparr>rt_queue := map (\<lambda>e. if q_slot e = q then e\<lparr>q_tag := Some t\<rparr> else e) (rt_queue g)\<rparr>"

definition consume_slots :: "nat \<Rightarrow> ring_trace \<Rightarrow> ring_trace" where
  "consume_slots k g = g\<lparr>rt_queue := drop k (rt_queue g),
     rt_held := rt_held g @ concat (map entry_of (take k (rt_queue g))),
     rt_stale := rt_stale g \<or> (\<exists>e \<in> set (take k (rt_queue g)). entry_of e = []),
     rt_broken := rt_broken g \<or> length (rt_queue g) < k\<rparr>"

definition report :: "int \<Rightarrow> ring_trace \<Rightarrow> ring_trace" where
  "report t g =
     (if t \<in> dict_keys (rt_held g)
      then g\<lparr>rt_held := filter (\<lambda>e. fst e \<noteq> t) (rt_held g), rt_done := t # rt_done g\<rparr>
      else if t \<in> set (rt_done g) then g else g\<lparr>rt_broken := True\<rparr>)"

section \<open>The world with its record\<close>

definition on_world :: "('w \<Rightarrow> 'a \<times> 'w) \<Rightarrow> 'w \<times> ring_trace \<Rightarrow> 'a \<times> ('w \<times> ring_trace)" where
  "on_world f w = (fst (f (fst w)), (snd (f (fst w)), snd w))"

definition tells ::
  "('w \<Rightarrow> (32 word \<times> c_cqe) \<times> 'w) \<Rightarrow> 'w \<times> ring_trace \<Rightarrow> (32 word \<times> c_cqe) \<times> ('w \<times> ring_trace)" where
  "tells f w = (case f (fst w) of ((r, c), w') \<Rightarrow>
     ((r, c), (w', if sint r < 0 then snd w else report (uint (c_user_data c)) (snd w))))"

definition traced :: "'w env \<Rightarrow> ('w \<times> ring_trace) env" where
  "traced E = \<lparr>
     e_queue_init = (\<lambda>n f. on_world (e_queue_init E n f)),
     e_queue_exit = apfst (e_queue_exit E),
     e_get_sqe = (\<lambda>(w, g). case e_get_sqe E w of (None, w') \<Rightarrow> (None, (w', g))
        | (Some q, w') \<Rightarrow> (Some q, (w', take_slot q g))),
     e_prep = (\<lambda>q c (w, g). (e_prep E q c w, fill_slot q (call_cells c) g)),
     e_set_data64 = (\<lambda>q d (w, g). (e_set_data64 E q d w, tag_slot q d g)),
     e_set_flags = (\<lambda>q f. apfst (e_set_flags E q f)),
     e_submit = (\<lambda>(w, g). case e_submit E w of (r, w') \<Rightarrow>
        (r, (w', if sint r < 0 then g else consume_slots (nat (sint r)) g))),
     e_sq_ready = (\<lambda>w. e_sq_ready E (fst w)),
     e_sq_space_left = (\<lambda>w. e_sq_space_left E (fst w)),
     e_peek_cqe = tells (e_peek_cqe E),
     e_wait_cqe = tells (e_wait_cqe E),
     e_wait_cqe_timeout = (\<lambda>ts. tells (e_wait_cqe_timeout E ts)),
     e_cqe_seen = (\<lambda>c. apfst (e_cqe_seen E c)),
     e_IOSQE_IO_HARDLINK = e_IOSQE_IO_HARDLINK E,
     e_bytearray = (\<lambda>n. on_world (e_bytearray E n)),
     e_ffi_new = on_world (e_ffi_new E),
     e_new_sockaddr = (\<lambda>a. on_world (e_new_sockaddr E a)),
     e_bytes = (\<lambda>c w. e_bytes E c (fst w)),
     e_sockaddr = (\<lambda>c w. e_sockaddr E c (fst w)),
     e_sock_fileno = (\<lambda>s w. e_sock_fileno E s (fst w)),
     e_io_fileno = (\<lambda>i w. e_io_fileno E i (fst w)),
     e_pipe = on_world (e_pipe E),
     e_close = (\<lambda>fd. on_world (e_close E fd)),
     e_socket_fromfd = (\<lambda>fam ty proto fd. on_world (e_socket_fromfd E fam ty proto fd)),
     e_getdefaulttimeout = (\<lambda>w. e_getdefaulttimeout E (fst w)),
     e_gettimeout = (\<lambda>s w. e_gettimeout E s (fst w)),
     e_setblocking = (\<lambda>s b. apfst (e_setblocking E s b)),
     e_inet_pton6 = e_inet_pton6 E,
     e_inet_ntop6 = e_inet_ntop6 E\<rparr>"

text \<open>The laws of the queue are not touched by the record.\<close>

lemma traced_laws:
  assumes "sq_laws E n"
  shows "sq_laws (traced E) n"
proof -
  have "\<exists>q w'. e_get_sqe (traced E) w = (Some q, w') \<and> e_sq_ready (traced E) w' = Suc (e_sq_ready (traced E) w)"
    if "0 < e_sq_space_left (traced E) w" for w
    using get_sqe_free [OF assms, of "fst w"] that by (auto simp: traced_def split: prod.split)
  moreover have "e_get_sqe (traced E) w = (None, w)" if "e_sq_space_left (traced E) w = 0" for w
    using get_sqe_full [OF assms, of "fst w"] that by (auto simp: traced_def split: prod.split)
  moreover have "if sint r < 0 then e_sq_ready (traced E) w' = e_sq_ready (traced E) w
      else int (e_sq_ready (traced E) w') = int (e_sq_ready (traced E) w) - sint r"
    if "e_submit (traced E) w = (r, w')" for w r w'
    using submit_ready [OF assms, of "fst w"] that by (auto simp: traced_def split: prod.splits)
  moreover have "sq_frame_laws (traced E)"
    using assms by (auto simp: sq_laws_def sq_frame_laws_def traced_def on_world_def)
  ultimately show ?thesis
    using sq_total [OF assms] assms by (auto simp: sq_laws_def [of "traced E"] sq_laws_def [of E]) (simp add: traced_def)
qed

text \<open>The calls that move the record; the others leave it alone.\<close>

lemma traced_still [simp]:
  "snd (snd (on_world act w)) = snd w"
  "snd (snd (e_ffi_new (traced E) w)) = snd w" "snd (snd (e_bytearray (traced E) n w)) = snd w"
  "snd (snd (e_new_sockaddr (traced E) a w)) = snd w" "snd (snd (e_pipe (traced E) w)) = snd w"
  "snd (snd (e_close (traced E) fd w)) = snd w"
  "snd (snd (e_socket_fromfd (traced E) fam ty proto fd w)) = snd w"
  "snd (e_setblocking (traced E) s b w) = snd w" "snd (e_set_flags (traced E) q f w) = snd w"
  "snd (e_cqe_seen (traced E) c w) = snd w" "snd (e_queue_exit (traced E) w) = snd w"
  "snd (snd (e_queue_init (traced E) k f w)) = snd w"
  by (simp_all add: traced_def on_world_def apfst_def map_prod_def split: prod.split)

lemma traced_moves [simp]:
  "snd (e_prep (traced E) q c w) = fill_slot q (call_cells c) (snd w)"
  "snd (e_set_data64 (traced E) q d w) = tag_slot q d (snd w)"
  by (simp_all add: traced_def split: prod.split)

lemma traced_get_sqe:
  "e_get_sqe (traced E) w = (r, w') \<Longrightarrow> snd w' = (case r of None \<Rightarrow> snd w | Some q \<Rightarrow> take_slot q (snd w))"
  by (auto simp: traced_def split: prod.splits option.splits)

lemma traced_submit:
  "snd (snd (e_submit (traced E) w)) = snd w \<or> (\<exists>k. snd (snd (e_submit (traced E) w)) = consume_slots k (snd w))"
  by (auto simp: traced_def split: prod.split)

definition reported :: "c_cqe \<Rightarrow> ring_trace \<Rightarrow> bool" where
  "reported c g \<longleftrightarrow> rt_broken g \<or> rt_stale g \<or> uint (c_user_data c) \<in> set (rt_done g)"

lemma traced_reports:
  assumes "tells f w = ((r, c), w')"
  shows "if sint r < 0 then snd w' = snd w else snd w' = report (uint (c_user_data c)) (snd w) \<and> reported c (snd w')"
  using assms by (auto simp: tells_def report_def reported_def split: prod.splits if_splits)

section \<open>The invariant\<close>

definition bad :: "ring_trace \<Rightarrow> bool" where
  "bad g \<longleftrightarrow> rt_broken g \<or> rt_stale g"

text \<open>What the kernel reaches, now or once the queue is submitted.\<close>

definition live :: "ring_trace \<Rightarrow> (int \<times> nat set) list" where
  "live g = rt_held g @ concat (map entry_of (rt_queue g))"

text \<open>The dictionary of the registered requests and the list of those still to be registered.\<close>

definition kept_by ::
  "(int \<times> PendingCompletion) list \<Rightarrow> (int \<times> KernelRequest) list \<Rightarrow> int \<Rightarrow> nat set \<Rightarrow> bool" where
  "kept_by C U ud cells \<longleftrightarrow> cells = {} \<or>
     (\<exists>p. map_of C ud = Some p \<and> cells \<subseteq> owned_cells (pc_request p)) \<or>
     (\<exists>r. (ud, r) \<in> set U \<and> cells \<subseteq> owned_cells r)"

definition numbers ::
  "(int \<times> PendingCompletion) list \<Rightarrow> (int \<times> KernelRequest) list \<Rightarrow> ring_trace \<Rightarrow> int set" where
  "numbers C U g = dict_keys C \<union> dict_keys U \<union> dict_keys (live g) \<union> set (rt_done g)"

definition guarded ::
  "(int \<times> PendingCompletion) list \<Rightarrow> (int \<times> KernelRequest) list \<Rightarrow> int \<Rightarrow> ring_trace \<Rightarrow> bool" where
  "guarded C U n g \<longleftrightarrow> bad g \<or>
     (numbers C U g \<subseteq> {..< n} \<and> distinct (map fst (live g)) \<and> dict_keys (live g) \<inter> set (rt_done g) = {} \<and>
      distinct (map fst U) \<and> dict_keys C \<inter> dict_keys U = {} \<and> (\<forall>(ud, c) \<in> set (live g). kept_by C U ud c))"

lemma guarded_cong:
  "live g = live g' \<Longrightarrow> rt_done g = rt_done g' \<Longrightarrow> (bad g \<Longrightarrow> bad g') \<Longrightarrow> guarded C U n g \<Longrightarrow> guarded C U n g'"
  by (cases "bad g"; cases "bad g'") (simp_all add: guarded_def numbers_def)

lemma live_consume [simp]: "live (consume_slots k g) = live g"
proof -
  have "concat (map entry_of (take k qs)) @ concat (map entry_of (drop k qs)) = concat (map entry_of qs)" for qs
    by (metis append_take_drop_id concat_append map_append)
  then show ?thesis by (simp add: live_def consume_slots_def)
qed

lemma live_take [simp]: "live (take_slot q g) = live g"
  by (simp add: live_def take_slot_def)

lemma done_take: "rt_done (take_slot q g) = rt_done g"
  by (simp add: take_slot_def)

lemma still_consume: "rt_done (consume_slots k g) = rt_done g" "bad g \<Longrightarrow> bad (consume_slots k g)"
  by (auto simp: consume_slots_def bad_def)

lemma guarded_consume: "guarded C U n g \<Longrightarrow> guarded C U n (consume_slots k g)"
  by (rule guarded_cong [of g _]) (simp_all add: still_consume)

text \<open>A slot that is not in the queue already: writing it touches the entry taken last, and no other.\<close>

lemma new_entry:
  "bad (take_slot q g) \<or> fill_slot q c (take_slot q g) =
     g\<lparr>rt_queue := rt_queue g @ [\<lparr>q_slot = q, q_cells = Some c, q_tag = None\<rparr>]\<rparr>"
  "bad (take_slot q g) \<or> tag_slot q t (fill_slot q c (take_slot q g)) =
     g\<lparr>rt_queue := rt_queue g @ [\<lparr>q_slot = q, q_cells = Some c, q_tag = Some t\<rparr>]\<rparr>"
  by (cases g; auto simp: fill_slot_def tag_slot_def take_slot_def bad_def intro!: map_idI)+

lemma bad_slots [simp]: "bad (fill_slot q c g) = bad g" "bad (tag_slot q t g) = bad g"
  by (simp_all add: bad_def fill_slot_def tag_slot_def)

lemma bad_take: "bad g \<Longrightarrow> bad (take_slot q g)"
  by (auto simp: bad_def take_slot_def)

lemma guarded_take: "guarded C U n g \<Longrightarrow> guarded C U n (take_slot q g)"
  by (rule guarded_cong [of g _]) (simp_all add: done_take bad_take)

lemma live_filled:
  assumes "\<not> bad (take_slot q g)"
  shows "live (fill_slot q c (take_slot q g)) = live g" and "rt_done (fill_slot q c (take_slot q g)) = rt_done g"
  using new_entry(1) [of q g c] assms by (simp_all add: live_def)

lemma guarded_fill: "guarded C U n g \<Longrightarrow> guarded C U n (fill_slot q c (take_slot q g))"
proof (cases "bad (take_slot q g)")
  case True
  then show ?thesis by (simp add: guarded_def)
next
  case False
  then show "guarded C U n g \<Longrightarrow> ?thesis"
    by (elim guarded_cong [rotated 3]) (simp_all add: live_filled bad_take)
qed

lemma live_tagged:
  assumes "\<not> bad (take_slot q g)"
  shows "live (tag_slot q t (fill_slot q c (take_slot q g))) = live g @ [(t, c)]"
    and "rt_done (tag_slot q t (fill_slot q c (take_slot q g))) = rt_done g"
  using new_entry(2) [of q g t c] assms by (simp_all add: live_def)

lemma guarded_tag:
  assumes g: "guarded C U n g" and new: "bad g \<or> t \<notin> numbers C U g" and n: "t < n"
  shows "c = {} \<Longrightarrow> guarded C U n (tag_slot q t (fill_slot q c (take_slot q g)))"
    and "c \<subseteq> owned_cells r \<Longrightarrow> guarded C (U @ [(t, r)]) n (tag_slot q t (fill_slot q c (take_slot q g)))"
proof -
  let ?g = "tag_slot q t (fill_slot q c (take_slot q g))"
  have "guarded C U n ?g \<and> guarded C (U @ [(t, r)]) n ?g" if "bad (take_slot q g)"
    using that by (simp add: guarded_def)
  moreover have "(c = {} \<longrightarrow> guarded C U n ?g) \<and> (c \<subseteq> owned_cells r \<longrightarrow> guarded C (U @ [(t, r)]) n ?g)"
    if b: "\<not> bad (take_slot q g)"
    using g new n bad_take [of g q] b
    by (auto simp: guarded_def numbers_def live_tagged kept_by_def)
  ultimately show "c = {} \<Longrightarrow> guarded C U n ?g" "c \<subseteq> owned_cells r \<Longrightarrow> guarded C (U @ [(t, r)]) n ?g"
    by blast+
qed

lemma numbers_tag:
  "bad (take_slot q g) \<or> numbers C (U @ [(t, r)]) (tag_slot q t (fill_slot q c (take_slot q g))) = insert t (numbers C U g)"
  by (auto simp: numbers_def live_tagged)

text \<open>A completion: the number is no longer with the kernel, so its request may be given up.\<close>

lemma guarded_report: "guarded C U n g \<Longrightarrow> guarded C U n (report t g)"
proof (cases "bad g \<or> t \<notin> dict_keys (rt_held g)")
  case True
  then show "guarded C U n g \<Longrightarrow> guarded C U n (report t g)"
    by (auto simp: guarded_def report_def bad_def numbers_def)
next
  case False
  assume "guarded C U n g"
  then have g: "numbers C U g \<subseteq> {..< n}" "distinct (map fst (live g))" "dict_keys (live g) \<inter> set (rt_done g) = {}"
      "distinct (map fst U)" "dict_keys C \<inter> dict_keys U = {}" "\<forall>(ud, c) \<in> set (live g). kept_by C U ud c"
    using False by (auto simp: guarded_def)
  define Q where "Q = concat (map entry_of (rt_queue g))"
  have live: "live g = rt_held g @ Q" by (simp add: live_def Q_def)
  have "t \<notin> dict_keys Q" using g(2) False by (auto simp: live)
  then have "filter (\<lambda>e. fst e \<noteq> t) Q = Q" by (auto intro!: filter_True)
  then have l: "live (report t g) = filter (\<lambda>e. fst e \<noteq> t) (live g)" "rt_done (report t g) = t # rt_done g"
    using False by (simp_all add: live) (simp_all add: live_def report_def Q_def)
  have d: "distinct (map fst (filter (\<lambda>e. fst e \<noteq> t) (live g)))"
    using g(2) by (simp add: distinct_map_filter)
  have "numbers C U (report t g) \<subseteq> {..< n}" "dict_keys (live (report t g)) \<inter> set (rt_done (report t g)) = {}"
    using g(1,3) False by (auto simp: numbers_def l live)
  then show "guarded C U n (report t g)"
    using g d by (auto simp: guarded_def l)
qed

lemma guarded_pop:
  assumes "guarded C U n g" and "bad g \<or> t \<in> set (rt_done g)"
  shows "guarded (AList.delete t C) U n g"
proof -
  have "map_of (AList.delete t C) ud = map_of C ud" if "ud \<noteq> t" for ud
    using that by (simp add: delete_conv')
  then have k: "kept_by (AList.delete t C) U ud c" if "ud \<noteq> t" "kept_by C U ud c" for ud c
    using that by (simp add: kept_by_def)
  show ?thesis
  proof (cases "bad g")
    case False
    then have g: "numbers C U g \<subseteq> {..< n}" "dict_keys (live g) \<inter> set (rt_done g) = {}"
        "dict_keys C \<inter> dict_keys U = {}" "\<forall>(ud, c) \<in> set (live g). kept_by C U ud c"
      and t: "t \<in> set (rt_done g)" using assms by (auto simp: guarded_def)
    have "kept_by (AList.delete t C) U ud c" if l: "(ud, c) \<in> set (live g)" for ud c
    proof (rule k)
      show "ud \<noteq> t" using g(2) t l by force
    qed (use g(4) l in auto)
    moreover have "numbers (AList.delete t C) U g \<subseteq> {..< n}" "dict_keys (AList.delete t C) \<inter> dict_keys U = {}"
      using g(1,3) by (auto simp: numbers_def)
    ultimately show ?thesis using assms(1) by (auto simp: guarded_def)
  qed (simp add: guarded_def)
qed

text \<open>Registering hands the requests over to the dictionary.\<close>

lemma register_map:
  assumes "distinct (map fst U)"
  shows "map_of (register op f U C) ud = (case map_of U ud of
    None \<Rightarrow> map_of C ud | Some r \<Rightarrow> Some \<lparr>pc_operation = op, pc_future = f, pc_request = r\<rparr>)"
  using assms
proof (induction op f U C rule: register.induct)
  case (2 op f t r U C)
  then have "map_of U t = None" by (simp add: map_of_eq_None_iff)
  then show ?case using 2 by (auto simp: update_conv' split: option.split)
qed simp

lemma guarded_register:
  assumes "guarded C U n g"
  shows "guarded (register op f U C) [] n g"
proof (cases "bad g")
  case False
  then have g: "numbers C U g \<subseteq> {..< n}" "distinct (map fst U)" "dict_keys C \<inter> dict_keys U = {}"
      "\<forall>(ud, c) \<in> set (live g). kept_by C U ud c"
    using assms by (auto simp: guarded_def)
  have k: "kept_by (register op f U C) [] ud c" if k: "kept_by C U ud c" for ud c
  proof (cases "map_of U ud")
    case None
    then have "(ud, r) \<notin> set U" for r by (force simp: map_of_eq_None_iff)
    then show ?thesis using k None by (simp add: kept_by_def register_map [OF g(2)])
  next
    case (Some r)
    then have r: "(ud, r') \<in> set U \<Longrightarrow> r' = r" for r'
      using map_of_is_SomeI [OF g(2)] by fastforce
    have "map_of C ud = None"
      using g(3) map_of_SomeD [OF Some] by (force simp: map_of_eq_None_iff)
    then show ?thesis using k Some r by (auto simp: kept_by_def register_map [OF g(2)])
  qed
  have "numbers (register op f U C) [] g = numbers C U g"
    by (auto simp: numbers_def register_keys)
  then show ?thesis using assms k by (auto simp: guarded_def)
qed (simp add: guarded_def)

lemma guarded_count: "guarded C U n g \<Longrightarrow> n \<le> m \<Longrightarrow> guarded C U m g"
  by (auto simp: guarded_def)

end
