(* ===== verification/Uring_Memory.thy ===== *)
theory Uring_Memory
  imports Uring_Trace
begin

text \<open>
  Every public method of the proactor keeps the memory that the kernel may reach owned: the invariant
  of \<open>Uring_Trace\<close> holds of every state of a run, whatever the calls and however they end.
\<close>

section \<open>Guarded states\<close>

type_synonym 'w observed = "('w \<times> ring_trace) proactor"

abbreviation ring :: "'w observed \<Rightarrow> ring_trace" where
  "ring s \<equiv> snd (world s)"

definition guard :: "'w observed \<Rightarrow> bool" where
  "guard s \<longleftrightarrow> guarded (cache s) (unsubmitted s) (user_data_counter s) (ring s)"

definition guards :: "'w observed \<Rightarrow> 'w observed \<Rightarrow> bool" where
  "guards s t \<longleftrightarrow> (guard s \<longrightarrow> guard t)"

definition used :: "'w observed \<Rightarrow> int set" where
  "used s = numbers (cache s) (unsubmitted s) (ring s)"

text \<open>Flushing and taking an entry: the submitter's lists stay, no number is new.\<close>

definition keeps_guard :: "'w observed \<Rightarrow> 'w observed \<Rightarrow> bool" where
  "keeps_guard s t \<longleftrightarrow> sub_frame s t \<and> (guard s \<longrightarrow> guard t \<and> (bad (ring t) \<or> \<not> bad (ring s) \<and> used t = used s))"

interpretation guarding: step_relation guards
  by unfold_locales (auto simp: guards_def)

text \<open>Steps that touch neither the record nor the bookkeeping of the numbers.\<close>

definition aside :: "'w observed \<Rightarrow> 'w observed \<Rightarrow> bool" where
  "aside s t \<longleftrightarrow> ring t = ring s \<and> cache t = cache s \<and> unsubmitted t = unsubmitted s \<and>
     user_data_counter t = user_data_counter s"

interpretation asides: step_relation aside
  by unfold_locales (simp_all add: aside_def)

lemma aside_guards: "keeps aside m \<Longrightarrow> keeps guards m"
  by (erule keeps_mono) (simp add: aside_def guards_def guard_def)

lemma aside_lift:
  assumes "\<And>w. wp True m w (\<lambda>_ w'. snd w' = snd w) (\<lambda>_ w'. snd w' = snd w)"
  shows "keeps aside (liftW m)"
  unfolding keeps_wp by (auto simp: wp_liftW aside_def intro!: wp_mono [OF assms])

lemma aside_ring_call:
  "(\<And>w. wp True m w (\<lambda>_ w'. snd w' = snd w) (\<lambda>_ w'. snd w' = snd w)) \<Longrightarrow> keeps aside (ring_call m)"
  unfolding ring_call_def
  by (intro asides.keeps_readM) (auto intro: aside_lift asides.keeps_raise)

lemma guardsI:
  assumes "\<And>s. guard s \<Longrightarrow> wp True m s (\<lambda>_. guard) (\<lambda>_. guard)"
  shows "keeps guards m"
  by (rule keepsI) (use wp_outcome [OF assms] in \<open>auto simp: guards_def\<close>)

lemma guard_fields [simp]:
  "guard (s\<lparr>ops := os\<rparr>) = guard s" "guard (s\<lparr>next_op := i\<rparr>) = guard s" "guard (s\<lparr>futs := fs\<rparr>) = guard s"
  "guard (s\<lparr>next_fut := j\<rparr>) = guard s" "guard (s\<lparr>results := rs\<rparr>) = guard s" "guard (s\<lparr>handler_log := l\<rparr>) = guard s"
  "guard (s\<lparr>stopped_serving := S\<rparr>) = guard s" "guard (s\<lparr>loop := d\<rparr>) = guard s" "guard (s\<lparr>iouring := b\<rparr>) = guard s"
  by (simp_all add: guard_def)

lemma guard_world [simp]: "snd w = ring s \<Longrightarrow> guard (s\<lparr>world := w\<rparr>) = guard s"
  by (simp add: guard_def)

lemma keeps_guard_refl: "keeps_guard s s"
  by (simp add: keeps_guard_def sub_frame_refl)

lemma keeps_guard_trans: "keeps_guard s t \<Longrightarrow> keeps_guard t u \<Longrightarrow> keeps_guard s u"
  by (auto simp: keeps_guard_def intro: sub_frame_trans)

lemma keeps_guard_world: "snd w = ring s \<Longrightarrow> keeps_guard s (s\<lparr>world := w\<rparr>)"
  by (simp add: keeps_guard_def used_def)

lemma keeps_guardD: "keeps_guard s t \<Longrightarrow> guard s \<Longrightarrow> guard t"
  by (simp add: keeps_guard_def)

lemma submits_guard:
  "submits (traced E) w w' \<Longrightarrow> guarded C U n (snd w) \<Longrightarrow>
     guarded C U n (snd w') \<and> (bad (snd w') \<or> \<not> bad (snd w) \<and> numbers C U (snd w') = numbers C U (snd w))"
proof (induction rule: submits.induct)
  case (submits_step w w')
  let ?v = "snd (e_submit (traced E) w)"
  have "guarded C U n (snd ?v) \<and> (bad (snd w) \<longrightarrow> bad (snd ?v)) \<and> numbers C U (snd ?v) = numbers C U (snd w)"
    using traced_submit [of E w] submits_step.prems
    by (auto simp: guarded_consume still_consume numbers_def)
  then show ?case using submits_step.IH by auto
qed auto

lemma wp_flush_guard:
  "wp True (flush (traced E)) s (\<lambda>_. keeps_guard s) (\<lambda>_. keeps_guard s)"
proof -
  have "keeps_guard s t" if f: "sub_frame s t" and w: "submits (traced E) (world s) (world t)" for t
  proof -
    have "cache t = cache s" "unsubmitted t = unsubmitted s" "user_data_counter t = user_data_counter s"
      using f by (auto simp: sub_frame_def)
    then show ?thesis using submits_guard [OF w] f by (auto simp: keeps_guard_def guard_def used_def)
  qed
  then show ?thesis by (auto simp: flush_ok_def flush_bad_def intro!: wp_mono [OF wp_flush])
qed

text \<open>A taken entry: the state from which it was taken, and the slot at the end of the queue.\<close>

definition took :: "nat \<Rightarrow> 'w observed \<Rightarrow> 'w observed \<Rightarrow> bool" where
  "took q s t \<longleftrightarrow> (\<exists>u w. keeps_guard s u \<and> t = u\<lparr>world := w\<rparr> \<and> snd w = take_slot q (ring u))"

lemma wp_get_sqe_guard:
  "wp True (get_sqe (traced E)) s (\<lambda>q. took q s) (\<lambda>_. keeps_guard s)"
proof -
  have none: "keeps_guard t (t\<lparr>world := w\<rparr>)" if "e_get_sqe (traced E) (world t) = (None, w)" for t w
    using traced_get_sqe [OF that] by (auto intro: keeps_guard_world)
  have some: "took q s (t\<lparr>world := w\<rparr>)" if "keeps_guard s t" "e_get_sqe (traced E) (world t) = (Some q, w)" for t w q
    unfolding took_def by (intro exI [of _ t] exI [of _ w]) (use traced_get_sqe [OF that(2)] that(1) in simp)
  show ?thesis
    by (auto simp: get_sqe_def wp_rules io_uring_get_sqe_def split: prod.split option.split
      intro: none some keeps_guard_refl keeps_guard_trans [OF none] keeps_guard_trans [OF keeps_guard_trans [OF none]]
      intro!: wp_mono [OF wp_flush_guard])
qed

lemma allocs_trace: "ffi_allocs (traced E) w w' \<Longrightarrow> snd w' = snd w"
  by (induction rule: ffi_allocs.induct) simp_all

text \<open>
  A preparation. Between the moment the entry is tagged and the moment its request is listed only
  \<open>set_flags\<close> can raise; the entries it is called for point to no memory.
\<close>

definition prepares :: "int \<Rightarrow> 'w observed \<Rightarrow> 'w observed \<Rightarrow> bool" where
  "prepares ud s t \<longleftrightarrow> guard t \<and> user_data_counter t = user_data_counter s \<and>
     (bad (ring t) \<or> \<not> bad (ring s) \<and> used t = insert ud (used s))"

definition flagless :: "(nat \<Rightarrow> ('w, KernelRequest) py) \<Rightarrow> int \<Rightarrow> bool" where
  "flagless p flags \<longleftrightarrow> flags = 0 \<or> (\<forall>q w. wp True (p q) w (\<lambda>r _. owned_cells r = {}) (\<lambda>_ _. True))"

lemma prep_guard:
  assumes p: "prep_interface (traced E) p" and fl: "flagless p flags" and s: "guard s"
    and ud: "ud < user_data_counter s" "bad (ring s) \<or> ud \<notin> used s"
  shows "wp True (prep (traced E) p ud flags) s (\<lambda>_. prepares ud s) (\<lambda>_. guard)"
  unfolding prep_def wp_bindM [of _ "get_sqe (traced E)"]
proof (rule wp_mono [OF wp_get_sqe_guard], goal_cases)
  case (1 q t)
  then obtain u w where u: "keeps_guard s u" and t: "t = u\<lparr>world := w\<rparr>" and w: "snd w = take_slot q (ring u)"
    by (auto simp: took_def)
  let ?C = "cache u" and ?U = "unsubmitted u" and ?n = "user_data_counter u" and ?g = "ring u"
  have g: "guarded ?C ?U ?n ?g" using keeps_guardD [OF u s] by (simp add: guard_def)
  have n: "?n = user_data_counter s" using u by (auto simp: keeps_guard_def sub_frame_def)
  have same: "bad ?g \<or> \<not> bad (ring s) \<and> numbers ?C ?U ?g = used s"
    using u s by (simp add: keeps_guard_def used_def)
  then have new: "bad ?g \<or> ud \<notin> numbers ?C ?U ?g" using ud by auto
  have lt: "ud < ?n" using ud n by simp
  have raised: "guard (t\<lparr>world := w'\<rparr>)"
    if "snd w' = take_slot q ?g \<or> (\<exists>c. snd w' = fill_slot q c (take_slot q ?g)) \<or>
      snd w' = tag_slot q ud (fill_slot q {} (take_slot q ?g))" for w'
    using that guarded_take [OF g] guarded_fill [OF g] guarded_tag(1) [OF g new lt] by (auto simp: guard_def t)
  have listed: "prepares ud s (t\<lparr>world := w', unsubmitted := unsubmitted t @ [(ud, r)]\<rparr>)"
    if "\<exists>c. snd w' = tag_slot q ud (fill_slot q c (take_slot q ?g)) \<and> c \<subseteq> owned_cells r" for w' r
  proof -
    from that obtain c where c: "snd w' = tag_slot q ud (fill_slot q c (take_slot q ?g))" "c \<subseteq> owned_cells r" by blast
    have "bad (ring s) \<Longrightarrow> bad (take_slot q ?g)" using same bad_take [of ?g q] by auto
    then show ?thesis
      using guarded_tag(2) [OF g new lt c(2)] numbers_tag [of q ?g ?C ?U ud r c] same bad_take [of ?g q] c(1)
      by (auto simp: prepares_def guard_def used_def t n)
  qed
  have run: "wp True (p q) w
      (\<lambda>r w'. \<exists>c. snd w' = fill_slot q c (take_slot q ?g) \<and> c \<subseteq> owned_cells r \<and> (flags \<noteq> 0 \<longrightarrow> c = {}))
      (\<lambda>_ w'. snd w' = take_slot q ?g)"
  proof -
    have "wp True (p q) w (\<lambda>r w'. flags \<noteq> 0 \<longrightarrow> owned_cells r = {}) (\<lambda>_ _. True)"
    proof (cases "flags = 0")
      case False
      then have "wp True (p q) w (\<lambda>r _. owned_cells r = {}) (\<lambda>_ _. True)"
        using fl unfolding flagless_def by blast
      then show ?thesis by (rule wp_mono) simp_all
    qed (simp add: wp_def split: option.split sum.split)
    from wp_conj [OF wp_weaken [OF prep_interface.prep_runs [OF p]] this] show ?thesis
      by (rule wp_mono) (auto simp: filled_entry_def w dest: allocs_trace)
  qed
  show ?case
    by (auto simp: wp_rules io_uring_sqe_set_data64_def io_uring_sqe_set_flags_def c_u64_def c_unsigned_def t
      intro!: wp_mono [OF run] raised [unfolded t, simplified] listed [unfolded t, simplified])
qed (use s in \<open>auto dest: keeps_guardD\<close>)

section \<open>Starting\<close>

lemma fresh_number: "guard s \<Longrightarrow> user_data_counter s \<le> n \<Longrightarrow> bad (ring s) \<or> n \<notin> used s"
  by (auto simp: guard_def guarded_def used_def)

lemma guard_count: "guard s \<Longrightarrow> user_data_counter s \<le> n \<Longrightarrow> guard (s\<lparr>user_data_counter := n\<rparr>)"
  by (simp add: guard_def guarded_count)

lemma used_fields [simp]:
  "used (s\<lparr>ops := os\<rparr>) = used s" "used (s\<lparr>next_op := i\<rparr>) = used s" "used (s\<lparr>futs := fs\<rparr>) = used s"
  "used (s\<lparr>next_fut := j\<rparr>) = used s" "used (s\<lparr>user_data_counter := n\<rparr>) = used s"
  by (simp_all add: used_def)

lemma submit_guard: "guard s \<Longrightarrow> wp nt (submit op f) s (\<lambda>_. guard) X"
  by (simp add: submit_def wp_modM guard_def guarded_register)

lemma begin_guard:
  assumes "\<And>ud. \<exists>p. prep_interface (traced E) p \<and> m ud = prep (traced E) p"
  shows "keeps guards (bindM next_user_data (\<lambda>ud. start (op ud) (m ud) ud))"
proof (rule guardsI)
  fix s :: "'a observed" assume s: "guard s"
  let ?c = "user_data_counter s"
  obtain p where p: "prep_interface (traced E) p" "m ?c = prep (traced E) p" using assms by blast
  let ?t = "s\<lparr>user_data_counter := ?c + 1, ops := (ops s)(next_op s := op ?c), next_op := Suc (next_op s),
    futs := (futs s)(next_fut s := \<lparr>fut_state = Pending, fut_operation = next_op s\<rparr>), next_fut := Suc (next_fut s)\<rparr>"
  have t: "guard ?t" "?c < user_data_counter ?t" "bad (ring ?t) \<or> ?c \<notin> used ?t"
    using guard_count [OF s, of "?c + 1"] fresh_number [OF s, of ?c] by simp_all
  show "wp True (bindM next_user_data (\<lambda>ud. start (op ud) (m ud) ud)) s (\<lambda>_. guard) (\<lambda>_. guard)"
    by (auto simp: start_def next_user_data_def new_op_def new_future_def wp_bindM wp_actM wp_thenM wp_ret p(2) prepares_def
      flagless_def intro!: wp_mono [OF prep_guard [OF p(1) _ t]] wp_mono [OF submit_guard])
qed

lemma aside_new:
  "keeps aside (liftW (actM (e_bytearray (traced E) k)))" "keeps aside (liftW (actM (e_new_sockaddr (traced E) a)))"
  "keeps aside (liftW (tryM (e_pipe (traced E))))"
  by (rule aside_lift, auto simp: wp_actM wp_tryM split: prod.split sum.split dest!: arg_cong [where f = "\<lambda>x. snd (snd x)"])+

interpretation guarded_start: starter guards "traced E" for E :: "'w env"
  by unfold_locales (rule begin_guard aside_new [THEN aside_guards]; assumption)+

lemma flush_guards: "keeps guards (flush (traced E))"
  by (rule guardsI) (auto intro!: wp_mono [OF wp_flush_guard] dest: keeps_guardD)

lemma capacity_guards: "keeps guards (ensure_capacity (traced E) k)"
  unfolding ensure_capacity_def io_uring_sq_space_left_def
  by (intro guarding.keeps_rules aside_guards aside_lift flush_guards) (simp_all add: wp_getM)

text \<open>The second splice of a pair is prepared while the first is listed.\<close>

lemma splice_guard:
  assumes "guard s" and "ud < user_data_counter s" and "bad (ring s) \<or> ud \<notin> used s"
  shows "wp True (sub_splice (traced E) r ud fl) s (\<lambda>_. prepares ud s) (\<lambda>_. guard)"
proof -
  have "flagless (io_uring_prep_splice (traced E) r) fl"
    by (auto simp: flagless_def prep_unfold wp_rules split: sum.split fileobj.split)
  then show ?thesis
    unfolding sub_splice_def by (rule prep_guard [OF prep_splice_ok.prep_interface_axioms _ assms])
qed

lemma sendfile_guards: "keeps guards (sendfile (traced E) sock file offset count)"
proof -
  have tail: "keeps guards (bindM next_user_data (\<lambda>f2p. bindM next_user_data (\<lambda>p2s.
      bindM (new_op (op f2p p2s)) (\<lambda>opr. bindM (new_future opr) (\<lambda>fut.
      thenM (sub_splice (traced E) r1 f2p fl)
      (thenM (sub_splice (traced E) r2 p2s 0)
      (thenM (submit opr (Some fut)) (ret fut))))))))" for op r1 r2 fl
  proof (rule guardsI)
    fix s :: "'a observed" assume s: "guard s"
    let ?c = "user_data_counter s"
    let ?t = "s\<lparr>user_data_counter := ?c + 2, ops := (ops s)(next_op s := op ?c (?c + 1)), next_op := Suc (next_op s),
      futs := (futs s)(next_fut s := \<lparr>fut_state = Pending, fut_operation = next_op s\<rparr>), next_fut := Suc (next_fut s)\<rparr>"
    have t: "guard ?t" "?c < user_data_counter ?t" "bad (ring ?t) \<or> ?c \<notin> used ?t"
      and f: "bad (ring ?t) \<or> ?c + 1 \<notin> used ?t"
      using guard_count [OF s, of "?c + 2"] fresh_number [OF s, of ?c] fresh_number [OF s, of "?c + 1"] by simp_all
    have "wp True (thenM (sub_splice (traced E) r1 ?c fl) (thenM (sub_splice (traced E) r2 (?c + 1) 0)
        (thenM (submit (next_op s) (Some (next_fut s))) (ret (next_fut s))))) ?t (\<lambda>_. guard) (\<lambda>_. guard)"
      unfolding wp_thenM [of _ "sub_splice (traced E) r1 ?c fl"]
    proof (rule wp_mono [OF splice_guard [OF t]], goal_cases)
      case (1 x u)
      then have u: "guard u" "?c + 1 < user_data_counter u" "bad (ring u) \<or> ?c + 1 \<notin> used u"
        using f by (auto simp: prepares_def)
      show ?case
        unfolding wp_thenM
        by (rule wp_mono [OF splice_guard [OF u]]) (auto simp: prepares_def wp_ret intro!: wp_mono [OF submit_guard])
    qed
    then show "wp True (bindM next_user_data (\<lambda>f2p. bindM next_user_data (\<lambda>p2s.
      bindM (new_op (op f2p p2s)) (\<lambda>opr. bindM (new_future opr) (\<lambda>fut.
      thenM (sub_splice (traced E) r1 f2p fl)
      (thenM (sub_splice (traced E) r2 p2s 0)
      (thenM (submit opr (Some fut)) (ret fut)))))))) s (\<lambda>_. guard) (\<lambda>_. guard)"
      by (simp add: wp_bindM next_user_data_def new_op_def new_future_def wp_actM add.assoc)
  qed
  show ?thesis
    unfolding sendfile_def Let_def case_prod_unfold
    by (intro guarding.keeps_thenM guarding.keeps_bindM capacity_guards aside_guards [OF aside_new(3)] tail)
qed

lemma start_guards: "m \<in> starting_methods (traced E) \<Longrightarrow> keeps guards m"
  by (erule starting_methods.cases) (auto intro: guarded_start.single_methods sendfile_guards)

section \<open>Cancelling and completing\<close>

lemma cancel_guards: "keeps guards (cancel_operation (traced E) opr flags)"
proof (rule guardsI)
  fix s :: "'a observed" assume s: "guard s"
  let ?c = "user_data_counter s" and ?t = "s\<lparr>user_data_counter := user_data_counter s + 1\<rparr>"
  have t: "guard ?t" "?c < user_data_counter ?t" "bad (ring ?t) \<or> ?c \<notin> used ?t"
    using guard_count [OF s, of "?c + 1"] fresh_number [OF s, of ?c] by simp_all
  show "wp True (cancel_operation (traced E) opr flags) s (\<lambda>_. guard) (\<lambda>_. guard)"
    by (auto simp: cancel_operation_def sub_cancel_def wp_bindM wp_getM wp_ret wp_thenM next_user_data_def wp_actM s
      prepares_def flagless_def split: option.split
      intro!: wp_mono [OF prep_guard [OF prep_cancel64_ok.prep_interface_axioms _ t]] submit_guard)
qed

lemma base_cancel_guards: "keeps guards (base_cancel g)"
  by (auto simp: keeps_def base_cancel_def actM_def guards_def)

lemma fut_cancel_guards: "keeps guards (fut_cancel (traced E) g)"
  unfolding fut_cancel_def case_prod_unfold
  by (intro guarding.keeps_rules cancel_guards base_cancel_guards)

lemma operate_trace: "wp True (operate (traced E) op res) w (\<lambda>_ w'. snd w' = snd w) (\<lambda>_ w'. snd w' = snd w)"
proof -
  have "e_socket_fromfd (traced E) fam ty proto fd w = (r, w') \<Longrightarrow> snd w' = snd w" for fam ty proto fd r w'
    by (metis traced_still(7) snd_conv)
  then show ?thesis
    by (cases op) (auto simp: wp_rules buffer_prefix_def peer_addr_def accept_result_def Let_def
      split: prod.split sum.split)
qed

lemma mark_seen_trace:
  assumes "mark_seen (traced E) u (op, w) = Some (r, (op', w'))"
  shows "snd w' = snd w"
proof -
  have "e_close (traced E) fd w = (r, w') \<Longrightarrow> snd w' = snd w" for fd w r w'
    by (metis traced_still(6) snd_conv)
  then show ?thesis
    using assms by (cases op)
      (auto simp: mark_seen_def op_defs Let_def split: if_splits prod.splits sum.splits option.splits)
qed

lemma run_aside: "keeps aside (run_operation (traced E) cqe opr g)"
proof -
  have "keeps aside (apply_settle g a)" for a
    unfolding apply_settle_def
    by (cases a) (auto intro!: asides.keeps_rules simp: keeps_def modM_def aside_def set_fut_state_def raise_def ret_def readM_def)
  moreover have "keeps aside (modM (\<lambda>s. s\<lparr>results := results s @ [g]\<rparr>))"
    by (rule asides.keeps_modM) (simp add: aside_def)
  ultimately show ?thesis
    unfolding run_operation_def
    by (intro asides.keeps_readM) (auto intro!: asides.keeps_rules aside_lift operate_trace)
qed

text \<open>A completion of a number that the kernel reported; its request is dropped, and not before.\<close>

lemma handle_guard:
  assumes s: "guard s" and c: "bad (ring s) \<or> cqe_user_data cqe \<in> set (rt_done (ring s))"
  shows "wp True (handle_cqe (traced E) cqe) s (\<lambda>_. guard) (\<lambda>_. guard)"
proof (rule wp_handle_rule)
  let ?ud = "cqe_user_data cqe"
  have popped: "guard (s\<lparr>cache := AList.delete ?ud (cache s)\<rparr>)"
    using guarded_pop [OF s [unfolded guard_def] c] by (simp add: guard_def)
  then show "guard (s\<lparr>cache := AList.delete ?ud (cache s)\<rparr>) \<and>
      guard (s\<lparr>cache := AList.delete ?ud (cache s), handler_log := l\<rparr>)" for l by simp
  show "guard s \<and> guard (s\<lparr>handler_log := l\<rparr>)" for l using s by simp
  fix p f op' w r
  have marked: "guard (marked s ?ud p op' w)"
    if "mark_seen (traced E) ?ud (ops s (pc_operation p), world s) = Some (r, (op', w))" for r
    using popped mark_seen_trace [OF that] by (simp add: guard_def)
  show "guard (marked s ?ud p op' w)"
    if "mark_seen (traced E) ?ud (ops s (pc_operation p), world s) = Some (Inl e, (op', w))" for e
    by (rule marked [OF that])
  have after: "wp True m (marked s ?ud p op' w) (\<lambda>_. guard) (\<lambda>_. guard)"
    if "keeps guards m" "mark_seen (traced E) ?ud (ops s (pc_operation p), world s) = Some (Inr (), (op', w))" for m :: "('a \<times> ring_trace, unit) pr"
    using that(1) marked [OF that(2)] by (auto simp: keeps_wp guards_def elim!: wp_mono allE)
  assume m: "mark_seen (traced E) ?ud (ops s (pc_operation p), world s) = Some (Inr (), (op', w))"
  show "wp True (bindM (fut_cancel (traced E) f) (\<lambda>_. ret ())) (marked s ?ud p op' w) (\<lambda>_. guard) (\<lambda>_. guard)"
    by (rule after [OF _ m]) (intro guarding.keeps_rules guarding.keeps_modM fut_cancel_guards)
  show "wp True (run_operation (traced E) cqe (pc_operation p) f) (marked s ?ud p op' w) (\<lambda>_. guard) (\<lambda>_. guard)"
    by (rule after [OF aside_guards [OF run_aside] m])
qed

lemma aside_ring:
  "keeps aside (ring_call (io_uring_cqe_seen (traced E) c))" "keeps aside (ring_call (io_uring_queue_exit (traced E)))"
  by (rule aside_ring_call; simp add: io_uring_cqe_seen_def io_uring_queue_exit_def wp_modM)+

lemma ring_call_reports:
  fixes s :: "'w observed"
  assumes "\<And>w. \<exists>f. wp True m w (\<lambda>c w'. \<exists>r. tells f w = ((r, c), w') \<and> 0 \<le> sint r)
      (\<lambda>_ w'. \<exists>r c. tells f w = ((r, c), w') \<and> sint r < 0)"
  shows "wp True (ring_call m) s (\<lambda>c t. guards s t \<and> (guard t \<longrightarrow> reported c (ring t))) (\<lambda>_. guards s)"
proof -
  have good: "guards s (s\<lparr>world := w'\<rparr>) \<and> reported c (snd w')"
    if "tells f (world s) = ((r, c), w')" "0 \<le> sint r" for f r c w'
    using traced_reports [OF that(1)] that(2) by (auto simp: guards_def guard_def guarded_report)
  have none: "guards s (s\<lparr>world := w'\<rparr>)" if "tells f (world s) = ((r, c), w')" "sint r < 0" for f r c w'
    using traced_reports [OF that(1)] that(2) by (simp add: guards_def)
  obtain f where "wp True m (world s) (\<lambda>c w'. \<exists>r. tells f (world s) = ((r, c), w') \<and> 0 \<le> sint r)
      (\<lambda>_ w'. \<exists>r c. tells f (world s) = ((r, c), w') \<and> sint r < 0)" using assms by blast
  then show ?thesis
    by (auto simp: ring_call_def wp_readM wp_if wp_liftW wp_raise guarding.step_refl elim!: wp_mono dest: good none)
qed

interpretation guarded_poll: poller guards "traced E" "\<lambda>c s. guard s \<longrightarrow> reported c (ring s)" for E :: "'w env"
proof
  fix s :: "'w observed" and ts c
  show "keeps guards (flush (traced E))" by (rule flush_guards)
  show "wp True (ring_call (io_uring_wait_cqe (traced E))) s (\<lambda>c t. guards s t \<and> (guard t \<longrightarrow> reported c (ring t))) (\<lambda>_. guards s)"
    by (rule ring_call_reports, rule exI [of _ "e_wait_cqe E"])
      (auto simp: io_uring_wait_cqe_def wp_rules check_res_def traced_def split: prod.split)
  show "wp True (ring_call (io_uring_peek_cqe (traced E))) s (\<lambda>c t. guards s t \<and> (guard t \<longrightarrow> reported c (ring t))) (\<lambda>_. guards s)"
    by (rule ring_call_reports, rule exI [of _ "e_peek_cqe E"])
      (auto simp: io_uring_peek_cqe_def wp_rules check_res_def traced_def split: prod.split)
  show "wp True (ring_call (io_uring_wait_cqe_timeout (traced E) ts)) s (\<lambda>c t. guards s t \<and> (guard t \<longrightarrow> reported c (ring t))) (\<lambda>_. guards s)"
    by (rule ring_call_reports, rule exI [of _ "e_wait_cqe_timeout E ts"])
      (auto simp: io_uring_wait_cqe_timeout_def wp_rules check_res_def traced_def split: prod.split)
  assume r: "guard s \<longrightarrow> reported c (ring s)"
  have seen: "keeps guards (ring_call (io_uring_cqe_seen (traced E) c))" by (rule aside_guards [OF aside_ring(1)])
  show "wp True (consume (traced E) c) s (\<lambda>_. guards s) (\<lambda>_. guards s)"
  proof (cases "guard s")
    case True
    have "wp True (ring_call (io_uring_cqe_seen (traced E) c)) t (\<lambda>_. guards s) (\<lambda>_. guards s)" if "guard t" for t
      using seen that by (auto simp: keeps_wp guards_def elim!: wp_mono allE)
    then show ?thesis
      using True r by (auto simp: consume_def wp_thenM py_cqe_def reported_def bad_def intro!: wp_mono [OF handle_guard])
        (simp_all add: guards_def)
  qed (simp add: guards_def wp_def split: option.split sum.split)
qed (simp add: guards_def)

section \<open>Stopping and closing\<close>

lemma stop_guards: "keeps guards (stop_serving (traced E) obj)"
  unfolding stop_serving_def stop_entry_def
  by (cases obj) (auto intro!: guarding.keeps_rules guarding.keeps_modM fut_cancel_guards simp: guards_def split: option.split)

lemma close_guards: "keeps guards (close (traced E))"
proof -
  have entry: "keeps guards (close_entry (traced E) p)" for p
    by (auto simp: close_entry_def log_handler_def guards_def split: option.split intro!: guarding.keeps_rules guarding.keeps_modM fut_cancel_guards)
  note exit = aside_guards [OF aside_ring(2)]
  show ?thesis
    unfolding close_def
    by (intro guarding.keeps_readM)
      (auto intro!: guarding.keeps_rules guarding.keeps_modM entry exit guarded_poll.keeps_close_loop simp: guards_def)
qed

lemma call_guards: "api_call (traced E) s t \<Longrightarrow> guards s t"
proof (induction rule: api_call.induct)
  case (step_set_loop debug s u t)
  then show ?case by (auto simp: set_loop_def modM_def guards_def)
qed (blast intro: starting_methods.intros keepsD [OF start_guards] keepsD [OF cancel_guards] keepsD [OF fut_cancel_guards]
  keepsD [OF guarded_poll.keeps_select] keepsD [OF stop_guards] keepsD [OF close_guards])+

section \<open>Runs\<close>

text \<open>
  A run that is observed from the start: calls of the public methods, returned or raised, and
  between them any change of the world that hands nothing over.
\<close>

inductive observed_run :: "'w env \<Rightarrow> 'w observed \<Rightarrow> bool" for E where
  observed_init: "init_proactor (traced E) entries flags (new_proactor (w, empty_trace) junk) = Some (r, s) \<Longrightarrow> observed_run E s"
| observed_call: "observed_run E s \<Longrightarrow> api_call (traced E) s t \<Longrightarrow> observed_run E t"
| observed_world: "observed_run E s \<Longrightarrow> observed_run E (s\<lparr>world := (w, ring s)\<rparr>)"

lemma observed_guard: "observed_run E s \<Longrightarrow> guard s"
proof (induction rule: observed_run.induct)
  case (observed_init entries flags w junk r s)
  have "snd (snd (e_queue_init (traced E) n f (w, empty_trace))) = empty_trace" for n f by simp
  then have "ring s = empty_trace \<and> cache s = [] \<and> unsubmitted s = []"
    using observed_init
    by (auto simp: init_proactor_def new_proactor_def py_defs io_uring_queue_init_def c_unsigned_def check_res_def
      split: option.splits sum.splits prod.splits if_splits dest!: arg_cong [where f = "\<lambda>x. snd (snd x)"])
  then show ?case by (simp add: guard_def guarded_def numbers_def live_def empty_trace_def)
next
  case (observed_call s t)
  then show ?case using call_guards [OF observed_call(2)] by (simp add: guards_def)
qed simp

lemma observed_reachable: "observed_run E s \<Longrightarrow> reachable (traced E) s"
  by (induction rule: observed_run.induct) (auto intro: reachable.intros api_step.intros)

lemma observed_owned:
  assumes "observed_run E s" and "\<not> bad (ring s)" and "(ud, cells) \<in> set (live (ring s))"
  shows "kept_by (cache s) (unsubmitted s) ud cells"
  using observed_guard [OF assms(1)] assms(2,3) by (auto simp: guard_def guarded_def)

end
