(* ===== verification/Uring_Erase.thy ===== *)
theory Uring_Erase
  imports Uring_Memory
begin

text \<open>
  The record is auxiliary: over \<open>traced E\<close> every method does what it does over \<open>E\<close>, with the record
  beside the world. So each run of the proactor is an observed run with its record erased.
\<close>

section \<open>Computations that agree up to a projection\<close>

text \<open>
  \<open>mirrors p m m'\<close>: whatever \<open>m'\<close> does from the projection of a state, \<open>m\<close> does from the state
  itself, with the same outcome.
\<close>

definition mirrors :: "('s \<Rightarrow> 't) \<Rightarrow> ('s, 'a) py \<Rightarrow> ('t, 'a) py \<Rightarrow> bool" where
  "mirrors p m m' \<longleftrightarrow> (\<forall>s r t. m' (p s) = Some (r, t) \<longrightarrow> (\<exists>t'. m s = Some (r, t') \<and> p t' = t))"

lemma mirrorsD: "mirrors p m m' \<Longrightarrow> m' (p s) = Some (r, t) \<Longrightarrow> \<exists>t'. m s = Some (r, t') \<and> p t' = t"
  by (auto simp: mirrors_def)

lemma mirrors_ret: "mirrors p (ret x) (ret x)"
  by (auto simp: mirrors_def ret_def)

lemma mirrors_raise: "mirrors p (raise e) (raise e)"
  by (auto simp: mirrors_def raise_def)

lemma mirrors_ofE: "mirrors p (ofE x) (ofE x)"
  by (auto simp: mirrors_def ofE_def)

lemma mirrors_getM: "(\<And>s. f s = f' (p s)) \<Longrightarrow> mirrors p (getM f) (getM f')"
  by (auto simp: mirrors_def getM_def)

lemma mirrors_modM: "(\<And>s. p (f s) = f' (p s)) \<Longrightarrow> mirrors p (modM f) (modM f')"
  by (auto simp: mirrors_def modM_def)

lemma mirrors_actM: "(\<And>s. map_prod id p (f s) = f' (p s)) \<Longrightarrow> mirrors p (actM f) (actM f')"
  by (auto simp: mirrors_def actM_def split: prod.splits) (metis map_prod_simp id_apply prod.inject)+

lemma mirrors_tryM: "(\<And>s. map_prod id p (f s) = f' (p s)) \<Longrightarrow> mirrors p (tryM f) (tryM f')"
  by (auto simp: mirrors_def tryM_def) (metis map_prod_simp id_apply prod.inject surj_pair)

lemma mirrors_readM: "(\<And>s. mirrors p (f s) (f' (p s))) \<Longrightarrow> mirrors p (readM f) (readM f')"
  by (auto simp: mirrors_def readM_def)

lemma mirrors_bindM:
  assumes "mirrors p m m'" and "\<And>x. mirrors p (f x) (f' x)"
  shows "mirrors p (bindM m f) (bindM m' f')"
  unfolding mirrors_def
proof (intro allI impI)
  fix s r t assume run: "bindM m' f' (p s) = Some (r, t)"
  then obtain x u where m: "m' (p s) = Some (x, u)" by (auto simp: bindM_def split: option.splits)
  then obtain u' where u: "m s = Some (x, u')" "p u' = u" using mirrorsD [OF assms(1)] by blast
  show "\<exists>t'. bindM m f s = Some (r, t') \<and> p t' = t"
    using run m u mirrorsD [OF assms(2)] by (cases x) (auto simp: bindM_def)
qed

lemma mirrors_thenM: "mirrors p m m' \<Longrightarrow> mirrors p k k' \<Longrightarrow> mirrors p (thenM m k) (thenM m' k')"
  by (simp add: thenM_def mirrors_bindM)

lemma mirrors_catchM:
  assumes "mirrors p m m'" and "\<And>e. mirrors p (h e) (h' e)"
  shows "mirrors p (catchM m h) (catchM m' h')"
  unfolding mirrors_def
proof (intro allI impI)
  fix s r t assume run: "catchM m' h' (p s) = Some (r, t)"
  then obtain x u where m: "m' (p s) = Some (x, u)" by (auto simp: catchM_def split: option.splits)
  then obtain u' where u: "m s = Some (x, u')" "p u' = u" using mirrorsD [OF assms(1)] by blast
  show "\<exists>t'. catchM m h s = Some (r, t') \<and> p t' = t"
    using run m u mirrorsD [OF assms(2)] by (cases x) (auto simp: catchM_def)
qed

lemma mirrors_whenM: "mirrors p m m' \<Longrightarrow> mirrors p (whenM b m) (whenM b m')"
  by (simp add: whenM_def mirrors_ret)

lemma mirrors_forM: "(\<And>x. mirrors p (f x) (f' x)) \<Longrightarrow> mirrors p (forM xs f) (forM xs f')"
  by (induction xs) (auto intro: mirrors_ret mirrors_thenM)

lemma mirrors_if: "mirrors p m m' \<Longrightarrow> mirrors p k k' \<Longrightarrow> mirrors p (if b then m else k) (if b then m' else k')"
  by simp

lemma mirrors_option:
  "mirrors p m m' \<Longrightarrow> (\<And>x. mirrors p (f x) (f' x)) \<Longrightarrow>
   mirrors p (case y of None \<Rightarrow> m | Some x \<Rightarrow> f x) (case y of None \<Rightarrow> m' | Some x \<Rightarrow> f' x)"
  by (simp split: option.split)

lemma mirrors_file:
  "(\<And>s. mirrors p (f s) (f' s)) \<Longrightarrow> (\<And>i. mirrors p (g i) (g' i)) \<Longrightarrow> (\<And>n. mirrors p (h n) (h' n)) \<Longrightarrow>
   mirrors p (case y of SockObj s \<Rightarrow> f s | IOObj i \<Rightarrow> g i | FdInt n \<Rightarrow> h n)
     (case y of SockObj s \<Rightarrow> f' s | IOObj i \<Rightarrow> g' i | FdInt n \<Rightarrow> h' n)"
  by (simp split: fileobj.split)

lemma mirrors_pair: "(\<And>x y. mirrors p (f x y) (f' x y)) \<Longrightarrow> mirrors p (case z of (x, y) \<Rightarrow> f x y) (case z of (x, y) \<Rightarrow> f' x y)"
  by (simp split: prod.split)

lemmas mirror_rules = mirrors_ret mirrors_raise mirrors_ofE mirrors_bindM mirrors_thenM mirrors_catchM mirrors_whenM
  mirrors_forM mirrors_if mirrors_option mirrors_file mirrors_pair

section \<open>The world\<close>

lemma erased_gets [simp]:
  "e_sq_ready (traced E) w = e_sq_ready E (fst w)" "e_sq_space_left (traced E) w = e_sq_space_left E (fst w)"
  "e_bytes (traced E) c w = e_bytes E c (fst w)" "e_sockaddr (traced E) c w = e_sockaddr E c (fst w)"
  "e_sock_fileno (traced E) s w = e_sock_fileno E s (fst w)" "e_io_fileno (traced E) i w = e_io_fileno E i (fst w)"
  "e_getdefaulttimeout (traced E) w = e_getdefaulttimeout E (fst w)"
  "e_gettimeout (traced E) s w = e_gettimeout E s (fst w)"
  "e_inet_pton6 (traced E) = e_inet_pton6 E" "e_inet_ntop6 (traced E) = e_inet_ntop6 E"
  "e_IOSQE_IO_HARDLINK (traced E) = e_IOSQE_IO_HARDLINK E"
  by (simp_all add: traced_def)

lemma erased_moves [simp]:
  "fst (e_prep (traced E) q c w) = e_prep E q c (fst w)" "fst (e_set_data64 (traced E) q d w) = e_set_data64 E q d (fst w)"
  "fst (e_set_flags (traced E) q f w) = e_set_flags E q f (fst w)"
  "fst (e_cqe_seen (traced E) e w) = e_cqe_seen E e (fst w)" "fst (e_queue_exit (traced E) w) = e_queue_exit E (fst w)"
  "fst (e_setblocking (traced E) s b w) = e_setblocking E s b (fst w)"
  by (simp_all add: traced_def split: prod.split)

lemma erased_acts [simp]:
  "map_prod id fst (on_world act w) = act (fst w)"
  "map_prod id fst (tells read w) = read (fst w)"
  "map_prod id fst (e_queue_init (traced E) n f w) = e_queue_init E n f (fst w)"
  "map_prod id fst (e_get_sqe (traced E) w) = e_get_sqe E (fst w)"
  "map_prod id fst (e_submit (traced E) w) = e_submit E (fst w)"
  "map_prod id fst (e_peek_cqe (traced E) w) = e_peek_cqe E (fst w)"
  "map_prod id fst (e_wait_cqe (traced E) w) = e_wait_cqe E (fst w)"
  "map_prod id fst (e_wait_cqe_timeout (traced E) ts w) = e_wait_cqe_timeout E ts (fst w)"
  "map_prod id fst (e_bytearray (traced E) k w) = e_bytearray E k (fst w)"
  "map_prod id fst (e_ffi_new (traced E) w) = e_ffi_new E (fst w)"
  "map_prod id fst (e_new_sockaddr (traced E) a w) = e_new_sockaddr E a (fst w)"
  "map_prod id fst (e_pipe (traced E) w) = e_pipe E (fst w)"
  "map_prod id fst (e_close (traced E) fd w) = e_close E fd (fst w)"
  "map_prod id fst (e_socket_fromfd (traced E) fam ty proto fd w) = e_socket_fromfd E fam ty proto fd (fst w)"
  by (auto simp: traced_def on_world_def tells_def map_prod_def split: prod.split option.split)

text \<open>The wrappers of \<open>lib.py\<close>.\<close>

lemma erased_address [simp]:
  "readable_sockaddr (traced E) fam a = readable_sockaddr E fam a" "parse_addr (traced E) fam sa = parse_addr E fam sa"
proof -
  have same: "set_sockaddr_ipv6 (traced E) = set_sockaddr_ipv6 E" "parse_ipv6_addr (traced E) = parse_ipv6_addr E"
    unfolding fun_eq_iff set_sockaddr_ipv6_def parse_ipv6_addr_def erased_gets by simp_all
  show "readable_sockaddr (traced E) fam a = readable_sockaddr E fam a"
  proof (cases fam)
    case AF_INET6
    then show ?thesis unfolding AF_INET6 readable_sockaddr.simps same by simp
  qed simp_all
  show "parse_addr (traced E) fam sa = parse_addr E fam sa"
    unfolding parse_addr_def same by simp
qed

named_theorems mirror_intros "the computations of the model, mirrored"

lemma mirrors_sub [mirror_intros]:
  "mirrors fst (sock_fileno (traced E) so) (sock_fileno E so)"
  "mirrors fst (call_prep (traced E) q c) (call_prep E q c)"
  "mirrors fst (io_uring_sqe_set_data64 (traced E) q ud) (io_uring_sqe_set_data64 E q ud)"
  "mirrors fst (io_uring_sqe_set_flags (traced E) q fl) (io_uring_sqe_set_flags E q fl)"
  "mirrors fst (export_buffer b w) (export_buffer b w)"
  unfolding sock_fileno_def call_prep_def io_uring_sqe_set_data64_def io_uring_sqe_set_flags_def export_buffer_def
  by (intro mirror_rules mirrors_getM mirrors_modM; simp)+

lemma mirrors_descriptor [mirror_intros]:
  "mirrors fst (file_fileno (traced E) f) (file_fileno E f)" "mirrors fst (fd_of (traced E) f) (fd_of E f)"
proof -
  show *: "mirrors fst (file_fileno (traced E) f) (file_fileno E f)"
    unfolding file_fileno_def
    by (cases f) (auto intro!: mirror_rules mirror_intros mirrors_readM)
  then show "mirrors fst (fd_of (traced E) f) (fd_of E f)"
    unfolding fd_of_def by (cases f) (auto intro: mirrors_ret)
qed

lemma mirrors_new [mirror_intros]:
  "mirrors fst (actM (e_ffi_new (traced E))) (actM (e_ffi_new E))"
  "mirrors fst (actM (e_bytearray (traced E) k)) (actM (e_bytearray E k))"
  "mirrors fst (actM (e_new_sockaddr (traced E) a)) (actM (e_new_sockaddr E a))"
  "mirrors fst (tryM (e_pipe (traced E))) (tryM (e_pipe E))"
  by (rule mirrors_actM mirrors_tryM; simp)+

lemma mirrors_prep [mirror_intros]:
  "mirrors fst (io_uring_prep_send (traced E) r1 q) (io_uring_prep_send E r1 q)"
  "mirrors fst (io_uring_prep_recv (traced E) r2 q) (io_uring_prep_recv E r2 q)"
  "mirrors fst (io_uring_prep_write (traced E) r3 q) (io_uring_prep_write E r3 q)"
  "mirrors fst (io_uring_prep_read (traced E) r4 q) (io_uring_prep_read E r4 q)"
  "mirrors fst (io_uring_prep_accept (traced E) r5 q) (io_uring_prep_accept E r5 q)"
  "mirrors fst (io_uring_prep_connect (traced E) r6 q) (io_uring_prep_connect E r6 q)"
  "mirrors fst (io_uring_prep_poll_add (traced E) r7 q) (io_uring_prep_poll_add E r7 q)"
  "mirrors fst (io_uring_prep_cancel64 (traced E) r8 q) (io_uring_prep_cancel64 E r8 q)"
  "mirrors fst (io_uring_prep_sendto (traced E) r9 q) (io_uring_prep_sendto E r9 q)"
  "mirrors fst (io_uring_prep_recvfrom (traced E) r10 q) (io_uring_prep_recvfrom E r10 q)"
  "mirrors fst (io_uring_prep_splice (traced E) r11 q) (io_uring_prep_splice E r11 q)"
  unfolding io_uring_prep_send_def io_uring_prep_recv_def io_uring_prep_write_def io_uring_prep_read_def
    io_uring_prep_accept_def io_uring_prep_connect_def io_uring_prep_poll_add_def io_uring_prep_cancel64_def
    io_uring_prep_sendto_def io_uring_prep_recvfrom_def io_uring_prep_splice_def new_iovec_def Let_def
  by (intro mirror_rules mirror_intros)+

lemma mirrors_address [mirror_intros]:
  "mirrors fst (new_writable_sockaddr (traced E) fam) (new_writable_sockaddr E fam)"
  "mirrors fst (new_readable_sockaddr (traced E) fam a) (new_readable_sockaddr E fam a)"
  unfolding new_writable_sockaddr_def new_readable_sockaddr_def erased_address
  by (intro mirror_rules mirror_intros)+

lemma mirrors_timespec [mirror_intros]: "mirrors fst (new_kernel_timespec a b) (new_kernel_timespec a b)"
  unfolding new_kernel_timespec_def by (intro mirror_rules)

lemma mirrors_ring [mirror_intros]:
  "mirrors fst (io_uring_queue_init (traced E) k f) (io_uring_queue_init E k f)"
  "mirrors fst (io_uring_queue_exit (traced E)) (io_uring_queue_exit E)"
  "mirrors fst (io_uring_get_sqe (traced E)) (io_uring_get_sqe E)"
  "mirrors fst (io_uring_submit (traced E)) (io_uring_submit E)"
  "mirrors fst (io_uring_sq_space_left (traced E)) (io_uring_sq_space_left E)"
  "mirrors fst (io_uring_peek_cqe (traced E)) (io_uring_peek_cqe E)"
  "mirrors fst (io_uring_wait_cqe (traced E)) (io_uring_wait_cqe E)"
  "mirrors fst (io_uring_wait_cqe_timeout (traced E) ts) (io_uring_wait_cqe_timeout E ts)"
  "mirrors fst (io_uring_cqe_seen (traced E) c) (io_uring_cqe_seen E c)"
  unfolding io_uring_queue_init_def io_uring_queue_exit_def io_uring_get_sqe_def io_uring_submit_def
    io_uring_sq_space_left_def io_uring_peek_cqe_def io_uring_wait_cqe_def io_uring_wait_cqe_timeout_def io_uring_cqe_seen_def
  by (intro mirror_rules mirrors_actM mirrors_getM mirrors_modM; simp)+

lemma mirrors_operate [mirror_intros]: "mirrors fst (operate (traced E) op res) (operate E op res)"
proof -
  have "mirrors fst (buffer_prefix (traced E) b res) (buffer_prefix E b res)" for b
    unfolding buffer_prefix_def by (rule mirrors_getM) simp
  moreover have "mirrors fst (peer_addr (traced E) so sa) (peer_addr E so sa)" for so sa
    unfolding peer_addr_def by (rule mirrors_readM) (simp add: mirrors_ofE)
  moreover from this have "mirrors fst (accept_result (traced E) a res) (accept_result E a res)" for a
    unfolding accept_result_def Let_def
    by (intro mirror_rules mirrors_readM mirrors_tryM) (auto intro!: mirrors_whenM mirrors_modM)
  ultimately show ?thesis by (cases op) (auto intro!: mirror_rules)
qed

lemma mirrors_mark: "mirrors (apsnd fst) (mark_seen (traced E) u) (mark_seen E u)"
proof -
  have c: "e_close (traced E) fd (w, g) = (fst (e_close E fd w), (snd (e_close E fd w), g))" for fd w g
    by (simp add: traced_def on_world_def)
  have "\<exists>t'. mark_seen (traced E) u (op, w) = Some (r, t') \<and> apsnd fst t' = t"
    if "mark_seen E u (op, fst w) = Some (r, t)" for op w r t
    using that by (cases w; cases op)
      (auto simp: mark_seen_def op_defs Let_def c split: if_splits prod.splits sum.splits option.splits)
  then show ?thesis by (auto simp: mirrors_def)
qed

section \<open>The proactor\<close>

definition erase :: "'w observed \<Rightarrow> 'w proactor" where
  "erase s = \<lparr>world = fst (world s), cache = cache s, unsubmitted = unsubmitted s, pending_submit = pending_submit s,
     iouring = iouring s, loop = loop s, results = results s, stopped_serving = stopped_serving s,
     user_data_counter = user_data_counter s, ops = ops s, next_op = next_op s, futs = futs s, next_fut = next_fut s,
     alive = alive s, handler_log = handler_log s\<rparr>"

lemma erase_simps [simp]:
  "world (erase s) = fst (world s)" "cache (erase s) = cache s" "unsubmitted (erase s) = unsubmitted s"
  "pending_submit (erase s) = pending_submit s" "iouring (erase s) = iouring s" "loop (erase s) = loop s"
  "results (erase s) = results s" "stopped_serving (erase s) = stopped_serving s"
  "user_data_counter (erase s) = user_data_counter s" "ops (erase s) = ops s" "next_op (erase s) = next_op s"
  "futs (erase s) = futs s" "next_fut (erase s) = next_fut s" "alive (erase s) = alive s"
  "handler_log (erase s) = handler_log s"
  by (simp_all add: erase_def)

lemma erase_updates [simp]:
  "erase (s\<lparr>world := w\<rparr>) = (erase s)\<lparr>world := fst w\<rparr>" "erase (s\<lparr>cache := c\<rparr>) = (erase s)\<lparr>cache := c\<rparr>"
  "erase (s\<lparr>unsubmitted := u\<rparr>) = (erase s)\<lparr>unsubmitted := u\<rparr>"
  "erase (s\<lparr>pending_submit := b\<rparr>) = (erase s)\<lparr>pending_submit := b\<rparr>"
  "erase (s\<lparr>iouring := b\<rparr>) = (erase s)\<lparr>iouring := b\<rparr>" "erase (s\<lparr>loop := d\<rparr>) = (erase s)\<lparr>loop := d\<rparr>"
  "erase (s\<lparr>results := rs\<rparr>) = (erase s)\<lparr>results := rs\<rparr>"
  "erase (s\<lparr>stopped_serving := S\<rparr>) = (erase s)\<lparr>stopped_serving := S\<rparr>"
  "erase (s\<lparr>user_data_counter := n\<rparr>) = (erase s)\<lparr>user_data_counter := n\<rparr>"
  "erase (s\<lparr>ops := os\<rparr>) = (erase s)\<lparr>ops := os\<rparr>" "erase (s\<lparr>next_op := i\<rparr>) = (erase s)\<lparr>next_op := i\<rparr>"
  "erase (s\<lparr>futs := fs\<rparr>) = (erase s)\<lparr>futs := fs\<rparr>" "erase (s\<lparr>next_fut := i\<rparr>) = (erase s)\<lparr>next_fut := i\<rparr>"
  "erase (s\<lparr>handler_log := l\<rparr>) = (erase s)\<lparr>handler_log := l\<rparr>"
  by (simp_all add: erase_def)

lemma mirrors_liftW [mirror_intros]: "mirrors fst m m' \<Longrightarrow> mirrors erase (liftW m) (liftW m')"
  unfolding mirrors_def liftW_def zoomM_def by (fastforce split: option.splits)

text \<open>A loop is mirrored run by run.\<close>

definition mirrored_run :: "('s \<Rightarrow> 't) \<Rightarrow> ('s, 'a) py \<Rightarrow> 't \<Rightarrow> (exn + 'a) \<times> 't \<Rightarrow> bool" where
  "mirrored_run p m s' y \<longleftrightarrow> (\<forall>s. s' = p s \<longrightarrow> (\<exists>t'. m s = Some (fst y, t') \<and> p t' = snd y))"

lemma mirrors_runs: "(\<And>s' y. m' s' = Some y \<Longrightarrow> mirrored_run p m s' y) \<Longrightarrow> mirrors p m m'"
  by (auto simp: mirrors_def mirrored_run_def)

lemma mirrored_next: "mirrored_run p m (p t) y \<Longrightarrow> \<exists>t'. m t = Some (fst y, t') \<and> p t' = snd y"
  by (simp add: mirrored_run_def)

lemma mirrors_flush [mirror_intros]:
  fixes E :: "'w env"
  shows "mirrors erase (flush (traced E)) (flush E)"
proof (rule mirrors_runs)
  fix s' :: "'w proactor" and y assume run: "flush E s' = Some y"
  have "E = E \<longrightarrow> mirrored_run erase (flush (traced E)) s' y"
  proof (rule flush.raw_induct [where P = "\<lambda>E' s' y. E' = E \<longrightarrow> mirrored_run erase (flush (traced E)) s' y", OF _ run],
      unfold mirrored_run_def, intro impI allI, goal_cases)
    case (1 f E' s' y s)
    obtain r t where step: "liftW (io_uring_submit E) (erase s) = Some (r, t)"
      by (cases "e_submit E (fst (world s))") (auto simp: submit_run)
    then obtain t' where t: "liftW (io_uring_submit (traced E)) s = Some (r, t')" "erase t' = t"
      using mirrorsD [OF mirrors_liftW [OF mirrors_ring(4)]] by blast
    have run: "f E u = Some y \<Longrightarrow> u = erase u' \<Longrightarrow> \<exists>v. flush (traced E) u' = Some (fst y, v) \<and> erase v = snd y" for u u'
      using 1(1) by blast
    have t2: "t = erase t'" "t\<lparr>pending_submit := False\<rparr> = erase (t'\<lparr>pending_submit := False\<rparr>)" using t(2) by simp_all
    show ?case
      using 1(2-4) step t run [OF _ t2(1)] run [OF _ t2(2)]
      by (subst flush.simps) (auto split: sum.splits if_splits)
  qed
  then show "mirrored_run erase (flush (traced E)) s' y" by simp
qed

lemma mirrors_get_sqe [mirror_intros]: "mirrors erase (get_sqe (traced E)) (get_sqe E)"
  unfolding get_sqe_def by (intro mirror_rules mirror_intros)

lemma mirrors_capacity [mirror_intros]: "mirrors erase (ensure_capacity (traced E) k) (ensure_capacity E k)"
  unfolding ensure_capacity_def by (intro mirror_rules mirror_intros)

lemma mirrors_prepare:
  "(\<And>q. mirrors fst (p q) (p' q)) \<Longrightarrow> mirrors erase (prep (traced E) p ud fl) (prep E p' ud fl)"
  unfolding prep_def by (intro mirror_rules mirror_intros mirrors_modM) simp_all

lemma mirrors_submitter [mirror_intros]:
  "mirrors erase (sub_recv (traced E) r1 ud fl) (sub_recv E r1 ud fl)"
  "mirrors erase (sub_read (traced E) r2 ud fl) (sub_read E r2 ud fl)"
  "mirrors erase (sub_recvfrom (traced E) r3 ud fl) (sub_recvfrom E r3 ud fl)"
  "mirrors erase (sub_sendto (traced E) r4 ud fl) (sub_sendto E r4 ud fl)"
  "mirrors erase (sub_send (traced E) r5 ud fl) (sub_send E r5 ud fl)"
  "mirrors erase (sub_write (traced E) r6 ud fl) (sub_write E r6 ud fl)"
  "mirrors erase (sub_accept (traced E) r7 ud fl) (sub_accept E r7 ud fl)"
  "mirrors erase (sub_connect (traced E) r8 ud fl) (sub_connect E r8 ud fl)"
  "mirrors erase (sub_splice (traced E) r9 ud fl) (sub_splice E r9 ud fl)"
  "mirrors erase (sub_cancel (traced E) r10 ud fl) (sub_cancel E r10 ud fl)"
  "mirrors erase (sub_poll_add (traced E) r11 ud fl) (sub_poll_add E r11 ud fl)"
  unfolding sub_recv_def sub_read_def sub_recvfrom_def sub_sendto_def sub_send_def sub_write_def sub_accept_def
    sub_connect_def sub_splice_def sub_cancel_def sub_poll_add_def
  by (intro mirrors_prepare mirror_intros)+

lemma mirrors_own [mirror_intros]:
  "mirrors erase (submit op fut) (submit op fut)" "mirrors erase next_user_data next_user_data"
  "mirrors erase (new_op bop) (new_op bop)" "mirrors erase (new_future op) (new_future op)"
  "mirrors erase (base_cancel g) (base_cancel g)" "mirrors erase (set_loop debug) (set_loop debug)"
  "mirrors erase (log_handler c) (log_handler c)"
  unfolding submit_def next_user_data_def new_op_def new_future_def base_cancel_def set_loop_def log_handler_def
  by (intro mirrors_modM mirrors_actM; simp)+

lemma mirrors_start [mirror_intros]:
  "mirrors erase (sub ud 0) (sub' ud 0) \<Longrightarrow> mirrors erase (start op sub ud) (start op sub' ud)"
  unfolding start_def by (intro mirror_rules mirror_intros)

lemma mirrors_bytearray [mirror_intros]: "mirrors erase (bytearray (traced E) n) (bytearray E n)"
  unfolding bytearray_def by (intro mirror_rules mirror_intros)

lemma mirrors_starting [mirror_intros]:
  "mirrors erase (recv (traced E) conn n flags) (recv E conn n flags)"
  "mirrors erase (recv_into (traced E) conn buf flags) (recv_into E conn buf flags)"
  "mirrors erase (recvfrom (traced E) sock n flags) (recvfrom E sock n flags)"
  "mirrors erase (recvfrom_into (traced E) sock buf flags) (recvfrom_into E sock buf flags)"
  "mirrors erase (sendto (traced E) sock buf flags addr) (sendto E sock buf flags addr)"
  "mirrors erase (send (traced E) conn buf flags) (send E conn buf flags)"
  "mirrors erase (accept (traced E) sock) (accept E sock)"
  "mirrors erase (connect (traced E) sock address) (connect E sock address)"
  "mirrors erase (poll_add (traced E) conn events) (poll_add E conn events)"
  "mirrors erase (sendfile (traced E) sock conn offset count) (sendfile E sock conn offset count)"
  unfolding recv_def recv_into_def recvfrom_def recvfrom_into_def sendto_def send_def accept_def connect_def
    poll_add_def sendfile_def Let_def erased_gets
  by (intro mirror_rules mirror_intros)+

lemma mirrors_cancel [mirror_intros]:
  "mirrors erase (cancel_operation (traced E) opr flags) (cancel_operation E opr flags)"
  "mirrors erase (fut_cancel (traced E) g) (fut_cancel E g)"
proof -
  show *: "mirrors erase (cancel_operation (traced E) opr flags) (cancel_operation E opr flags)" for opr flags
    unfolding cancel_operation_def by (intro mirror_rules mirror_intros mirrors_getM) simp
  show "mirrors erase (fut_cancel (traced E) g) (fut_cancel E g)"
    unfolding fut_cancel_def by (intro mirror_rules mirror_intros * mirrors_getM) simp
qed

section \<open>Completions\<close>

lemma mirrors_mark_at [mirror_intros]: "mirrors erase (mark_seen_at (traced E) opr ud) (mark_seen_at E opr ud)"
  unfolding mirrors_def
proof (intro allI impI)
  fix s r t assume run: "mark_seen_at E opr ud (erase s) = Some (r, t)"
  then obtain op w where m: "mark_seen E ud (apsnd fst (ops s opr, world s)) = Some (r, (op, w))"
      and t: "t = (erase s)\<lparr>ops := (ops s)(opr := op), world := w\<rparr>"
    by (auto simp: mark_seen_at_def zoomM_def split: option.splits)
  from mirrorsD [OF mirrors_mark m] show "\<exists>t'. mark_seen_at (traced E) opr ud s = Some (r, t') \<and> erase t' = t"
    by (auto simp: mark_seen_at_def zoomM_def t)
qed

lemma mirrors_run [mirror_intros]: "mirrors erase (run_operation (traced E) cqe opr g) (run_operation E cqe opr g)"
proof -
  have "mirrors erase (apply_settle g a) (apply_settle g a)" for a
    unfolding apply_settle_def
    by (rule mirrors_readM) (auto simp: set_fut_state_def intro!: mirror_rules mirrors_modM split: settle.split)
  then show ?thesis
    unfolding run_operation_def
    by (intro mirrors_readM) (auto intro!: mirror_rules mirror_intros mirrors_readM mirrors_modM)
qed

lemma erased_stopped [simp]: "is_stopped (erase s) f = is_stopped s f"
  by (simp add: is_stopped_def split: fileobj.split)

lemma mirrors_handle [mirror_intros]: "mirrors erase (handle_cqe (traced E) cqe) (handle_cqe E cqe)"
  unfolding handle_cqe_def Let_def
  by (intro mirrors_readM)
    (auto intro!: mirror_rules mirror_intros mirrors_readM mirrors_modM split: option.split)

lemma mirrors_ring_call [mirror_intros]: "mirrors fst m m' \<Longrightarrow> mirrors erase (ring_call m) (ring_call m')"
  unfolding ring_call_def by (intro mirrors_readM) (auto intro!: mirror_rules mirror_intros)

lemma mirrors_consume [mirror_intros]: "mirrors erase (consume (traced E) c) (consume E c)"
  unfolding consume_def by (intro mirror_rules mirror_intros)

section \<open>Polling, stopping and closing\<close>

lemma mirrors_wait_loop [mirror_intros]: "mirrors erase (wait_loop (traced E)) (wait_loop E)"
proof (rule mirrors_runs)
  fix s' y assume run: "wait_loop E s' = Some y"
  have "E = E \<longrightarrow> mirrored_run erase (wait_loop (traced E)) s' y"
  proof (rule wait_loop.raw_induct [where P = "\<lambda>E' s' y. E' = E \<longrightarrow> mirrored_run erase (wait_loop (traced E)) s' y", OF _ run],
      intro impI, goal_cases)
    case (1 f E' s' y)
    show ?case
      unfolding mirrored_run_def
    proof (intro allI impI)
      fix s assume s: "s' = erase s"
      note step = mirrorsD [OF mirrors_ring_call [OF mirrors_ring(7)], of E s]
      have again: "f E (erase u) = Some y \<Longrightarrow> \<exists>v. wait_loop (traced E) u = Some (fst y, v) \<and> erase v = snd y" for u
        using 1(1) mirrored_next by fastforce
      show "\<exists>t'. wait_loop (traced E) s = Some (fst y, t') \<and> erase t' = snd y"
        using 1 s
        by (auto simp: wait_loop.simps [of "traced E" s] split: option.splits sum.splits if_splits
          dest!: step again)
    qed
  qed
  then show "mirrored_run erase (wait_loop (traced E)) s' y" by simp
qed

lemma mirrors_peek_loop [mirror_intros]: "mirrors erase (peek_loop (traced E)) (peek_loop E)"
proof (rule mirrors_runs)
  fix s' y assume run: "peek_loop E s' = Some y"
  have "E = E \<longrightarrow> mirrored_run erase (peek_loop (traced E)) s' y"
  proof (rule peek_loop.raw_induct [where P = "\<lambda>E' s' y. E' = E \<longrightarrow> mirrored_run erase (peek_loop (traced E)) s' y", OF _ run],
      intro impI, goal_cases)
    case (1 f E' s' y)
    show ?case
      unfolding mirrored_run_def
    proof (intro allI impI)
      fix s assume s: "s' = erase s"
      note step = mirrorsD [OF mirrors_ring_call [OF mirrors_ring(6)], of E s]
      have again: "f E (erase u) = Some y \<Longrightarrow> \<exists>v. peek_loop (traced E) u = Some (fst y, v) \<and> erase v = snd y" for u
        using 1(1) mirrored_next by fastforce
      show "\<exists>t'. peek_loop (traced E) s = Some (fst y, t') \<and> erase t' = snd y"
        using 1 s
        by (auto simp: peek_loop.simps [of "traced E" s] split: option.splits sum.splits if_splits
          dest!: step mirrorsD [OF mirrors_consume] again)
    qed
  qed
  then show "mirrored_run erase (peek_loop (traced E)) s' y" by simp
qed

lemma mirrors_poll [mirror_intros]: "mirrors erase (poll (traced E) timeout) (poll E timeout)"
  unfolding poll_def wait_timeout_def by (intro mirror_rules mirror_intros)

lemma mirrors_select [mirror_intros]: "mirrors erase (select (traced E) timeout) (select E timeout)"
  unfolding select_def
  by (intro mirror_rules mirrors_readM mirrors_actM) (auto intro!: mirror_rules mirror_intros)

lemma mirrors_stop [mirror_intros]: "mirrors erase (stop_serving (traced E) obj) (stop_serving E obj)"
proof -
  have entry: "mirrors erase (stop_entry (traced E) p) (stop_entry E p)" for p
    unfolding stop_entry_def
    by (intro mirrors_readM) (auto intro!: mirror_rules mirror_intros split: option.split)
  show ?thesis
    unfolding stop_serving_def
    by (intro mirror_rules mirrors_getM mirrors_modM entry) simp_all
qed

lemma mirrors_close_loop [mirror_intros]: "mirrors erase (close_loop (traced E)) (close_loop E)"
proof (rule mirrors_runs)
  fix s' y assume run: "close_loop E s' = Some y"
  have "E = E \<longrightarrow> mirrored_run erase (close_loop (traced E)) s' y"
  proof (rule close_loop.raw_induct [where P = "\<lambda>E' s' y. E' = E \<longrightarrow> mirrored_run erase (close_loop (traced E)) s' y", OF _ run],
      intro impI, goal_cases)
    case (1 f E' s' y)
    show ?case
      unfolding mirrored_run_def
    proof (intro allI impI)
      fix s assume s: "s' = erase s"
      have again: "f E (erase u) = Some y \<Longrightarrow> \<exists>v. close_loop (traced E) u = Some (fst y, v) \<and> erase v = snd y" for u
        using 1(1) mirrored_next by fastforce
      show "\<exists>t'. close_loop (traced E) s = Some (fst y, t') \<and> erase t' = snd y"
        using 1 s
        by (auto simp: close_loop.simps [of "traced E" s] split: option.splits sum.splits if_splits
          dest!: mirrorsD [OF mirrors_poll] again)
    qed
  qed
  then show "mirrored_run erase (close_loop (traced E)) s' y" by simp
qed

lemma mirrors_close [mirror_intros]: "mirrors erase (close (traced E)) (close E)"
proof -
  have entry: "mirrors erase (close_entry (traced E) p) (close_entry E p)" for p
    unfolding close_entry_def
    by (intro mirror_rules mirror_intros mirrors_readM) (auto intro!: mirror_rules mirror_intros)
  show ?thesis
    unfolding close_def
    by (intro mirrors_readM) (auto intro!: mirror_rules mirror_intros mirrors_modM entry)
qed

section \<open>Runs\<close>

lemma mirrors_call:
  assumes "api_call E (erase s) t"
  shows "\<exists>t'. api_call (traced E) s t' \<and> erase t' = t"
  using assms
  by cases (auto dest!: mirror_intros [THEN mirrorsD] intro: api_call.intros)

lemma erase_new: "erase (new_proactor (w, g) junk) = new_proactor w junk"
  by (simp add: erase_def new_proactor_def)

lemma mirrors_init: "mirrors erase (init_proactor (traced E) entries flags) (init_proactor E entries flags)"
  unfolding init_proactor_def
  by (intro mirror_rules mirror_intros mirrors_modM) simp_all

text \<open>The record can be kept along any run: it constrains nothing.\<close>

lemma run_observed: "reachable E s \<Longrightarrow> \<exists>s'. observed_run E s' \<and> erase s' = s"
proof (induction rule: reachable.induct)
  case (reachable_init entries flags w junk r s)
  then have "init_proactor E entries flags (erase (new_proactor (w, empty_trace) junk)) = Some (r, s)"
    by (simp add: erase_new)
  from mirrorsD [OF mirrors_init this] show ?case by (auto intro: observed_init)
next
  case (reachable_step s t)
  then obtain s' where s: "observed_run E s'" "erase s' = s" by blast
  from reachable_step(2) show ?case
  proof cases
    case step_call
    then show ?thesis using mirrors_call [of E s' t] s by (auto intro: observed_call)
  next
    case (step_world w)
    have "erase (s'\<lparr>world := (w, ring s')\<rparr>) = t" using s(2) step_world by simp
    then show ?thesis using observed_world [OF s(1), of w] by blast
  qed
qed

end
