(* ===== verification/Uring_Written.thy ===== *)
theory Uring_Written
  imports Uring_Memory
begin

text \<open>
  Where unwritten entries come from: only from a starting call, or a direct cancellation, that raised.
  As long as those return, whatever is in the submission queue between calls was filled and tagged by the
  call that took it, so no submission hands over what an earlier use left in a slot; polling,
  stopping, cancelling futures and closing may end as they will.
\<close>

section \<open>Written queues\<close>

definition written :: "ring_trace \<Rightarrow> bool" where
  "written g \<longleftrightarrow> rt_broken g \<or> (\<not> rt_stale g \<and> (\<forall>e \<in> set (rt_queue g). entry_of e \<noteq> []))"

lemma written_empty: "written empty_trace"
  by (simp add: written_def empty_trace_def)

lemma written_consume: "written g \<Longrightarrow> written (consume_slots k g)"
  by (auto simp: written_def consume_slots_def dest: in_set_takeD in_set_dropD)

lemma written_report: "written g \<Longrightarrow> written (report t g)"
  by (auto simp: written_def report_def)

lemma written_tagged: "written g \<Longrightarrow> written (tag_slot q t (fill_slot q c (take_slot q g)))"
proof (cases "rt_broken (take_slot q g)")
  case True
  then show ?thesis by (simp add: written_def tag_slot_def fill_slot_def)
next
  case False
  moreover assume "written g"
  ultimately have "\<not> bad (take_slot q g)" and g: "\<forall>e \<in> set (rt_queue g). entry_of e \<noteq> []" "\<not> rt_stale g"
    by (auto simp: written_def bad_def take_slot_def)
  then have "tag_slot q t (fill_slot q c (take_slot q g)) =
      g\<lparr>rt_queue := rt_queue g @ [\<lparr>q_slot = q, q_cells = Some c, q_tag = Some t\<rparr>]\<rparr>"
    using new_entry(2) by blast
  then show ?thesis using g by (simp add: written_def)
qed

lemma submits_written: "submits (traced E) w w' \<Longrightarrow> written (snd w) \<Longrightarrow> written (snd w')"
proof (induction rule: submits.induct)
  case (submits_step w w')
  have "written (snd (snd (e_submit (traced E) w)))"
    using traced_submit [of E w] submits_step.prems by (elim disjE exE) (simp_all add: written_consume)
  then show ?case by (rule submits_step.IH)
qed simp

lemma wp_flush_written:
  assumes "written (ring s)"
  shows "wp True (flush (traced E)) s (\<lambda>_ t. written (ring t)) (\<lambda>_ t. written (ring t))"
proof (rule wp_mono [OF wp_flush])
  fix x e and t :: "'a observed"
  have "written (ring t)" if "submits (traced E) (world s) (world t)"
    by (rule submits_written [OF that assms])
  then show "flush_ok (traced E) s t \<Longrightarrow> written (ring t)" "flush_bad (traced E) e s t \<Longrightarrow> written (ring t)"
    by (simp_all add: flush_ok_def flush_bad_def)
qed

text \<open>The entry taken last is the only one that may be unwritten.\<close>

lemma wp_get_sqe_written:
  assumes s: "written (ring s)"
  shows "wp True (get_sqe (traced E)) s (\<lambda>q t. \<exists>g. written g \<and> ring t = take_slot q g) (\<lambda>_ t. written (ring t))"
proof -
  let ?Q = "\<lambda>(q :: nat) t. \<exists>g. written g \<and> ring t = take_slot q g" and ?W = "\<lambda>t. written (ring t)"
  have get: "wp True (liftW (io_uring_get_sqe (traced E))) t
      (\<lambda>r u. case r of None \<Rightarrow> ?W u | Some q \<Rightarrow> ?Q q u) (\<lambda>_. ?W)" if "?W t" for t :: "'a observed"
  proof -
    obtain r w where r: "e_get_sqe (traced E) (world t) = (r, w)" by (cases "e_get_sqe (traced E) (world t)")
    show ?thesis
      using traced_get_sqe [OF r] that
      by (auto simp: io_uring_get_sqe_def wp_liftW wp_actM r split: option.split)
  qed
  have again: "wp True (bindM (liftW (io_uring_get_sqe (traced E))) (\<lambda>r. case r of
      Some q \<Rightarrow> ret q | None \<Rightarrow> raise e)) t ?Q (\<lambda>_. ?W)" if "?W t" for t :: "'a observed" and e
    unfolding wp_bindM
    by (rule wp_mono [OF get [OF that]]) (auto simp: wp_ret wp_raise split: option.splits)
  have flushed: "wp True (thenM (flush (traced E)) (bindM (liftW (io_uring_get_sqe (traced E))) (\<lambda>r. case r of
      Some q \<Rightarrow> ret q | None \<Rightarrow> raise e))) t ?Q (\<lambda>_. ?W)" if "?W t" for t :: "'a observed" and e
    unfolding wp_thenM
    by (rule wp_mono [OF wp_flush_written [OF that]]) (simp_all add: again)
  show ?thesis
    unfolding get_sqe_def wp_bindM [of _ "liftW (io_uring_get_sqe (traced E))" "\<lambda>sqe. case sqe of
      None \<Rightarrow> thenM (flush (traced E)) (k sqe) | Some q \<Rightarrow> ret q" for k]
    by (rule wp_mono [OF get [OF s]]) (auto simp: wp_ret flushed split: option.splits)
qed

text \<open>
  A preparation that returns has written the entry it took. One that cannot fail after it took the
  entry leaves the queue written when it raises, too.
\<close>

lemma prep_written:
  assumes p: "prep_interface (traced E) p" and s: "written (ring s)"
    and safe: "B \<Longrightarrow> 0 \<le> ud \<and> ud < 2 ^ 64 \<and> (\<forall>q w. wp True (p q) w (\<lambda>_ _. True) (\<lambda>_ _. False))"
  shows "wp True (prep (traced E) p ud flags) s (\<lambda>_ t. written (ring t)) (\<lambda>_ t. B \<longrightarrow> written (ring t))"
  unfolding prep_def wp_bindM [of _ "get_sqe (traced E)"]
proof (rule wp_mono [OF wp_get_sqe_written [OF s]], goal_cases)
  case (1 q t)
  then obtain g where g: "written g" "ring t = take_slot q g" by blast
  have quiet: "wp True (p q) w (\<lambda>_ _. True) (\<lambda>_ _. \<not> B)" for w
  proof (cases B)
    case True
    then have "wp True (p q) w (\<lambda>_ _. True) (\<lambda>_ _. False)" using safe by blast
    then show ?thesis by (rule wp_mono) simp_all
  qed (simp add: wp_def split: option.split sum.split)
  have run: "wp True (p q) (world t) (\<lambda>r w'. \<exists>c. snd w' = fill_slot q c (take_slot q g)) (\<lambda>_ _. \<not> B)"
    using wp_conj [OF wp_weaken [OF prep_interface.prep_runs [OF p]] quiet]
    by (rule wp_mono) (auto simp: filled_entry_def g(2) dest!: allocs_trace)
  show ?case
    using safe by (auto simp: wp_rules wp_liftW io_uring_sqe_set_data64_def io_uring_sqe_set_flags_def c_u64_def c_unsigned_def
      written_tagged g(1) intro!: wp_mono [OF run])
qed simp

section \<open>Calls that return\<close>

definition writes :: "('w observed, 'a) py \<Rightarrow> bool" where
  "writes m \<longleftrightarrow> (\<forall>s x t. m s = Some (Inr x, t) \<longrightarrow> written (ring s) \<longrightarrow> written (ring t))"

lemma writesI: "(\<And>s. written (ring s) \<Longrightarrow> wp True m s (\<lambda>_ t. written (ring t)) (\<lambda>_ _. True)) \<Longrightarrow> writes m"
  unfolding writes_def by (auto dest: wp_Inr)

lemma writesD: "writes m \<Longrightarrow> m s = Some (Inr x, t) \<Longrightarrow> written (ring s) \<Longrightarrow> written (ring t)"
  by (simp add: writes_def)

lemma writes_bindM: "writes m \<Longrightarrow> (\<And>x. writes (f x)) \<Longrightarrow> writes (bindM m f)"
  unfolding writes_def bindM_Inr_iff by blast

lemma writes_thenM: "writes m \<Longrightarrow> writes k \<Longrightarrow> writes (thenM m k)"
  by (simp add: thenM_def writes_bindM)

lemma writes_aside: "keeps aside m \<Longrightarrow> writes m"
  by (auto simp: writes_def aside_def dest!: keepsD)

lemma writes_ret: "writes (ret x)"
  by (rule writes_aside [OF asides.keeps_ret])

lemma writes_same: "(\<And>s. ring (snd (f s)) = ring s) \<Longrightarrow> writes (actM f)" "(\<And>s. ring (g s) = ring s) \<Longrightarrow> writes (modM g)"
  by (auto simp: writes_def actM_def modM_def split: prod.splits) (metis snd_conv)

lemma writes_own: "writes next_user_data" "writes (new_op op)" "writes (new_future opr)" "writes (submit opr fut)"
  unfolding next_user_data_def new_op_def new_future_def submit_def by (rule writes_same, simp)+

lemma writes_prep:
  assumes "prep_interface (traced E) p"
  shows "writes (prep (traced E) p ud flags)"
  by (rule writesI, rule wp_mono [OF prep_written [OF assms, where B = False]]) simp_all

lemma writes_sub:
  "writes (sub_send (traced E) r1 ud flags)" "writes (sub_recv (traced E) r2 ud flags)" "writes (sub_write (traced E) r3 ud flags)"
  "writes (sub_read (traced E) r4 ud flags)" "writes (sub_accept (traced E) r5 ud flags)" "writes (sub_connect (traced E) r6 ud flags)"
  "writes (sub_poll_add (traced E) r7 ud flags)" "writes (sub_cancel (traced E) r8 ud flags)" "writes (sub_sendto (traced E) r9 ud flags)"
  "writes (sub_recvfrom (traced E) r10 ud flags)" "writes (sub_splice (traced E) r11 ud flags)"
  unfolding sub_send_def sub_recv_def sub_write_def sub_read_def sub_accept_def sub_connect_def sub_poll_add_def
    sub_cancel_def sub_sendto_def sub_recvfrom_def sub_splice_def
  by (rule writes_prep, rule prep_interfaces)+

lemma writes_start: "writes (sub ud 0) \<Longrightarrow> writes (start op sub ud)"
  unfolding start_def by (intro writes_bindM writes_thenM writes_own writes_ret)

lemma writes_new: "writes (bytearray (traced E) n)" "writes (liftW (new_writable_sockaddr (traced E) fam))"
    "writes (liftW (new_readable_sockaddr (traced E) fam addr))"
proof -
  have lift: "keeps aside (liftW (ofE x))" for x
    by (auto simp: keeps_def liftW_def zoomM_def ofE_def asides.step_refl)
  show "writes (bytearray (traced E) n)"
    unfolding bytearray_def by (rule writes_aside) (auto intro!: asides.keeps_rules aside_new)
  show "writes (liftW (new_writable_sockaddr (traced E) fam))" "writes (liftW (new_readable_sockaddr (traced E) fam addr))"
    unfolding new_writable_sockaddr_def new_readable_sockaddr_def liftW_bindM
    by (rule writes_aside, intro asides.keeps_rules aside_new lift)+
qed

lemma writes_starting:
  assumes "m \<in> starting_methods (traced E)"
  shows "writes m"
  using assms
proof cases
  case (starting_sendfile sock conn offset count)
  have "keeps aside (liftW (io_uring_sq_space_left (traced E)))"
    by (rule aside_lift) (simp add: io_uring_sq_space_left_def wp_getM)
  moreover have "writes (flush (traced E))"
    by (rule writesI, rule wp_mono [OF wp_flush_written]) simp_all
  ultimately have "writes (ensure_capacity (traced E) 2)"
    unfolding ensure_capacity_def whenM_def
    by (intro writes_bindM writes_thenM) (auto intro: writes_aside asides.keeps_rules)
  then show ?thesis
    unfolding starting_sendfile sendfile_def Let_def case_prod_unfold
    by (intro writes_bindM writes_thenM writes_own writes_ret writes_aside [OF aside_new(3)] writes_sub)
qed (auto simp: recv_def recv_into_def recvfrom_def recvfrom_into_def sendto_def send_def accept_def connect_def
  poll_add_def split: fileobj.split intro!: writes_bindM writes_new writes_own writes_start writes_ret writes_sub)

lemma writes_cancel: "writes (cancel_operation (traced E) opr flags)"
proof -
  have "writes (getM f)" for f :: "'a observed \<Rightarrow> int option" by (rule writes_aside [OF asides.keeps_getM])
  then show ?thesis
    unfolding cancel_operation_def
    by (intro writes_bindM) (auto split: option.split intro!: writes_bindM writes_thenM writes_own writes_ret writes_sub)
qed

section \<open>Calls that may end as they will\<close>

definition tidy :: "'w observed \<Rightarrow> 'w observed \<Rightarrow> bool" where
  "tidy s t \<longleftrightarrow> evolves s t \<and> (written (ring s) \<longrightarrow> written (ring t))"

lemma step_if_tidy:
  assumes "step_if evolves P s t"
    and "P \<Longrightarrow> proactor_inv s \<Longrightarrow> user_data_counter t \<le> 2 ^ 64 \<Longrightarrow> written (ring s) \<Longrightarrow> written (ring t)"
  shows "step_if tidy P s t"
  using assms by (simp add: step_if_def tidy_def)

lemma tidy_aside: "keeps aside m \<Longrightarrow> keeps (step_if evolves True) m \<Longrightarrow> keeps (step_if tidy True) m"
  by (auto intro!: keepsI step_if_tidy dest!: keepsD simp: aside_def)

text \<open>A cancellation has nothing left to fail for once it has an entry: its two numbers are in range.\<close>

lemma cancel_written:
  assumes s: "written (ring s)" and inv: "proactor_inv s" and opr: "opr < next_op s" and n: "user_data_counter s < 2 ^ 64"
  shows "wp True (cancel_operation (traced E) opr 0) s (\<lambda>_ t. written (ring t)) (\<lambda>_ t. written (ring t))"
proof (cases "get_user_data (ops s opr)")
  case None
  then show ?thesis using s by (simp add: cancel_operation_def wp_rules)
next
  case (Some ud)
  let ?t = "s\<lparr>user_data_counter := user_data_counter s + 1\<rparr>"
  have pos: "1 \<le> user_data_counter s" and ud: "1 \<le> ud" "ud < user_data_counter s"
    using inv opr get_user_data_own [OF Some] by (auto simp: proactor_inv_def ops_ok_def)
  have "wp True (io_uring_prep_cancel64 (traced E) \<lparr>can_user_data = ud, can_flags = 0\<rparr> q) w (\<lambda>_ _. True) (\<lambda>_ _. False)" for q w
    using ud n by (simp add: io_uring_prep_cancel64_def wp_rules c_u64_def c_int_def call_prep_def)
  then have "wp True (sub_cancel (traced E) \<lparr>can_user_data = ud, can_flags = 0\<rparr> (user_data_counter s) 0) ?t
      (\<lambda>_ t. written (ring t)) (\<lambda>_ t. True \<longrightarrow> written (ring t))"
    unfolding sub_cancel_def
    by (intro prep_written prep_cancel64_ok.prep_interface_axioms) (use s pos n in simp_all)
  then have "wp True (thenM (sub_cancel (traced E) \<lparr>can_user_data = ud, can_flags = 0\<rparr> (user_data_counter s) 0) (submit opr None)) ?t
      (\<lambda>_ t. written (ring t)) (\<lambda>_ t. written (ring t))"
    unfolding wp_thenM by (rule wp_mono) (simp_all add: submit_def wp_modM)
  then show ?thesis
    using s by (simp add: cancel_operation_def wp_bindM wp_getM Some next_user_data_def wp_actM wp_ret)
qed

lemma cancel_tidy:
  "wp True (cancel_operation (traced E) opr 0) s (\<lambda>_. step_if tidy (opr < next_op s) s) (\<lambda>_. step_if tidy (opr < next_op s) s)"
proof (cases "written (ring s) \<and> proactor_inv s \<and> opr < next_op s \<and> user_data_counter s < 2 ^ 64")
  case True
  then show ?thesis
    by (intro wp_mono [OF wp_conj [OF soundness.cancel_op cancel_written]]) (auto intro: step_if_tidy)
next
  case False
  show ?thesis
    by (rule wp_mono [OF wp_conj [OF soundness.cancel_op wp_cancel_operation]])
      (use False in \<open>auto intro!: step_if_tidy simp: cancel_sent_def sub_frame_def split: option.splits if_splits\<close>)
qed

interpretation tidy_calls: cancelling tidy "traced E" for E :: "'w env"
proof
  fix s :: "'w observed" and f assume "\<not> fut_done (futs s f)"
  from soundness.cancel_fut [OF this]
  show "step_if tidy (f < next_fut s) s (set_fut_state f Cancelled s)"
    by (rule step_if_tidy) (simp add: set_fut_state_def)
qed (auto simp: tidy_def evolves_refl intro: evolves_trans cancel_tidy)

lemma handle_written:
  fixes E :: "'w env" and s :: "'w observed"
  assumes inv: "proactor_inv s" and s: "written (ring s)"
  shows "wp True (handle_cqe (traced E) cqe) s (\<lambda>_ t. user_data_counter t \<le> 2 ^ 64 \<longrightarrow> written (ring t))
    (\<lambda>_ t. user_data_counter t \<le> 2 ^ 64 \<longrightarrow> written (ring t))"
proof (rule wp_handle_rule)
  let ?ud = "cqe_user_data cqe"
  fix p f op' w r
  assume p: "(?ud, p) \<in> set (cache s)" and f: "pc_future p = Some f"
  let ?t = "marked s ?ud p op' w"
  have marked: "written (ring ?t)" if "mark_seen (traced E) ?ud (ops s (pc_operation p), world s) = Some (r, (op', w))" for r
    using mark_seen_trace [OF that] s by simp
  then show "user_data_counter ?t \<le> 2 ^ 64 \<longrightarrow> written (ring ?t)"
    if "mark_seen (traced E) ?ud (ops s (pc_operation p), world s) = Some (Inl e, (op', w))" for e
    using that by simp
  assume m: "mark_seen (traced E) ?ud (ops s (pc_operation p), world s) = Some (Inr (), (op', w))"
  have "f < next_fut s" "proactor_inv ?t"
    using inv p f marked_inv [OF inv p f m] by (auto simp: proactor_inv_def entry_static_def dest: cache_okD)
  then show "wp True (bindM (fut_cancel (traced E) f) (\<lambda>_. ret ())) ?t (\<lambda>_ t. user_data_counter t \<le> 2 ^ 64 \<longrightarrow> written (ring t))
      (\<lambda>_ t. user_data_counter t \<le> 2 ^ 64 \<longrightarrow> written (ring t))"
    by (intro wp_mono [OF tidy_calls.fut_cancel_unit]) (use marked [OF m] in \<open>auto simp: step_if_def tidy_def\<close>)
  have "wp True (run_operation (traced E) cqe (pc_operation p) f) ?t (\<lambda>_. aside ?t) (\<lambda>_. aside ?t)"
    by (rule run_aside [unfolded keeps_wp, rule_format])
  then show "wp True (run_operation (traced E) cqe (pc_operation p) f) ?t (\<lambda>_ t. user_data_counter t \<le> 2 ^ 64 \<longrightarrow> written (ring t))
      (\<lambda>_ t. user_data_counter t \<le> 2 ^ 64 \<longrightarrow> written (ring t))"
    by (rule wp_mono) (use marked [OF m] in \<open>auto simp: aside_def\<close>)
qed (use s in simp_all)

lemma handle_tidy: "keeps (step_if tidy True) (handle_cqe (traced E) cqe)"
  unfolding keeps_wp
proof
  fix s
  show "wp True (handle_cqe (traced E) cqe) s (\<lambda>_. step_if tidy True s) (\<lambda>_. step_if tidy True s)"
  proof (cases "proactor_inv s \<and> written (ring s)")
    case True
    then show ?thesis
      by (intro wp_mono [OF wp_conj [OF wp_handle_cqe handle_written]])
        (auto intro!: step_if_tidy simp: completes_def sound_step_if)
  next
    case False
    show ?thesis
      by (rule wp_mono [OF wp_handle_cqe]) (use False in \<open>auto intro!: step_if_tidy simp: completes_def sound_step_if\<close>)
  qed
qed

lemma reads_tidy:
  assumes "\<And>w. wp True m w (\<lambda>_ w'. \<exists>f r c. tells f w = ((r, c), w')) (\<lambda>_ w'. \<exists>f r c. tells f w = ((r, c), w'))"
  shows "keeps (step_if tidy True) (ring_call m)"
proof -
  have "written (snd w')" if "tells f (world s) = ((r, c), w')" "written (ring s)" for f r c w' and s :: "'a observed"
    using traced_reports [OF that(1)] that(2) written_report by (auto split: if_splits)
  then have "wp True (ring_call m) s (\<lambda>_ t. written (ring s) \<longrightarrow> written (ring t)) (\<lambda>_ t. written (ring s) \<longrightarrow> written (ring t))" for s
    by (auto simp: ring_call_def wp_readM wp_if wp_liftW wp_raise intro!: wp_mono [OF assms])
  from wp_outcome [OF this] show ?thesis
    by (intro keepsI step_if_tidy) (rule keepsD [OF soundness.keeps_ring_call], assumption, blast)
qed

interpretation tidy_client: operating tidy "traced E" for E :: "'w env"
proof
  show "keeps (step_if tidy True) (flush (traced E))"
    by (intro keepsI step_if_tidy) (rule keepsD [OF soundness.keeps_flushing], assumption, rule wp_outcome [OF wp_flush_written])
  show "keeps (step_if tidy True) (ring_call (io_uring_wait_cqe (traced E)))"
    "keeps (step_if tidy True) (ring_call (io_uring_peek_cqe (traced E)))"
    "keeps (step_if tidy True) (ring_call (io_uring_wait_cqe_timeout (traced E) ts))" for ts
    by (rule reads_tidy, auto simp: io_uring_wait_cqe_def io_uring_peek_cqe_def io_uring_wait_cqe_timeout_def wp_rules
      check_res_def traced_def split: prod.split)+
  show "keeps (step_if tidy True) (ring_call (io_uring_cqe_seen (traced E) c))"
    "keeps (step_if tidy True) (ring_call (io_uring_queue_exit (traced E)))" for c
    by (intro tidy_aside aside_ring soundness.keeps_ring_call)+
qed (auto simp: tidy_def evolves_frame evolves_refl intro: handle_tidy)

section \<open>Runs\<close>

text \<open>
  Runs in which every starting call, and every direct cancellation of an operation, returned. The
  other methods may have raised.
\<close>

inductive tidy_run :: "'w env \<Rightarrow> 'w observed \<Rightarrow> bool" for E where
  tidy_init: "init_proactor (traced E) entries flags (new_proactor (w, empty_trace) junk) = Some (r, s) \<Longrightarrow> tidy_run E s"
| tidy_start: "tidy_run E s \<Longrightarrow> m \<in> starting_methods (traced E) \<Longrightarrow> m s = Some (Inr f, t) \<Longrightarrow> tidy_run E t"
| tidy_cancel: "tidy_run E s \<Longrightarrow> opr < next_op s \<Longrightarrow> cancel_operation (traced E) opr flags s = Some (Inr u, t) \<Longrightarrow> tidy_run E t"
| tidy_fut_cancel: "tidy_run E s \<Longrightarrow> f < next_fut s \<Longrightarrow> fut_cancel (traced E) f s = Some (b, t) \<Longrightarrow> tidy_run E t"
| tidy_select: "tidy_run E s \<Longrightarrow> select (traced E) timeout s = Some (rs, t) \<Longrightarrow> tidy_run E t"
| tidy_stop: "tidy_run E s \<Longrightarrow> stop_serving (traced E) obj s = Some (v, t) \<Longrightarrow> tidy_run E t"
| tidy_close: "tidy_run E s \<Longrightarrow> close (traced E) s = Some (v, t) \<Longrightarrow> tidy_run E t"
| tidy_loop: "tidy_run E s \<Longrightarrow> set_loop debug s = Some (v, t) \<Longrightarrow> tidy_run E t"
| tidy_world: "tidy_run E s \<Longrightarrow> tidy_run E (s\<lparr>world := (w, ring s)\<rparr>)"

lemma start_call: "m \<in> starting_methods E \<Longrightarrow> m s = Some (r, t) \<Longrightarrow> api_call E s t"
  by (erule starting_methods.cases) (auto intro: api_call.intros)

lemma tidy_observed: "tidy_run E s \<Longrightarrow> observed_run E s"
  by (induction rule: tidy_run.induct)
    (blast intro: observed_run.intros start_call step_cancel_operation step_fut_cancel step_select step_stop_serving
      step_close step_set_loop)+

lemma tidy_step:
  assumes laws: "sq_laws E n" and run: "tidy_run E s" and keeps: "step_if tidy True s t"
    and IH: "user_data_counter s \<le> 2 ^ 64 \<Longrightarrow> written (ring s)" and hi: "user_data_counter t \<le> 2 ^ 64"
  shows "written (ring t)"
proof -
  have lo: "user_data_counter s \<le> 2 ^ 64" using keeps hi by (simp add: step_if_def)
  then have "proactor_inv s"
    using reachable_inv [OF observed_reachable [OF tidy_observed [OF run]] traced_laws [OF laws]] by simp
  then show ?thesis using keeps hi IH [OF lo] by (simp add: step_if_def tidy_def)
qed

lemma tidy_written:
  assumes laws: "sq_laws E n"
  shows "tidy_run E s \<Longrightarrow> user_data_counter s \<le> 2 ^ 64 \<Longrightarrow> written (ring s)"
proof (induction rule: tidy_run.induct)
  case (tidy_init entries flags w junk r s)
  have "snd (snd (e_queue_init (traced E) n f (w, empty_trace))) = empty_trace" for n f by simp
  then have "ring s = empty_trace"
    using tidy_init(1)
    by (auto simp: init_proactor_def new_proactor_def py_defs io_uring_queue_init_def c_unsigned_def check_res_def
      split: option.splits sum.splits prod.splits if_splits dest!: arg_cong [where f = "\<lambda>x. snd (snd x)"])
  then show ?case by (simp add: written_empty)
next
  case (tidy_start s m f t)
  have "user_data_counter s \<le> user_data_counter t"
    using keepsD [OF sound_start [OF traced_laws [OF laws] tidy_start(2)] tidy_start(3)] by (simp add: sound_step_def)
  then show ?case using tidy_start writesD [OF writes_starting [OF tidy_start(2)]] by simp
next
  case (tidy_cancel s opr flags u t)
  have "user_data_counter s \<le> user_data_counter t"
    using wp_outcome [OF soundness.on_cancel tidy_cancel(3)] by (simp add: step_if_def)
  then show ?case using tidy_cancel writesD [OF writes_cancel tidy_cancel(3)] by simp
next
  case (tidy_fut_cancel s f b t)
  then have "step_if tidy True s t"
    using wp_outcome [OF tidy_calls.fut_cancel_if tidy_fut_cancel(3)] by simp
  then show ?case using tidy_step [OF laws] tidy_fut_cancel by blast
next
  case (tidy_select s timeout rs t)
  then show ?case using tidy_step [OF laws] keepsD [OF tidy_client.polls.keeps_select] by blast
next
  case (tidy_stop s obj v t)
  then show ?case using tidy_step [OF laws] keepsD [OF tidy_client.keeps_stop_serving] by blast
next
  case (tidy_close s v t)
  then show ?case using tidy_step [OF laws] keepsD [OF tidy_client.keeps_close] by blast
next
  case (tidy_loop s debug v t)
  then show ?case using tidy_step [OF laws] keepsD [OF tidy_client.keeps_set_loop] by blast
qed simp

end
