(* ===== verification/Uring_Progress.thy ===== *)
theory Uring_Progress
  imports Uring_Behaviour
begin

text \<open>
  Progress: over a kernel that completes what it was given, polling and closing return. What is
  known of the kernel is stated on the parameter \<open>env\<close> through a view of its world: how many
  completions are still due, which numbers are in flight, in the queue or beyond it (\<open>kv_live\<close>),
  which of them have been submitted (\<open>kv_sent\<close>), which completion is next.
\<close>

section \<open>The kernel\<close>

record 'w kernel_view =
  kv_due :: "'w \<Rightarrow> nat"
  kv_live :: "'w \<Rightarrow> int set"
  kv_sent :: "'w \<Rightarrow> int set"
  kv_blank :: "nat \<Rightarrow> 'w \<Rightarrow> bool"
  kv_head :: "c_cqe \<Rightarrow> 'w \<Rightarrow> bool"
  kv_patience :: "'w \<Rightarrow> nat"

text \<open>
  \<open>flight\<close>: no number got lost and the next completion stays; \<open>quiet\<close>: nor is more due.
\<close>

definition flight :: "'w kernel_view \<Rightarrow> 'w \<Rightarrow> 'w \<Rightarrow> bool" where
  "flight v w w' \<longleftrightarrow> kv_live v w \<subseteq> kv_live v w' \<and> kv_sent v w \<subseteq> kv_sent v w' \<and>
     (\<forall>c. kv_head v c w \<longrightarrow> kv_head v c w')"

definition quiet :: "'w kernel_view \<Rightarrow> 'w \<Rightarrow> 'w \<Rightarrow> bool" where
  "quiet v w w' \<longleftrightarrow> kv_due v w' = kv_due v w \<and> flight v w w'"

text \<open>
  The laws: an entry that was taken is due, and is in flight under the number that is written
  into it, and when the queue is empty, everything in flight was submitted; peeking and waiting show the next completion, which \<open>io_uring_cqe_seen\<close> removes; a
  timed wait on submitted entries fails only finitely often before a completion arrives.
\<close>

definition entry_laws :: "'w env \<Rightarrow> 'w kernel_view \<Rightarrow> bool" where
  "entry_laws E v \<longleftrightarrow>
     (\<forall>w w'. e_get_sqe E w = (None, w') \<longrightarrow> quiet v w w') \<and>
     (\<forall>w q w'. e_get_sqe E w = (Some q, w') \<longrightarrow> flight v w w' \<and> kv_blank v q w') \<and>
     (\<forall>q c w. quiet v w (e_prep E q c w) \<and> (kv_blank v q w \<longrightarrow> kv_blank v q (e_prep E q c w))) \<and>
     (\<forall>q d w. kv_blank v q w \<longrightarrow> 0 < d \<longrightarrow> d < 2 ^ 64 \<longrightarrow>
        quiet v w (e_set_data64 E q d w) \<and> d \<in> kv_live v (e_set_data64 E q d w)) \<and>
     (\<forall>q f w. quiet v w (e_set_flags E q f w)) \<and>
     (\<forall>q w. quiet v w (snd (e_ffi_new E w)) \<and> (kv_blank v q w \<longrightarrow> kv_blank v q (snd (e_ffi_new E w)))) \<and>
     (\<forall>w. quiet v w (snd (e_submit E w))) \<and>
     (\<forall>w. e_sq_ready E w = 0 \<longrightarrow> kv_live v w \<subseteq> kv_sent v w)"

definition still_laws :: "'w env \<Rightarrow> 'w kernel_view \<Rightarrow> bool" where
  "still_laws E v \<longleftrightarrow>
     (\<forall>fd w. quiet v w (snd (e_close E fd w))) \<and>
     (\<forall>fam ty proto fd w. quiet v w (snd (e_socket_fromfd E fam ty proto fd w))) \<and>
     (\<forall>s b w. quiet v w (e_setblocking E s b w)) \<and>
     (\<forall>k w. quiet v w (snd (e_bytearray E k w))) \<and>
     (\<forall>a w. quiet v w (snd (e_new_sockaddr E a w))) \<and>
     (\<forall>w. quiet v w (snd (e_pipe E w)))"

definition cq_laws :: "'w env \<Rightarrow> 'w kernel_view \<Rightarrow> bool" where
  "cq_laws E v \<longleftrightarrow>
     (\<forall>w r c w'. e_peek_cqe E w = ((r, c), w') \<longrightarrow> quiet v w w' \<and> (0 \<le> sint r \<longrightarrow> kv_head v c w')) \<and>
     (\<forall>w r c w'. e_wait_cqe E w = ((r, c), w') \<longrightarrow> quiet v w w' \<and> (0 \<le> sint r \<longrightarrow> kv_head v c w')) \<and>
     (\<forall>ts w r c w'. e_wait_cqe_timeout E ts w = ((r, c), w') \<longrightarrow> quiet v w w' \<and>
        (if 0 \<le> sint r then kv_head v c w'
         else kv_sent v w \<noteq> {} \<longrightarrow> kv_patience v w' < kv_patience v w)) \<and>
     (\<forall>c w. kv_head v c w \<longrightarrow> kv_due v (e_cqe_seen E c w) < kv_due v w \<and>
        kv_live v w - {uint (c_user_data c)} \<subseteq> kv_live v (e_cqe_seen E c w) \<and>
        kv_sent v w - {uint (c_user_data c)} \<subseteq> kv_sent v (e_cqe_seen E c w))"

definition kernel_laws :: "'w env \<Rightarrow> 'w kernel_view \<Rightarrow> bool" where
  "kernel_laws E v \<longleftrightarrow> entry_laws E v \<and> still_laws E v \<and> cq_laws E v"

lemma flight_refl: "flight v w w"
  by (simp add: flight_def)

lemma flight_trans: "flight v a b \<Longrightarrow> flight v b c \<Longrightarrow> flight v a c"
  by (auto simp: flight_def)

lemma quiet_refl: "quiet v w w"
  by (simp add: quiet_def flight_refl)

lemma quiet_trans: "quiet v a b \<Longrightarrow> quiet v b c \<Longrightarrow> quiet v a c"
  by (auto simp: quiet_def intro: flight_trans)

lemma quiet_flight: "quiet v a b \<Longrightarrow> flight v a b"
  by (simp add: quiet_def)

lemma submits_quiet: "submits E w w' \<Longrightarrow> entry_laws E v \<Longrightarrow> quiet v w w'"
  by (induction rule: submits.induct) (auto simp: entry_laws_def quiet_refl intro: quiet_trans)

section \<open>Calls that return\<close>

lemma wp_returns: "wp True m s Q X \<Longrightarrow> \<exists>r t. m s = Some (r, t) \<Longrightarrow> wp False m s Q X"
  by (auto simp: wp_def)

text \<open>
  What is known of a run: the laws of the queue, of interruptions and of the kernel. Only
  entries that were registered are counted on; \<open>waits\<close> counts the ones with a future.
\<close>

definition fair :: "'w env \<Rightarrow> 'w kernel_view \<Rightarrow> bool" where
  "fair E v \<longleftrightarrow> (\<exists>n. sq_laws E n) \<and> (\<exists>m. eintr_budget E m) \<and> kernel_laws E v"

definition waits :: "'w proactor \<Rightarrow> nat" where
  "waits s = length (filter (\<lambda>(u, p). pc_future p \<noteq> None) (cache s))"

text \<open>
  Every number that is registered, or prepared to be, is in flight (\<open>covered\<close>), and what is
  registered was submitted or a submission is pending. Between calls nothing is left prepared
  (\<open>coupled\<close>).
\<close>

definition entry_keys :: "('w, 'z) submitter_scheme \<Rightarrow> int set" where
  "entry_keys s = dict_keys (cache s) \<union> fst ` set (unsubmitted s)"

definition covered :: "'w kernel_view \<Rightarrow> 'w proactor \<Rightarrow> bool" where
  "covered v s \<longleftrightarrow> 1 \<le> user_data_counter s \<and> entry_keys s \<subseteq> {..< user_data_counter s} \<and>
     entry_keys s \<subseteq> kv_live v (world s) \<and> (pending_submit s \<or> dict_keys (cache s) \<subseteq> kv_sent v (world s))"

definition coupled :: "'w kernel_view \<Rightarrow> 'w proactor \<Rightarrow> bool" where
  "coupled v s \<longleftrightarrow> covered v s \<and> unsubmitted s = []"

lemma coupled_iff:
  "coupled v s \<longleftrightarrow> 1 \<le> user_data_counter s \<and> (\<forall>k \<in> dict_keys (cache s). k < user_data_counter s) \<and>
     unsubmitted s = [] \<and> dict_keys (cache s) \<subseteq> kv_live v (world s) \<and>
     (pending_submit s \<or> dict_keys (cache s) \<subseteq> kv_sent v (world s))"
  by (auto simp: coupled_def covered_def entry_keys_def)

lemma covered_objects [simp]:
  "covered v (s\<lparr>ops := os\<rparr>) = covered v s" "covered v (s\<lparr>next_op := i\<rparr>) = covered v s"
  "covered v (s\<lparr>futs := fs\<rparr>) = covered v s" "covered v (s\<lparr>next_fut := j\<rparr>) = covered v s"
  by (simp_all add: covered_def entry_keys_def)

lemma covered_count: "covered v s \<Longrightarrow> covered v (s\<lparr>user_data_counter := user_data_counter s + 1\<rparr>)"
  by (auto simp: covered_def entry_keys_def)

text \<open>Flushing and taking an entry keep this: only the world and the pending flag move.\<close>

definition kept :: "'w kernel_view \<Rightarrow> 'w proactor \<Rightarrow> 'w proactor \<Rightarrow> bool" where
  "kept v s t \<longleftrightarrow> sub_frame s t \<and> flight v (world s) (world t) \<and> (covered v s \<longrightarrow> covered v t)"

lemma kept_trans: "kept v s t \<Longrightarrow> kept v t u \<Longrightarrow> kept v s u"
  by (auto simp: kept_def intro: sub_frame_trans flight_trans)

lemma kept_world: "flight v (world s) w \<Longrightarrow> kept v s (s\<lparr>world := w\<rparr>)"
  by (auto simp: kept_def flight_def covered_def entry_keys_def)

lemma kept_covered: "kept v s t \<Longrightarrow> covered v s \<Longrightarrow> covered v t"
  by (simp add: kept_def)

lemma kept_coupled: "kept v s t \<Longrightarrow> coupled v s \<Longrightarrow> coupled v t"
  by (auto simp: kept_def coupled_def dest: sub_frameD(2))

lemma kept_flush:
  assumes q: "quiet v (world s) (world t)" and l: "entry_laws E v" and f: "flush_ok E s t \<or> flush_bad E e s t"
  shows "kept v s t"
proof -
  have fr: "sub_frame s t" using f by (auto simp: flush_ok_def flush_bad_def)
  then have same: "entry_keys t = entry_keys s" "cache t = cache s" "user_data_counter t = user_data_counter s"
    by (auto simp: sub_frame_def entry_keys_def)
  have "pending_submit t \<or> t = s \<or> e_sq_ready E (world t) = 0"
    using f by (auto simp: flush_ok_def flush_bad_def split: if_splits)
  moreover have "e_sq_ready E (world t) = 0 \<Longrightarrow> kv_live v (world t) \<subseteq> kv_sent v (world t)"
    using l by (simp add: entry_laws_def)
  ultimately have "pending_submit t \<or> t = s \<or> kv_live v (world t) \<subseteq> kv_sent v (world t)" by blast
  moreover have "kv_live v (world s) \<subseteq> kv_live v (world t)" "kv_sent v (world s) \<subseteq> kv_sent v (world t)"
    using q by (simp_all add: quiet_def flight_def)
  moreover have "dict_keys (cache s) \<subseteq> entry_keys s" by (simp add: entry_keys_def)
  ultimately have "covered v s \<Longrightarrow> covered v t"
    unfolding covered_def same by (metis order_trans)
  then show ?thesis using fr q by (simp add: kept_def quiet_def)
qed

lemma wp_flush_returns:
  fixes s :: "'w proactor"
  assumes f: "fair E v"
  shows "wp False (flush E) s (\<lambda>_ t. flush_ok E s t \<and> quiet v (world s) (world t) \<and> kept v s t)
    (\<lambda>_. kept v s)"
proof -
  have l: "entry_laws E v" and r: "\<exists>r t. flush E s = Some (r, t)"
    using f flush_returns by (auto simp: fair_def kernel_laws_def)
  have q: "submits E (world s) (world t) \<Longrightarrow> quiet v (world s) (world t)" for t :: "'w proactor"
    by (erule submits_quiet) (rule l)
  have k: "flush_ok E s t \<or> flush_bad E e s t \<Longrightarrow> quiet v (world s) (world t) \<and> kept v s t" for e and t :: "'w proactor"
    using kept_flush [OF q l, of t e] q [of t] by (auto simp: flush_ok_def flush_bad_def)
  show ?thesis
    by (rule wp_mono [OF wp_returns [OF wp_flush r]]) (auto dest: k [OF disjI1] k [OF disjI2])
qed

lemma wp_get_sqe_returns:
  fixes s :: "'w proactor"
  assumes f: "fair E v"
  shows "wp False (get_sqe E) s (\<lambda>q t. kept v s t \<and> kv_blank v q (world t)) (\<lambda>_. kept v s)"
proof -
  have l: "entry_laws E v" using f by (simp add: fair_def kernel_laws_def)
  have none: "kept v t (t\<lparr>world := w\<rparr>)" if "e_get_sqe E (world t) = (None, w)" for t :: "'w proactor" and w
    using l that by (intro kept_world) (auto simp: entry_laws_def quiet_def)
  have some: "kept v t (t\<lparr>world := w\<rparr>) \<and> kv_blank v q w" if "e_get_sqe E (world t) = (Some q, w)" for t :: "'w proactor" and w q
    using l that by (auto simp: entry_laws_def intro!: kept_world)
  show ?thesis
    by (auto simp: get_sqe_def wp_rules io_uring_get_sqe_def dest: none some
      intro!: wp_mono [OF wp_flush_returns [OF f]] intro: kept_trans [OF none] kept_trans [OF kept_trans [OF none]]
      split: prod.split option.split)
qed

section \<open>Preparing\<close>

definition listed :: "'w kernel_view \<Rightarrow> int \<Rightarrow> 'w proactor \<Rightarrow> 'w proactor \<Rightarrow> bool" where
  "listed v ud s t \<longleftrightarrow> covered v t \<and> (\<exists>w b r. t = s\<lparr>world := w, pending_submit := b,
     unsubmitted := unsubmitted s @ [(ud, r)]\<rparr> \<and> flight v (world s) w)"

context prep_interface
begin

text \<open>
  An entry is filled and tagged before it is listed, so it is in flight; when the preparation
  raises, the slot is taken but nothing is listed.
\<close>

lemma prep_covered:
  fixes s :: "'w proactor"
  assumes f: "fair E v" and c: "covered v s" and ud: "1 \<le> ud" "ud < user_data_counter s"
  shows "wp False (prep E p ud flags) s
    (\<lambda>_. listed v ud s) (\<lambda>_. kept v s)"
proof -
  have l: "entry_laws E v" using f by (simp add: fair_def kernel_laws_def)
  have alloc: "flight v w w' \<and> (kv_blank v q w \<longrightarrow> kv_blank v q w')" if "ffi_allocs E w w'" for w w' q
    using that
  proof (induction rule: ffi_allocs.induct)
    case (allocs_step w w')
    then show ?case using l by (auto simp: entry_laws_def quiet_flight intro: flight_trans)
  qed (auto simp: flight_refl)
  have fill: "flight v w w' \<and> (kv_blank v q w \<longrightarrow> kv_blank v q w')" if "filled_entry E q r w w'" for q r w w'
  proof -
    from that obtain c w1 where a: "ffi_allocs E w w1" and w': "w' = e_prep E q c w1"
      by (auto simp: filled_entry_def)
    have "flight v w1 w' \<and> (kv_blank v q w1 \<longrightarrow> kv_blank v q w')"
      using l by (simp add: w' entry_laws_def quiet_flight)
    then show ?thesis using alloc [OF a, of q] flight_trans [of v w w1 w'] by simp
  qed
  have tag: "flight v w (e_set_data64 E q ud w) \<and> ud \<in> kv_live v (e_set_data64 E q ud w)"
    if "kv_blank v q w" "ud < 2 ^ 64" for q w
    using l that ud by (simp add: entry_laws_def quiet_flight)
  have flag: "flight v w (e_set_flags E q fl w)" for q fl w
    using l by (simp add: entry_laws_def quiet_flight)
  have listed: "listed v ud s (t\<lparr>world := w, unsubmitted := unsubmitted t @ [(ud, r)]\<rparr>)"
    if t: "kept v s t" and w: "flight v (world t) w" "ud \<in> kv_live v w" for t w r
  proof -
    from t obtain w0 b where t': "t = s\<lparr>world := w0, pending_submit := b\<rparr>" by (auto simp: kept_def sub_frame_def)
    have "covered v (t\<lparr>world := w\<rparr>)" using kept_covered [OF kept_trans [OF t kept_world [OF w(1)]] c] .
    then have "covered v (t\<lparr>world := w, unsubmitted := unsubmitted t @ [(ud, r)]\<rparr>)"
      using w(2) ud by (simp add: covered_def entry_keys_def t')
    moreover have "flight v (world s) w" using t w(1) by (auto simp: kept_def intro: flight_trans)
    moreover have "t\<lparr>world := w, unsubmitted := unsubmitted t @ [(ud, r)]\<rparr> =
        s\<lparr>world := w, pending_submit := b, unsubmitted := unsubmitted s @ [(ud, r)]\<rparr>" by (simp add: t')
    ultimately show ?thesis unfolding listed_def by blast
  qed
  show ?thesis
    unfolding prep_def wp_bindM [of _ "get_sqe E"]
  proof (rule wp_mono [OF wp_get_sqe_returns [OF f]], goal_cases)
    case (1 q t)
    then have t: "kept v s t" and bl: "kv_blank v q (world t)" by auto
    have set: "flight v (world t) (e_set_data64 E q ud w1) \<and> ud \<in> kv_live v (e_set_data64 E q ud w1)"
      if "filled_entry E q r (world t) w1" "ud < 2 ^ 64" for r w1
      using fill [OF that(1)] bl tag [of q w1] that(2) flight_trans by metis
    have fl: "flight v (world t) (e_set_flags E q k w2) \<and> ud \<in> kv_live v (e_set_flags E q k w2)"
      if "flight v (world t) w2 \<and> ud \<in> kv_live v w2" for k w2
      using that flag [of w2 q k] flight_trans by (auto simp: flight_def)
    have raised: "kept v s (t\<lparr>world := w\<rparr>)" if "flight v (world t) w" for w
      using kept_trans [OF t kept_world [OF that]] .
    show ?case
      by (auto simp: wp_rules io_uring_sqe_set_data64_def io_uring_sqe_set_flags_def c_u64_def c_unsigned_def
        dest: fill alloc set intro!: wp_mono [OF prep_runs] raised listed [OF t] conjunct1 [OF fl] conjunct2 [OF fl])
  qed simp
qed

end

lemma submit_coupled: "covered v s \<Longrightarrow> wp False (submit op f) s (\<lambda>_. coupled v) (\<lambda>_ _. True)"
  by (simp add: submit_def wp_modM coupled_def covered_def entry_keys_def register_keys)

section \<open>Cancelling\<close>

definition calm :: "'w kernel_view \<Rightarrow> 'w proactor \<Rightarrow> 'w proactor \<Rightarrow> bool" where
  "calm v s t \<longleftrightarrow> coupled v t \<and> waits t \<le> waits s \<and> user_data_counter s \<le> user_data_counter t \<and>
     (\<forall>c. kv_head v c (world s) \<longrightarrow> kv_head v c (world t)) \<and>
     (\<forall>k \<in> dict_keys (cache t). k \<in> dict_keys (cache s) \<or> user_data_counter s \<le> k)"

lemma calm_refl: "coupled v s \<Longrightarrow> calm v s s"
  by (simp add: calm_def)

lemma calm_coupled: "calm v s t \<Longrightarrow> coupled v t"
  by (simp add: calm_def)

lemma calm_keys: "calm v s t \<Longrightarrow> k \<in> dict_keys (cache t) \<Longrightarrow> k \<in> dict_keys (cache s) \<or> user_data_counter s \<le> k"
  unfolding calm_def by blast

lemma calm_settle: "calm v s t \<Longrightarrow> calm v s (t\<lparr>futs := fs\<rparr>)"
  by (simp add: calm_def coupled_iff waits_def)

lemma calm_log: "calm v s t \<Longrightarrow> calm v s (t\<lparr>handler_log := fs\<rparr>)"
  by (simp add: calm_def coupled_iff waits_def)

lemma wp_cancel_returns:
  assumes f: "fair E v" and c: "coupled v s"
  shows "wp False (cancel_operation E opr flags) s (\<lambda>_. calm v s) (\<lambda>_. calm v s)"
proof -
  let ?u = "user_data_counter s" and ?s = "s\<lparr>user_data_counter := user_data_counter s + 1\<rparr>"
  have us: "unsubmitted s = []" and pos: "1 \<le> ?u" and old: "\<forall>k \<in> dict_keys (cache s). k < ?u"
    using c by (simp_all add: coupled_iff)
  have cs: "covered v ?s" using c by (intro covered_count) (simp add: coupled_def)
  have fr: "?u \<notin> dict_keys (cache s)" using old by auto
  have "wp False (thenM (sub_cancel E \<lparr>can_user_data = ud, can_flags = flags\<rparr> ?u 0) (submit opr None)) ?s
      (\<lambda>_. calm v s) (\<lambda>_. calm v s)" for ud
    unfolding wp_thenM sub_cancel_def
  proof (rule wp_mono [OF prep_interface.prep_covered [OF prep_cancel64_ok.prep_interface_axioms f cs]], goal_cases)
    case (3 x t)
    then obtain w b r where t: "t = ?s\<lparr>world := w, pending_submit := b, unsubmitted := [(?u, r)]\<rparr>"
        and w: "flight v (world s) w" and ct: "covered v t" by (auto simp: us listed_def)
    have "\<exists>n. submit opr None t = Some (Inr (), n) \<and> coupled v n \<and>
        cache n = cache s @ [(?u, \<lparr>pc_operation = opr, pc_future = None, pc_request = r\<rparr>)] \<and>
        world n = w \<and> user_data_counter n = ?u + 1"
      using submit_coupled [OF ct, of opr None]
      by (simp add: submit_def wp_modM) (simp add: modM_def t update_fresh [OF fr])
    then show ?case using w by (auto simp: wp_def calm_def waits_def flight_def)
  next
    case (4 e t)
    then have "coupled v t" using kept_coupled [of v ?s t] cs us by (simp add: coupled_def)
    then show ?case using 4 by (auto simp: calm_def waits_def kept_def flight_def sub_frame_def)
  qed (use pos in simp_all)
  then show ?thesis
    using calm_refl [OF c]
    by (auto simp: cancel_operation_def wp_bindM wp_getM next_user_data_def wp_actM wp_ret split: option.split)
qed

lemma wp_fut_cancel_returns:
  assumes f: "fair E v" and c: "coupled v s"
  shows "wp False (fut_cancel E g) s (\<lambda>_. calm v s) (\<lambda>_. calm v s)"
  using calm_refl [OF c]
  by (auto simp: fut_cancel_def base_cancel_def wp_bindM wp_getM wp_thenM wp_whenM wp_actM wp_ret calm_settle
    intro!: wp_mono [OF wp_cancel_returns [OF f c]])

lemma wp_fut_cancel_unit:
  assumes "fair E v" and "coupled v s"
  shows "wp False (bindM (fut_cancel E g) (\<lambda>_. ret ())) s (\<lambda>_. calm v s) (\<lambda>_. calm v s)"
  by (auto simp: wp_bindM wp_ret intro!: wp_mono [OF wp_fut_cancel_returns [OF assms]])

section \<open>Handling a completion\<close>

text \<open>\<open>steady\<close>: the submission side did not move.\<close>

definition steady :: "'w kernel_view \<Rightarrow> 'w proactor \<Rightarrow> 'w proactor \<Rightarrow> bool" where
  "steady v s t \<longleftrightarrow> cache t = cache s \<and> user_data_counter t = user_data_counter s \<and>
     unsubmitted t = unsubmitted s \<and> pending_submit t = pending_submit s \<and> quiet v (world s) (world t)"

lemma steady_refl: "steady v s s"
  by (simp add: steady_def quiet_refl)

lemma steady_trans: "steady v s t \<Longrightarrow> steady v t u \<Longrightarrow> steady v s u"
  by (auto simp: steady_def intro: quiet_trans)

lemma steady_coupled: "steady v s t \<Longrightarrow> coupled v s \<Longrightarrow> coupled v t"
  by (auto simp: steady_def coupled_iff quiet_def flight_def)

lemma operate_steady:
  assumes "fair E v"
  shows "wp False (operate E op res) w (\<lambda>_ w'. quiet v w w') (\<lambda>_ w'. quiet v w w')"
proof -
  have l: "still_laws E v" using assms by (simp add: fair_def kernel_laws_def)
  have sock: "e_socket_fromfd E fam ty proto fd w = (r, w') \<Longrightarrow> quiet v w w'" for fam ty proto fd w r w'
    using l by (metis still_laws_def snd_conv)
  have block: "quiet v w (e_setblocking E s b w)" for s b w using l by (simp add: still_laws_def)
  show ?thesis
    by (cases op) (auto simp: wp_rules buffer_prefix_def peer_addr_def accept_result_def Let_def quiet_refl
      split: prod.split sum.split dest: sock intro: quiet_trans [OF sock block])
qed

lemma mark_seen_steady:
  assumes "fair E v" and "mark_seen E u (op, w) = Some (r, (op', w'))"
  shows "quiet v w w'"
proof -
  have l: "still_laws E v" using assms by (simp add: fair_def kernel_laws_def)
  have shut: "e_close E fd w = (r, w') \<Longrightarrow> quiet v w w'" for fd w r w'
    using l by (metis still_laws_def snd_conv)
  then show ?thesis
    using assms(2) by (cases op)
      (auto simp: mark_seen_def op_defs Let_def quiet_refl split: if_splits prod.splits sum.splits option.splits
        intro: quiet_trans [OF shut shut])
qed

lemma run_steady:
  assumes f: "fair E v"
  shows "wp False (run_operation E cqe opr g) s (\<lambda>_. steady v s) (\<lambda>_. steady v s)"
proof -
  have "wp False (apply_settle g a) (s\<lparr>world := w\<rparr>)
      (\<lambda>x t. (fut_done (futs t g) \<longrightarrow> steady v s (t\<lparr>results := results t @ [g]\<rparr>)) \<and>
         (\<not> fut_done (futs t g) \<longrightarrow> steady v s t)) (\<lambda>_. steady v s)" if "quiet v (world s) w" for a w
    using that by (cases a) (auto simp: apply_settle_def wp_rules set_fut_state_def steady_def)
  then show ?thesis
    by (auto simp: run_operation_def wp_rules steady_refl steady_def intro!: wp_mono [OF operate_steady [OF f]])
qed

definition handled :: "'w kernel_view \<Rightarrow> int \<Rightarrow> 'w proactor \<Rightarrow> 'w proactor \<Rightarrow> bool" where
  "handled v ud s t \<longleftrightarrow> coupled v t \<and> ud \<notin> dict_keys (cache t) \<and>
     (\<forall>c. kv_head v c (world s) \<longrightarrow> kv_head v c (world t)) \<and>
     (waits t < waits s \<or> waits t = waits s \<and> quiet v (world s) (world t))"

lemma handled_coupled: "handled v ud s t \<Longrightarrow> coupled v t"
  by (simp add: handled_def)

text \<open>An entry that is taken out is one that waits no longer, if it had a future.\<close>

lemma waits_pop:
  assumes "(ud, p) \<in> set (cache s)" and "cache t = AList.delete ud (cache s)"
  shows "waits t \<le> waits s \<and> (pc_future p \<noteq> None \<longrightarrow> waits t < waits s)"
proof -
  let ?P = "\<lambda>x :: int \<times> PendingCompletion. pc_future (snd x) \<noteq> None"
  have d: "filter ?P (cache t) = filter (\<lambda>x. fst x \<noteq> ud) (filter ?P (cache s))"
    unfolding assms(2) AList.delete_eq by (auto simp: case_prod_unfold intro: filter_cong)
  have w: "waits s = length (filter ?P (cache s))" for s :: "'w proactor"
    by (simp add: waits_def case_prod_unfold)
  have "length (filter (\<lambda>x. fst x \<noteq> ud) (filter ?P (cache s))) < length (filter ?P (cache s))"
    if "pc_future p \<noteq> None"
    by (rule length_filter_less [of "(ud, p)"]) (use assms(1) that in auto)
  then show ?thesis unfolding w d by (simp add: length_filter_le del: filter_filter)
qed

lemma wp_handle_returns:
  assumes f: "fair E v" and c: "coupled v s"
  shows "wp False (handle_cqe E cqe) s (\<lambda>_. handled v (cqe_user_data cqe) s) (\<lambda>_. coupled v)"
proof (cases "dict_pop (cqe_user_data cqe) (cache s)")
  case None
  then have "handled v (cqe_user_data cqe) s (s\<lparr>handler_log := l\<rparr>)" for l
    using c by (auto simp: handled_def coupled_iff waits_def quiet_refl dict_pop_None)
  from this [of "handler_log s"] this show ?thesis
    using None by (simp add: handle_cqe_def Let_def log_handler_def wp_rules)
next
  case (Some x)
  let ?ud = "cqe_user_data cqe"
  obtain p d where x: "x = (p, d)" by fastforce
  from pop_static [OF Some [unfolded x]] have p: "(?ud, p) \<in> set (cache s)"
    and d: "d = AList.delete ?ud (cache s)" by auto
  have ud: "?ud < user_data_counter s" using c p by (force simp: coupled_iff)
  have less: "waits t \<le> waits s \<and> (pc_future p \<noteq> None \<longrightarrow> waits t < waits s)" if "cache t = d" for t
    using waits_pop [OF p, of t] that d by simp
  have popped: "coupled v t" "?ud \<notin> dict_keys (cache t)"
    if "steady v (s\<lparr>cache := d\<rparr>) t" for t
    using that c d by (auto simp: steady_def coupled_iff quiet_def flight_def)
  have A: "handled v ?ud s t" if t: "steady v (s\<lparr>cache := d\<rparr>) t" for t
    using popped [OF t] less [of t] t
    by (auto simp: handled_def steady_def quiet_def flight_def)
  show ?thesis
  proof (cases "pc_future p")
    case N: None
    have "handled v ?ud s (s\<lparr>cache := d, handler_log := l\<rparr>)" "handled v ?ud s (s\<lparr>cache := d\<rparr>)" for l
      by (auto intro!: A simp: steady_def quiet_refl)
    then show ?thesis
      using Some x N by (auto simp: handle_cqe_def Let_def log_handler_def wp_rules)
  next
    case F: (Some g)
    have lt: "waits t < waits s" if "steady v (s\<lparr>cache := d\<rparr>) t" for t
      using less [of t] F that by (simp add: steady_def)
    have B: "handled v ?ud s u" if t: "steady v (s\<lparr>cache := d\<rparr>) t" and u: "calm v t u" for t u
    proof -
      have "?ud \<notin> dict_keys (cache u)"
      proof
        assume "?ud \<in> dict_keys (cache u)"
        then have "?ud \<in> dict_keys (cache t) \<or> user_data_counter s \<le> ?ud"
          using calm_keys [OF u] t by (simp add: steady_def)
        then show False using popped(2) [OF t] ud by simp
      qed
      then show ?thesis
        using u lt [OF t] t by (auto simp: handled_def calm_def steady_def quiet_def flight_def)
    qed
    have m: "steady v (s\<lparr>cache := d\<rparr>) (s\<lparr>cache := d, ops := os, world := w\<rparr>)"
      if "mark_seen E ?ud (op, world s) = Some (r, (op', w))" for os op op' w r
      using mark_seen_steady [OF f that] by (simp add: steady_def)
    have run: "wp False (run_operation E cqe (pc_operation p) g) t (\<lambda>_. handled v ?ud s) (\<lambda>_. coupled v)"
      and stop: "wp False (bindM (fut_cancel E g) (\<lambda>_. ret ())) t (\<lambda>_. handled v ?ud s) (\<lambda>_. coupled v)"
      if t: "steady v (s\<lparr>cache := d\<rparr>) t" for t
    proof -
      show "wp False (run_operation E cqe (pc_operation p) g) t (\<lambda>_. handled v ?ud s) (\<lambda>_. coupled v)"
        by (rule wp_mono [OF run_steady [OF f]]) (auto intro: A popped(1) steady_trans [OF t])
      show "wp False (bindM (fut_cancel E g) (\<lambda>_. ret ())) t (\<lambda>_. handled v ?ud s) (\<lambda>_. coupled v)"
        by (rule wp_mono [OF wp_fut_cancel_unit [OF f popped(1) [OF t]]]) (auto intro: B [OF t] calm_coupled)
    qed
    show ?thesis
      using Some x F
      by (auto simp: handle_cqe_def Let_def wp_readM wp_thenM wp_modM
        intro!: wp_mono [OF wp_mark_seen_at] run stop m popped(1) [OF m])
  qed
qed

section \<open>Polling and closing\<close>

text \<open>
  What is left to do, most significant first: the entries with a future, the completions that
  are due, a submission, and the waits that may still time out.
\<close>

definition left_over :: "'w kernel_view \<Rightarrow> ('w proactor \<times> 'w proactor) set" where
  "left_over v = measures [waits, \<lambda>s. kv_due v (world s)]"

definition left_to_do :: "'w kernel_view \<Rightarrow> ('w proactor \<times> 'w proactor) set" where
  "left_to_do v = measures [waits, \<lambda>s. kv_due v (world s),
     \<lambda>s. if pending_submit s then 1 else 0, \<lambda>s. kv_patience v (world s)]"

lemma subset_without: "x \<notin> K \<Longrightarrow> K \<subseteq> A \<Longrightarrow> A - {x} \<subseteq> B \<Longrightarrow> K \<subseteq> B"
  by blast

lemma wp_consume_returns:
  assumes f: "fair E v" and c: "coupled v s" and h: "kv_head v c (world s)"
  shows "wp False (consume E c) s (\<lambda>_ t. coupled v t \<and> (t, s) \<in> left_over v) (\<lambda>_. coupled v)"
proof -
  have seen: "kv_due v (e_cqe_seen E c w) < kv_due v w \<and>
      kv_live v w - {uint (c_user_data c)} \<subseteq> kv_live v (e_cqe_seen E c w) \<and>
      kv_sent v w - {uint (c_user_data c)} \<subseteq> kv_sent v (e_cqe_seen E c w)" if "kv_head v c w" for w
    using f that by (simp add: fair_def kernel_laws_def cq_laws_def)
  have "coupled v (t\<lparr>world := e_cqe_seen E c (world t)\<rparr>) \<and>
      (t\<lparr>world := e_cqe_seen E c (world t)\<rparr>, s) \<in> left_over v"
    if t: "handled v (uint (c_user_data c)) s t" for t
  proof -
    have "kv_head v c (world t)" using t h by (simp add: handled_def)
    note sn = seen [OF this]
    have c: "coupled v t" and k: "uint (c_user_data c) \<notin> dict_keys (cache t)" using t by (simp_all add: handled_def)
    note keys = subset_without [OF k]
    have live: "dict_keys (cache t) \<subseteq> kv_live v (e_cqe_seen E c (world t))"
      by (rule keys [OF _ conjunct1 [OF conjunct2 [OF sn]]]) (use c in \<open>simp add: coupled_iff\<close>)
    have "pending_submit t \<or> dict_keys (cache t) \<subseteq> kv_sent v (world t)" using c by (simp add: coupled_iff)
    then have sent: "pending_submit t \<or> dict_keys (cache t) \<subseteq> kv_sent v (e_cqe_seen E c (world t))"
      using keys [OF _ conjunct2 [OF conjunct2 [OF sn]]] by blast
    have "coupled v (t\<lparr>world := e_cqe_seen E c (world t)\<rparr>)"
      using c live sent by (simp add: coupled_iff)
    moreover have "(t\<lparr>world := e_cqe_seen E c (world t)\<rparr>, s) \<in> left_over v"
      using t sn by (auto simp: handled_def waits_def left_over_def quiet_def)
    ultimately show ?thesis by simp
  qed
  then show ?thesis
    by (auto simp: consume_def wp_thenM ring_call_def wp_readM wp_raise wp_liftW io_uring_cqe_seen_def wp_modM
      py_cqe_def intro!: wp_mono [OF wp_handle_returns [OF f c]] dest: handled_coupled)
qed

lemma quiet_coupled: "quiet v (world s) w \<Longrightarrow> coupled v s \<Longrightarrow> coupled v (s\<lparr>world := w\<rparr>)"
  by (rule steady_coupled [of v s]) (simp_all add: steady_def)

lemma wp_peek_loop_returns:
  assumes f: "fair E v" and c: "coupled v s"
  shows "wp False (peek_loop E) s (\<lambda>_ t. coupled v t \<and> waits t \<le> waits s \<and>
    (waits t = waits s \<longrightarrow> kv_due v (world t) \<le> kv_due v (world s))) (\<lambda>_. coupled v)"
proof -
  have wf: "wf (left_over v)" by (simp add: left_over_def)
  show ?thesis
    using c
  proof (induction s rule: wf_induct_rule [OF wf])
    case (1 s)
    obtain r c w where p: "e_peek_cqe E (world s) = ((r, c), w)" by (metis prod.collapse)
    have st: "quiet v (world s) w" and hd: "0 \<le> sint r \<Longrightarrow> kv_head v c w"
      using f p by (simp_all add: fair_def kernel_laws_def cq_laws_def)
    let ?s = "s\<lparr>world := w\<rparr>"
    have co: "coupled v ?s" by (rule quiet_coupled [OF st "1.prems"])
    have same: "waits ?s = waits s" "kv_due v (world ?s) = kv_due v (world s)"
      using st by (simp_all add: waits_def quiet_def)
    have ring: "ring_call (io_uring_peek_cqe E) s =
        (if iouring s then Some (if sint r < 0 then Inl (OSError (- sint r)) else Inr c, ?s)
         else Some (Inl (TypeError ''io_uring''), s))"
      by (simp add: ring_call_def py_defs io_uring_peek_cqe_def p check_res_def)
    show ?case
    proof (cases "iouring s \<and> 0 \<le> sint r")
      case False
      then show ?thesis
        using co same "1.prems" by (auto simp: wp_def peek_loop.simps [of E s] ring split: sum.split)
    next
      case True
      have w: "wp False (consume E c) ?s (\<lambda>_ t. coupled v t \<and> (t, ?s) \<in> left_over v) (\<lambda>_. coupled v)"
        by (rule wp_consume_returns [OF f co]) (use hd True in simp)
      then obtain x t where run: "consume E c ?s = Some (x, t)" using wp_total [OF w] by auto
      show ?thesis
      proof (cases x)
        case (Inl e)
        then show ?thesis using True wp_Inl [OF w run [unfolded Inl]] by (simp add: wp_def peek_loop.simps [of E s] ring run)
      next
        case (Inr u)
        have t: "coupled v t" "(t, s) \<in> left_over v"
          using wp_Inr [OF w run [unfolded Inr]] same by (auto simp: left_over_def)
        have "wp False (peek_loop E) s Q X = wp False (peek_loop E) t Q X" for Q X
          using True by (simp add: wp_def peek_loop.simps [of E s] ring run Inr)
        then show ?thesis
          using "1.IH" [OF t(2,1)] t(2) by (auto simp: left_over_def elim!: wp_mono)
      qed
    qed
  qed
qed

text \<open>One timed poll: something of what was left is done, as long as anything is registered.\<close>

lemma wp_wait_returns:
  assumes f: "fair E v" and c: "coupled v s" and p: "\<not> pending_submit s"
  shows "wp False (wait_timeout E \<tau>) s
    (\<lambda>x t. case x of
       None \<Rightarrow> coupled v t \<and> (cache s \<noteq> [] \<longrightarrow> (t, s) \<in> left_to_do v)
     | Some c \<Rightarrow> coupled v t \<and> kv_head v c (world t) \<and> waits t = waits s \<and>
         kv_due v (world t) = kv_due v (world s)) (\<lambda>_. coupled v)"
proof -
  have w: "quiet v w w' \<and> (if 0 \<le> sint r then kv_head v c w'
         else kv_sent v w \<noteq> {} \<longrightarrow> kv_patience v w' < kv_patience v w)"
    if "e_wait_cqe_timeout E ts w = ((r, c), w')" for ts w r c w'
    using f that by (simp add: fair_def kernel_laws_def cq_laws_def)
  have sent: "kv_sent v (world s) \<noteq> {}" if "cache s \<noteq> []"
    using that c p by (cases "cache s") (auto simp: coupled_iff)
  have A: "coupled v (s\<lparr>world := w'\<rparr>) \<and> waits (s\<lparr>world := w'\<rparr>) = waits s \<and> kv_due v w' = kv_due v (world s)"
    if "quiet v (world s) w'" for w'
    using quiet_coupled [OF that c] that by (simp add: waits_def quiet_def)
  show ?thesis
    using A sent c
    by (auto simp: wait_timeout_def new_kernel_timespec_def c_int64_def wp_rules ring_call_def io_uring_wait_cqe_timeout_def check_res_def left_to_do_def
      split: prod.split dest!: w)
qed

lemma wp_poll_returns:
  assumes f: "fair E v" and c: "coupled v s" and pos: "0 < \<tau>"
  shows "wp False (poll E (Some \<tau>)) s
    (\<lambda>_ t. coupled v t \<and> (cache s \<noteq> [] \<longrightarrow> (t, s) \<in> left_to_do v)) (\<lambda>_. coupled v)"
proof -
  have after: "wp False (bindM (wait_timeout E \<tau>) (\<lambda>c. case c of
         None \<Rightarrow> ret () | Some cqe \<Rightarrow> thenM (consume E cqe) (peek_loop E))) t
      (\<lambda>_ u. coupled v u \<and> (cache s \<noteq> [] \<longrightarrow> (u, s) \<in> left_to_do v)) (\<lambda>_. coupled v)"
    if t: "coupled v t" "\<not> pending_submit t" "cache t = cache s" "kv_due v (world t) = kv_due v (world s)"
      "pending_submit s \<or> t = s" for t
  proof -
    have ws: "waits t = waits s" using t(3) by (simp add: waits_def)
    have got: "wp False (thenM (consume E cqe) (peek_loop E)) u
        (\<lambda>_ u. coupled v u \<and> (cache s \<noteq> [] \<longrightarrow> (u, s) \<in> left_to_do v)) (\<lambda>_. coupled v)"
      if u: "coupled v u" "kv_head v cqe (world u)" "waits u = waits t" "kv_due v (world u) = kv_due v (world t)" for u cqe
      unfolding wp_thenM
      by (rule wp_mono [OF wp_consume_returns [OF f u(1,2)]], rule wp_mono [OF wp_peek_loop_returns [OF f]])
        (use u ws t in \<open>auto simp: left_over_def left_to_do_def\<close>)
    have late: "(u, s) \<in> left_to_do v" if "(u, t) \<in> left_to_do v" for u
      using that t ws by (auto simp: left_to_do_def)
    show ?thesis
      unfolding wp_bindM
      by (rule wp_mono [OF wp_wait_returns [OF f t(1,2)]])
        (use t(3) in \<open>auto simp: wp_ret late split: option.splits intro: got\<close>)
  qed
  show ?thesis
    unfolding poll_def wp_thenM
  proof (rule wp_mono [OF wp_flush_returns [OF f]], goal_cases)
    case (1 x t)
    then have "coupled v t \<and> \<not> pending_submit t \<and> cache t = cache s \<and> kv_due v (world t) = kv_due v (world s) \<and>
        (pending_submit s \<or> t = s)"
      using kept_coupled [OF _ c, of t] by (auto simp: flush_ok_def sub_frame_def quiet_def split: if_splits)
    then show ?case using after [of t] pos by simp
  qed (use kept_coupled c in blast)
qed

text \<open>The loop of \<open>close\<close> ends: each turn does something of what was left.\<close>

lemma close_loop_returns:
  assumes f: "fair E v" and c: "coupled v s"
  shows "wp False (close_loop E) s (\<lambda>_ t. coupled v t \<and> cache t = []) (\<lambda>_. coupled v)"
proof -
  have wf: "wf (left_to_do v)" by (simp add: left_to_do_def)
  show ?thesis
    using c
  proof (induction s rule: wf_induct_rule [OF wf])
    case (1 s)
    note p = wp_poll_returns [OF f "1.prems", of 1]
    obtain r t where run: "poll E (Some 1) s = Some (r, t)" using wp_total [OF p] by auto
    show ?case
    proof (cases "cache s = []")
      case True
      then show ?thesis using "1.prems" by (simp add: wp_def close_loop.simps [of E s])
    next
      case False
      show ?thesis
      proof (cases r)
        case (Inl e)
        then show ?thesis
          using False wp_Inl [OF p run [unfolded Inl]] by (simp add: wp_def close_loop.simps [of E s] run)
      next
        case (Inr u)
        have "coupled v t" "(t, s) \<in> left_to_do v"
          using wp_Inr [OF p run [unfolded Inr]] False by simp_all
        then show ?thesis
          using "1.IH" [of t] False Inr by (simp add: wp_def close_loop.simps [of E s] run)
      qed
    qed
  qed
qed

lemma wp_close_returns:
  assumes f: "fair E v" and c: "coupled v s"
  shows "wp False (close E) s (\<lambda>_. coupled v) (\<lambda>_. coupled v)"
proof -
  have entry: "wp False (close_entry E p) t (\<lambda>_. coupled v) (\<lambda>_. coupled v)" if t: "coupled v t" for p t
    by (auto simp: close_entry_def log_handler_def wp_ret wp_catchM wp_if wp_readM wp_whenM wp_modM wp_raise t
      split: option.split intro!: wp_mono [OF wp_fut_cancel_unit [OF f t]] intro: calm_coupled calm_coupled [OF calm_log])
  have freed: "coupled v (t\<lparr>world := w, results := [], iouring := False\<rparr>)" if "coupled v t" "cache t = []" for t w
    using that by (simp add: coupled_iff)
  show ?thesis
    by (auto simp: close_def wp_readM wp_ret wp_thenM ring_call_def wp_raise wp_liftW io_uring_queue_exit_def wp_modM c
      intro!: wp_mono [OF wp_forM [OF entry c]] wp_mono [OF close_loop_returns [OF f]] freed)
qed

text \<open>Any call of \<open>select\<close> keeps the coupling; with a timeout it returns.\<close>

lemma wp_zero_poll:
  assumes f: "fair E v" and c: "coupled v s"
  shows "wp False (thenM (flush E) (peek_loop E)) s (\<lambda>_. coupled v) (\<lambda>_. coupled v)"
  unfolding wp_thenM
proof (rule wp_mono [OF wp_flush_returns [OF f]], goal_cases)
  case (1 x t)
  then have "coupled v t" using kept_coupled [OF _ c] by simp
  then show ?case by (rule wp_mono [OF wp_peek_loop_returns [OF f]]) simp_all
qed (use kept_coupled c in blast)

lemma wp_timed_poll:
  assumes f: "fair E v" and c: "coupled v s"
  shows "wp False (poll E (Some \<tau>)) s (\<lambda>_. coupled v) (\<lambda>_. coupled v)"
proof (cases "0 < \<tau>")
  case True
  then show ?thesis by (rule wp_mono [OF wp_poll_returns [OF f c]]) simp_all
next
  case False
  then show ?thesis using wp_zero_poll [OF f c] by (simp add: poll_def)
qed

lemma wp_timed_select:
  assumes f: "fair E v" and c: "coupled v s"
  shows "wp False (select E (Some \<tau>)) s (\<lambda>_. coupled v) (\<lambda>_. coupled v)"
proof -
  have "coupled v (t\<lparr>results := []\<rparr>) = coupled v t" for t by (simp add: coupled_iff)
  then show ?thesis
    using c by (auto simp: select_def wp_thenM wp_readM wp_whenM wp_actM wp_ret intro!: wp_mono [OF wp_timed_poll [OF f c]])
qed

end
