(* ===== verification/Uring_Fair.thy ===== *)
theory Uring_Fair
  imports Uring_Progress
begin

text \<open>
  Which states are \<open>coupled\<close>: all that a proactor gets to by calls of its public methods, returned
  or raised, whatever the kernel completes in between, as long as it loses none of the entries.
\<close>

section \<open>Two relations\<close>

text \<open>
  A starting method may leave its state \<open>covered\<close> only, the other methods keep it \<open>coupled\<close>; both
  are reflexive and transitive, so the frame logic applies.
\<close>

definition carries :: "'w kernel_view \<Rightarrow> 'w proactor \<Rightarrow> 'w proactor \<Rightarrow> bool" where
  "carries v s t \<longleftrightarrow> (covered v s \<longrightarrow> covered v t)"

definition couples :: "'w kernel_view \<Rightarrow> 'w proactor \<Rightarrow> 'w proactor \<Rightarrow> bool" where
  "couples v s t \<longleftrightarrow> (coupled v s \<longrightarrow> coupled v t)"

interpretation carried: step_relation "carries v" for v :: "'w kernel_view"
  by unfold_locales (auto simp: carries_def)

interpretation tied: step_relation "couples v" for v :: "'w kernel_view"
  by unfold_locales (auto simp: couples_def)

lemma carriesI:
  assumes "\<And>s. covered v s \<Longrightarrow> wp True m s (\<lambda>_. covered v) (\<lambda>_. covered v)"
  shows "keeps (carries v) m"
  by (rule keepsI) (use wp_outcome [OF assms] in \<open>auto simp: carries_def\<close>)

lemma couplesI:
  assumes "\<And>s. coupled v s \<Longrightarrow> wp True m s (\<lambda>_. coupled v) (\<lambda>_. coupled v)"
  shows "keeps (couples v) m"
  by (rule keepsI) (use wp_outcome [OF assms] in \<open>auto simp: couples_def\<close>)

lemma kept_carries: "kept v s t \<Longrightarrow> carries v s t"
  by (simp add: kept_def carries_def)

section \<open>Starting\<close>

lemma start_covered:
  assumes "fair E v" and "prep_interface E p" and "covered v s" and "1 \<le> ud" and "ud < user_data_counter s"
  shows "wp True (start op (prep E p) ud) s (\<lambda>_. covered v) (\<lambda>_. covered v)"
proof -
  have prep: "wp True (prep E p ud 0) t (\<lambda>_. covered v) (\<lambda>_. covered v)"
    if "covered v t" "user_data_counter t = user_data_counter s" for t
    by (rule wp_mono [OF wp_weaken [OF prep_interface.prep_covered [OF assms(2,1) that(1) assms(4)]]])
      (use that assms(5) in \<open>auto simp: listed_def dest: kept_covered\<close>)
  have submit: "wp True (submit opr fut) t (\<lambda>_. covered v) X" if "covered v t" for opr fut t X
    using submit_coupled [OF that, of opr fut] by (simp add: submit_def wp_modM coupled_def)
  show ?thesis
    using assms(3) by (auto simp: start_def new_op_def new_future_def wp_bindM wp_actM wp_thenM wp_ret
      intro!: wp_mono [OF submit] wp_mono [OF prep])
qed

lemma covered_pos: "covered v s \<Longrightarrow> 1 \<le> user_data_counter s"
  by (simp add: covered_def)

lemma carries_lift:
  assumes "\<And>w. wp True m w (\<lambda>_ w'. flight v w w') (\<lambda>_ w'. flight v w w')"
  shows "keeps (carries v) (liftW m)"
  unfolding keeps_wp by (auto simp: wp_liftW intro!: wp_mono [OF assms] kept_carries kept_world)

lemma fair_allocs:
  assumes "fair E v"
  shows "e_bytearray E k w = (c, w') \<Longrightarrow> flight v w w'" and "e_new_sockaddr E a w = (c, w') \<Longrightarrow> flight v w w'"
    and "e_pipe E w = (x, w') \<Longrightarrow> flight v w w'"
proof -
  have "still_laws E v" using assms by (simp add: fair_def kernel_laws_def)
  then show "e_bytearray E k w = (c, w') \<Longrightarrow> flight v w w'" "e_new_sockaddr E a w = (c, w') \<Longrightarrow> flight v w w'"
    "e_pipe E w = (x, w') \<Longrightarrow> flight v w w'" by (metis still_laws_def quiet_flight snd_conv)+
qed

lemma carries_starter:
  assumes f: "fair E v"
  shows "starter (carries v) E"
proof
  fix m :: "int \<Rightarrow> int \<Rightarrow> int \<Rightarrow> ('a, unit) pr" and op :: "int \<Rightarrow> BaseOperation"
  assume m: "\<And>ud. \<exists>p. prep_interface E p \<and> m ud = prep E p"
  show "keeps (carries v) (bindM next_user_data (\<lambda>ud. start (op ud) (m ud) ud))"
  proof (rule carriesI)
    fix s :: "'a proactor" assume c: "covered v s"
    obtain p where p: "prep_interface E p" "m (user_data_counter s) = prep E p" using m by blast
    have "wp True (start (op (user_data_counter s)) (prep E p) (user_data_counter s))
        (s\<lparr>user_data_counter := user_data_counter s + 1\<rparr>) (\<lambda>_. covered v) (\<lambda>_. covered v)"
      by (rule start_covered [OF f p(1) covered_count [OF c] covered_pos [OF c]]) simp
    then show "wp True (bindM next_user_data (\<lambda>ud. start (op ud) (m ud) ud)) s (\<lambda>_. covered v) (\<lambda>_. covered v)"
      by (simp add: wp_bindM next_user_data_def wp_actM p(2))
  qed
qed (auto simp: wp_actM split: prod.split dest: fair_allocs [OF f] intro!: carries_lift)

lemma flush_kept: "fair E v \<Longrightarrow> keeps (carries v) (flush E)" "fair E v \<Longrightarrow> keeps (couples v) (flush E)"
  by (rule carriesI couplesI; rule wp_mono [OF wp_weaken [OF wp_flush_returns]]; auto dest: kept_covered kept_coupled)+

lemma capacity_carries: "fair E v \<Longrightarrow> keeps (carries v) (ensure_capacity E k)"
  unfolding ensure_capacity_def io_uring_sq_space_left_def
  by (intro carried.keeps_bindM carried.keeps_thenM carried.keeps_whenM carried.keeps_raise carries_lift flush_kept)
    (simp_all add: wp_getM flight_refl)

text \<open>Both numbers of a linked pair are in flight before they are registered.\<close>

lemma sendfile_carries:
  assumes f: "fair E v"
  shows "keeps (carries v) (sendfile E sock file offset count)"
proof -
  have splice: "wp True (sub_splice E r ud fl) t
      (\<lambda>_ u. covered v u \<and> user_data_counter u = user_data_counter t) (\<lambda>_. covered v)"
    if "covered v t" "1 \<le> ud" "ud < user_data_counter t" for r ud fl t
    unfolding sub_splice_def
    by (rule wp_mono [OF wp_weaken [OF prep_interface.prep_covered [OF prep_splice_ok.prep_interface_axioms f that]]])
      (use that in \<open>auto simp: listed_def dest: kept_covered\<close>)
  have tail: "keeps (carries v) (bindM next_user_data (\<lambda>f2p. bindM next_user_data (\<lambda>p2s.
      bindM (new_op (op f2p p2s)) (\<lambda>opr. bindM (new_future opr) (\<lambda>fut.
      thenM (sub_splice E r1 f2p fl)
      (thenM (sub_splice E r2 p2s 0)
      (thenM (submit opr (Some fut)) (ret fut))))))))" for op r1 r2 fl
  proof (rule carriesI)
    fix s :: "'a proactor" assume c: "covered v s"
    let ?c = "user_data_counter s"
    let ?t = "s\<lparr>user_data_counter := ?c + 2, ops := (ops s)(next_op s := op ?c (?c + 1)), next_op := Suc (next_op s),
      futs := (futs s)(next_fut s := \<lparr>fut_state = Pending, fut_operation = next_op s\<rparr>), next_fut := Suc (next_fut s)\<rparr>"
    have "covered v (s\<lparr>user_data_counter := ?c + 2\<rparr>)"
      using covered_count [OF covered_count [OF c]] by (simp add: add.assoc)
    then have t: "covered v ?t" by simp
    have pos: "1 \<le> ?c" by (rule covered_pos [OF c])
    have submit: "wp True (submit opr fut) u (\<lambda>_. covered v) X" if "covered v u" for opr fut u X
      using submit_coupled [OF that, of opr fut] by (simp add: submit_def wp_modM coupled_def)
    have "wp True (thenM (sub_splice E r1 ?c fl) (thenM (sub_splice E r2 (?c + 1) 0)
        (thenM (submit (next_op s) (Some (next_fut s))) (ret (next_fut s))))) ?t (\<lambda>_. covered v) (\<lambda>_. covered v)"
      unfolding wp_thenM [of _ "sub_splice E r1 ?c fl"]
    proof (rule wp_mono [OF splice [OF t pos]], simp, goal_cases)
      case (1 x u)
      then have u: "covered v u" "user_data_counter u = ?c + 2" by simp_all
      show ?case
        unfolding wp_thenM
        by (rule wp_mono [OF splice [OF u(1)]]) (use pos u(2) in \<open>auto simp: wp_ret intro: wp_mono [OF submit]\<close>)
    qed simp
    then show "wp True (bindM next_user_data (\<lambda>f2p. bindM next_user_data (\<lambda>p2s.
      bindM (new_op (op f2p p2s)) (\<lambda>opr. bindM (new_future opr) (\<lambda>fut.
      thenM (sub_splice E r1 f2p fl)
      (thenM (sub_splice E r2 p2s 0)
      (thenM (submit opr (Some fut)) (ret fut)))))))) s (\<lambda>_. covered v) (\<lambda>_. covered v)"
      by (simp add: wp_bindM next_user_data_def new_op_def new_future_def wp_actM add.assoc)
  qed
  have pipe: "keeps (carries v) (liftW (tryM (e_pipe E)))"
    by (rule carries_lift) (auto simp: wp_tryM split: prod.split sum.split dest: fair_allocs [OF f])
  show ?thesis
    unfolding sendfile_def Let_def case_prod_unfold
    by (intro carried.keeps_thenM carried.keeps_bindM capacity_carries pipe f tail)
qed

lemma start_carries: "fair E v \<Longrightarrow> m \<in> starting_methods E \<Longrightarrow> keeps (carries v) m"
  by (erule starting_methods.cases) (auto intro: starter.single_methods [OF carries_starter] sendfile_carries)

section \<open>The other methods\<close>

lemma cancel_couples: "fair E v \<Longrightarrow> keeps (couples v) (cancel_operation E opr flags)"
  by (rule couplesI, rule wp_mono [OF wp_weaken [OF wp_cancel_returns]]) (auto intro: calm_coupled)

lemma fut_cancel_couples: "fair E v \<Longrightarrow> keeps (couples v) (fut_cancel E g)"
  by (rule couplesI, rule wp_mono [OF wp_weaken [OF wp_fut_cancel_returns]]) (auto intro: calm_coupled)

lemma couples_frame: "(\<And>s. coupled v s \<Longrightarrow> coupled v (g s)) \<Longrightarrow> keeps (couples v) (modM g)"
  by (rule tied.keeps_modM) (simp add: couples_def)

lemma stop_couples: "fair E v \<Longrightarrow> keeps (couples v) (stop_serving E obj)"
  unfolding stop_serving_def stop_entry_def
  by (cases obj) (auto intro!: tied.keeps_rules fut_cancel_couples couples_frame simp: coupled_iff split: option.split)

lemma ring_couples:
  fixes s :: "'w proactor"
  assumes "wp True m (world s) (\<lambda>c w'. quiet v (world s) w' \<and> kv_head v c w') (\<lambda>_ w'. quiet v (world s) w')"
  shows "wp True (ring_call m) s (\<lambda>c t. couples v s t \<and> (coupled v t \<longrightarrow> kv_head v c (world t))) (\<lambda>_. couples v s)"
  by (auto simp: ring_call_def wp_readM wp_if wp_liftW wp_raise tied.step_refl couples_def quiet_coupled intro!: wp_mono [OF assms])

lemma couples_poller:
  assumes f: "fair E v"
  shows "poller (couples v) E (\<lambda>c s. coupled v s \<longrightarrow> kv_head v c (world s))"
proof
  have l: "cq_laws E v" using f by (simp add: fair_def kernel_laws_def)
  fix s :: "'a proactor" and ts c
  show "wp True (ring_call (io_uring_wait_cqe E)) s
      (\<lambda>c t. couples v s t \<and> (coupled v t \<longrightarrow> kv_head v c (world t))) (\<lambda>_. couples v s)"
    by (rule ring_couples) (use l in \<open>auto simp: cq_laws_def io_uring_wait_cqe_def wp_rules check_res_def split: prod.split\<close>)
  show "wp True (ring_call (io_uring_peek_cqe E)) s
      (\<lambda>c t. couples v s t \<and> (coupled v t \<longrightarrow> kv_head v c (world t))) (\<lambda>_. couples v s)"
    by (rule ring_couples) (use l in \<open>auto simp: cq_laws_def io_uring_peek_cqe_def wp_rules check_res_def split: prod.split\<close>)
  show "wp True (ring_call (io_uring_wait_cqe_timeout E ts)) s
      (\<lambda>c t. couples v s t \<and> (coupled v t \<longrightarrow> kv_head v c (world t))) (\<lambda>_. couples v s)"
  proof (rule ring_couples)
    have t: "quiet v w w' \<and> (0 \<le> sint r \<longrightarrow> kv_head v c w')" if "e_wait_cqe_timeout E ts w = ((r, c), w')" for w r c w'
      using l that unfolding cq_laws_def by (metis (no_types, lifting))
    then show "wp True (io_uring_wait_cqe_timeout E ts) (world s)
        (\<lambda>c w'. quiet v (world s) w' \<and> kv_head v c w') (\<lambda>_ w'. quiet v (world s) w')"
      by (auto simp: io_uring_wait_cqe_timeout_def wp_rules check_res_def split: prod.split dest!: t)
  qed
  show "wp True (consume E c) s (\<lambda>_. couples v s) (\<lambda>_. couples v s)"
    if "coupled v s \<longrightarrow> kv_head v c (world s)"
  proof (cases "coupled v s")
    case True
    then show ?thesis
      using that by (auto simp: couples_def intro!: wp_mono [OF wp_weaken [OF wp_consume_returns [OF f]]])
  qed (simp add: couples_def wp_def split: option.split sum.split)
qed (auto simp: couples_def coupled_iff intro: flush_kept f)

lemma close_couples: "fair E v \<Longrightarrow> keeps (couples v) (close E)"
  by (auto intro: couplesI wp_weaken wp_close_returns)

section \<open>Runs\<close>

text \<open>
  A run: a proactor, then calls of its public methods in any order and with any arguments,
  returned or raised; between the calls the kernel may do anything but lose an entry.
\<close>

inductive served :: "'w env \<Rightarrow> 'w kernel_view \<Rightarrow> 'w proactor \<Rightarrow> bool" for E v where
  served_init: "init_proactor E entries flags (new_proactor w junk) = Some (r, s) \<Longrightarrow> served E v s"
| served_call: "served E v s \<Longrightarrow> api_call E s t \<Longrightarrow> served E v t"
| served_kernel: "served E v s \<Longrightarrow> flight v (world s) w \<Longrightarrow> served E v (s\<lparr>world := w\<rparr>)"

lemma served_reachable: "served E v s \<Longrightarrow> reachable E s"
  by (induction rule: served.induct) (auto intro: reachable.intros api_step.intros)

lemma init_coupled:
  assumes "init_proactor E entries flags (new_proactor w junk) = Some (r, s)"
  shows "coupled v s"
proof -
  have "cache s = []"
    using assms by (auto simp: init_proactor_def new_proactor_def py_defs split: option.splits sum.splits prod.splits)
  then show ?thesis using init_inv [OF assms] by (simp add: coupled_iff proactor_inv_def ops_ok_def)
qed

lemma call_coupled:
  assumes f: "fair E v" and c: "coupled v s" and inv: "proactor_inv t" and call: "api_call E s t"
  shows "coupled v t"
proof -
  have us: "unsubmitted t = []" using inv by (simp add: proactor_inv_def)
  have start: "coupled v t" if "m \<in> starting_methods E" "m s = Some (r, t)" for m r
    using keepsD [OF start_carries [OF f that(1)] that(2)] c us by (simp add: carries_def coupled_def)
  have other: "coupled v t" if "keeps (couples v) m" "m s = Some (r, t)" for m :: "('a, 'b) pr" and r
    using keepsD [OF that] c by (simp add: couples_def)
  show ?thesis
    using call
  proof cases
    case (step_set_loop debug u)
    then have "t = s\<lparr>loop := Some debug\<rparr>" by (simp add: set_loop_def modM_def)
    then show ?thesis using c by (simp add: coupled_iff)
  qed (auto intro: start starting_methods.intros other cancel_couples fut_cancel_couples poller.keeps_select [OF couples_poller] stop_couples close_couples f)
qed

lemma served_coupled:
  assumes "served E v s" and f: "fair E v"
  shows "user_data_counter s \<le> 2 ^ 64 \<longrightarrow> coupled v s"
  using assms(1)
proof (induction rule: served.induct)
  case (served_init entries flags w junk r s)
  then show ?case using init_coupled [OF served_init] by simp
next
  case (served_call s t)
  obtain n where laws: "sq_laws E n" using f by (auto simp: fair_def)
  have st: "api_step E s t" by (rule step_call [OF served_call(2)])
  show ?case
  proof
    assume hi: "user_data_counter t \<le> 2 ^ 64"
    have "proactor_inv t"
      using reachable_inv [OF reachable_step [OF served_reachable [OF served_call(1)] st] laws] hi by simp
    moreover have "user_data_counter s \<le> 2 ^ 64" using api_step_sound [OF laws st] hi by (simp add: sound_step_def)
    ultimately show "coupled v t" using call_coupled [OF f _ _ served_call(2)] served_call.IH by simp
  qed
next
  case (served_kernel s w)
  then show ?case using kept_coupled [OF kept_world [OF served_kernel(2)]] by simp
qed

end
