(* ===== verification/Uring_Agree.thy ===== *)
theory Uring_Agree
  imports Uring_Behaviour
begin

text \<open>
  The three objects behind a cache entry agree in every reachable state: the registered request
  asks for what its operation stands for, and keeps alive the memory that the operation's result
  will be read from; a cancellation is aimed at its own operation.
\<close>

section \<open>Agreement\<close>

text \<open>The memory an operation hands to the kernel and reads its result from.\<close>

fun op_cells :: "BaseOperation \<Rightarrow> nat set" where
  "op_cells (SendOp op) = {buf_cell (sndop_buffer op)}"
| "op_cells (WriteOp op) = {buf_cell (wrop_buffer op)}"
| "op_cells (RecvOp op) = {buf_cell (rcvop_buffer op)}"
| "op_cells (ReadOp op) = {buf_cell (rdop_buffer op)}"
| "op_cells (RecvIntoOp op) = {buf_cell (rciop_buffer op)}"
| "op_cells (ReadIntoOp op) = {buf_cell (rdiop_buffer op)}"
| "op_cells (RecvFromOp op) = {buf_cell (rfop_buffer op), rfop_sockaddr op}"
| "op_cells (RecvFromIntoOp op) = {buf_cell (rfiop_buffer op), rfiop_sockaddr op}"
| "op_cells (SendToOp op) = insert (buf_cell (stop_buffer op)) (set_option (stop_sockaddr op))"
| "op_cells (ConnectOp op) = {conop_sockaddr op}"
| "op_cells (AcceptOp op) = {accop_sockaddr op}"
| "op_cells (PollAddOp op) = {}"
| "op_cells (SendfileOp op) = {}"

text \<open>The memory a request asks the kernel to use; it does not depend on what is pinned.\<close>

fun request_cells :: "KernelRequest \<Rightarrow> nat set" where
  "request_cells (SendReq r) = {buf_cell (snd_buffer r)}"
| "request_cells (WriteReq r) = {buf_cell (wr_buffer r)}"
| "request_cells (RecvReq r) = {buf_cell (rcv_buffer r)}"
| "request_cells (ReadReq r) = {buf_cell (rd_buffer r)}"
| "request_cells (AcceptReq r) = {acc_sockaddr r}"
| "request_cells (ConnectReq r) = {con_sockaddr r}"
| "request_cells (Cancel64Req r) = {}"
| "request_cells (SendToReq r) = insert (buf_cell (sto_buffer r)) (set_option (sto_sockaddr r))"
| "request_cells (RecvFromReq r) = {buf_cell (rfr_buffer r), rfr_sockaddr r}"
| "request_cells (SpliceReq r) = {}"
| "request_cells (PollAddReq r) = {}"

lemma unpinned_cells: "request_cells (unpinned r) = request_cells r"
  by (cases r) simp_all

lemma request_for_cells: "request_cells (request_for ud op) = op_cells op"
  by (cases op) simp_all

lemma pinned_cells: "pins_held r \<Longrightarrow> request_cells r \<subseteq> owned_cells r"
  by (cases r) auto

lemma asks_cells: "asks (request_for ud op) r \<Longrightarrow> op_cells op \<subseteq> owned_cells r"
  using pinned_cells unpinned_cells [of r] request_for_cells [of ud op] by (simp add: asks_def)

definition aimed_at :: "int set \<Rightarrow> KernelRequest \<Rightarrow> bool" where
  "aimed_at U r \<longleftrightarrow> (case r of Cancel64Req c \<Rightarrow> can_user_data c \<in> U | _ \<Rightarrow> False)"

definition entry_agreed :: "'w proactor \<Rightarrow> int \<Rightarrow> PendingCompletion \<Rightarrow> bool" where
  "entry_agreed s ud p \<longleftrightarrow> pc_operation p < next_op s \<and>
     (if pc_future p = None then aimed_at (op_tags (ops s (pc_operation p))) (pc_request p)
      else asks (request_for ud (ops s (pc_operation p))) (pc_request p))"

definition agreed :: "'w proactor \<Rightarrow> bool" where
  "agreed s \<longleftrightarrow> unsubmitted s = [] \<and> (\<forall>(ud, p) \<in> set (cache s). entry_agreed s ud p)"

text \<open>A step keeps the agreement if old operations still stand for the same and new entries agree.\<close>

lemma agreed_keep:
  assumes "agreed s" and "unsubmitted t = []" and "next_op s \<le> next_op t"
    and ops: "\<And>r ud. r < next_op s \<Longrightarrow>
      request_for ud (ops t r) = request_for ud (ops s r) \<and> op_tags (ops t r) = op_tags (ops s r)"
    and new: "\<And>ud p. (ud, p) \<in> set (cache t) \<Longrightarrow> (ud, p) \<notin> set (cache s) \<Longrightarrow> entry_agreed t ud p"
  shows "agreed t"
  unfolding agreed_def
proof (intro conjI ballI)
  fix x assume x: "x \<in> set (cache t)"
  obtain ud p where up: "x = (ud, p)" by fastforce
  have "entry_agreed t ud p"
  proof (cases "x \<in> set (cache s)")
    case True
    then have e: "entry_agreed s ud p" using assms(1) up by (auto simp: agreed_def)
    then have "pc_operation p < next_op s" by (simp add: entry_agreed_def)
    then show ?thesis using e ops assms(3)
      by (simp add: entry_agreed_def)
  next
    case False
    then show ?thesis using new x up by simp
  qed
  then show "case x of (ud, p) \<Rightarrow> entry_agreed t ud p" by (simp add: up)
qed (rule assms(2))

lemma agreed_frame:
  "unsubmitted t = unsubmitted s \<Longrightarrow> set (cache t) \<subseteq> set (cache s) \<Longrightarrow> ops t = ops s \<Longrightarrow> next_op t = next_op s \<Longrightarrow>
     agreed s \<Longrightarrow> agreed t"
  by (rule agreed_keep) (auto simp: agreed_def)

definition agreeing :: "'w proactor \<Rightarrow> 'w proactor \<Rightarrow> bool" where
  "agreeing s t \<longleftrightarrow> evolves s t \<and> (agreed s \<longrightarrow> agreed t)"

lemma step_if_agreeing:
  assumes "step_if evolves P s t"
    and "P \<Longrightarrow> proactor_inv s \<Longrightarrow> user_data_counter t \<le> 2 ^ 64 \<Longrightarrow> agreed s \<Longrightarrow> agreed t"
  shows "step_if agreeing P s t"
  using assms by (simp add: step_if_def agreeing_def)

interpretation agreement: evolving agreeing
  by unfold_locales (auto simp: agreeing_def evolves_refl intro: evolves_trans)

section \<open>Cancelling\<close>

lemma cancel_sent_agreed:
  assumes "cancel_sent E opr ud flags s t" and "opr < next_op s" and "ud \<in> op_tags (ops s opr)" and "agreed s"
  shows "agreed t"
proof -
  let ?p = "\<lparr>pc_operation = opr, pc_future = None,
    pc_request = Cancel64Req \<lparr>can_user_data = ud, can_flags = flags\<rparr>\<rparr>"
  have us: "unsubmitted s = []" using assms(4) by (simp add: agreed_def)
  then have t: "cache t = AList.update (user_data_counter s) ?p (cache s)" "ops t = ops s"
      "next_op t = next_op s" "unsubmitted t = []"
    using assms(1) by (auto simp: cancel_sent_def)
  show ?thesis
  proof (rule agreed_keep [OF assms(4) t(4)])
    fix u p assume "(u, p) \<in> set (cache t)" "(u, p) \<notin> set (cache s)"
    then have "p = ?p" using set_update_new by (fastforce simp: t(1))
    then show "entry_agreed t u p" using assms(2,3) by (simp add: entry_agreed_def aimed_at_def t)
  qed (simp_all add: t)
qed

lemma cancel_agreeing:
  "wp True (cancel_operation E opr flags) s
     (\<lambda>_. step_if agreeing (opr < next_op s) s) (\<lambda>_. step_if agreeing (opr < next_op s) s)"
proof (rule wp_mono [OF wp_conj [OF soundness.on_cancel wp_cancel_operation]])
  fix x t
  assume a: "step_if evolves (opr < next_op s) s t \<and> (case get_user_data (ops s opr) of None \<Rightarrow> t = s
            | Some ud \<Rightarrow> if ud = 0 then t = s else cancel_sent E opr ud flags s t)"
  show "step_if agreeing (opr < next_op s) s t"
    by (rule step_if_agreeing)
      (use a in \<open>auto dest: get_user_data_own intro: cancel_sent_agreed split: option.splits if_splits\<close>)
next
  fix e t
  assume a: "step_if evolves (opr < next_op s) s t \<and> sub_frame (s\<lparr>user_data_counter := user_data_counter s + 1\<rparr>) t"
  have "agreed s \<Longrightarrow> agreed t" by (rule agreed_frame) (use a in \<open>auto simp: sub_frame_def\<close>)
  then show "step_if agreeing (opr < next_op s) s t" by (intro step_if_agreeing) (use a in auto)
qed

interpretation agree_calls: cancelling agreeing E for E
proof
  fix s :: "'w proactor" and f assume "\<not> fut_done (futs s f)"
  from soundness.cancel_fut [OF this]
  show "step_if agreeing (f < next_fut s) s (set_fut_state f Cancelled s)"
    by (rule step_if_agreeing) (erule agreed_frame [rotated 4], simp_all add: set_fut_state_def)
qed (rule cancel_agreeing)

section \<open>Completing\<close>

lemma marked_agreed:
  assumes "agreed s" and "mark_seen E ud (ops s (pc_operation p), world s) = Some (r, (op', w))"
  shows "agreed (marked s ud p op' w)"
proof (rule agreed_keep [OF assms(1)])
  have same: "op_tags op' = op_tags (ops s (pc_operation p))"
    using op_protocol.mark_any [OF assms(2)] by simp
  then show "request_for u (ops (marked s ud p op' w) x) = request_for u (ops s x) \<and>
      op_tags (ops (marked s ud p op' w) x) = op_tags (ops s x)" for x u
    using mark_seen_request [OF assms(2)] by simp
qed (use assms(1) in \<open>auto simp: agreed_def set_delete\<close>)

lemma handle_agreed:
  fixes E :: "'w env" and s :: "'w proactor"
  assumes inv: "proactor_inv s" and ag: "agreed s"
  shows "wp True (handle_cqe E cqe) s (\<lambda>_ t. user_data_counter t \<le> 2 ^ 64 \<longrightarrow> agreed t)
    (\<lambda>_ t. user_data_counter t \<le> 2 ^ 64 \<longrightarrow> agreed t)"
proof (rule wp_handle_rule)
  let ?ud = "cqe_user_data cqe"
  have drop: "agreed t" if "cache t = AList.delete ?ud (cache s) \<or> cache t = cache s"
      "unsubmitted t = unsubmitted s" "ops t = ops s" "next_op t = next_op s" for t
    by (rule agreed_frame [OF _ _ _ _ ag]) (use that in \<open>auto simp: set_delete\<close>)
  show "(user_data_counter s \<le> 2 ^ 64 \<longrightarrow> agreed s) \<and>
      (user_data_counter (s\<lparr>handler_log := l\<rparr>) \<le> 2 ^ 64 \<longrightarrow> agreed (s\<lparr>handler_log := l\<rparr>))" for l
    by (simp add: drop)
  show "(user_data_counter (s\<lparr>cache := AList.delete ?ud (cache s)\<rparr>) \<le> 2 ^ 64 \<longrightarrow> agreed (s\<lparr>cache := AList.delete ?ud (cache s)\<rparr>)) \<and>
      (user_data_counter (s\<lparr>cache := AList.delete ?ud (cache s), handler_log := l\<rparr>) \<le> 2 ^ 64 \<longrightarrow>
       agreed (s\<lparr>cache := AList.delete ?ud (cache s), handler_log := l\<rparr>))" for l
    by (simp add: drop)
  fix p f op' w
  assume p: "(?ud, p) \<in> set (cache s)" and f: "pc_future p = Some f"
  let ?t = "marked s ?ud p op' w"
  show "user_data_counter ?t \<le> 2 ^ 64 \<longrightarrow> agreed ?t"
    if "mark_seen E ?ud (ops s (pc_operation p), world s) = Some (Inl e, (op', w))" for e
    by (simp add: marked_agreed [OF ag that])
  assume m: "mark_seen E ?ud (ops s (pc_operation p), world s) = Some (Inr (), (op', w))"
  note agt = marked_agreed [OF ag m]
  have fut: "f < next_fut s"
    using inv p f by (auto simp: proactor_inv_def entry_static_def dest: cache_okD)
  have "proactor_inv ?t" using marked_inv [OF inv p f m] by simp
  then show "wp True (bindM (fut_cancel E f) (\<lambda>_. ret ())) ?t (\<lambda>_ t. user_data_counter t \<le> 2 ^ 64 \<longrightarrow> agreed t)
      (\<lambda>_ t. user_data_counter t \<le> 2 ^ 64 \<longrightarrow> agreed t)"
    by (intro wp_mono [OF agree_calls.fut_cancel_unit]) (use fut agt in \<open>auto simp: step_if_def agreeing_def\<close>)
  have frame: "agreed t" if "cache t = cache ?t" "unsubmitted t = unsubmitted ?t" "ops t = ops ?t" "next_op t = next_op ?t"
    for t :: "'w proactor"
    by (rule agreed_frame [OF _ _ _ _ agt]) (use that in auto)
  show "wp True (run_operation E cqe (pc_operation p) f) ?t (\<lambda>_ t. user_data_counter t \<le> 2 ^ 64 \<longrightarrow> agreed t)
      (\<lambda>_ t. user_data_counter t \<le> 2 ^ 64 \<longrightarrow> agreed t)"
    by (rule wp_mono [OF run_outcomes]) (auto intro!: frame simp: set_fut_state_def)
qed

section \<open>Starting\<close>

lemma registers_agreed:
  assumes r: "registers E s f t" and ag: "agreed s"
  shows "agreed t"
proof -
  obtain q where q: "asks (request_for (user_data_counter s) (ops t (next_op s))) q"
    and t: "cache t = cache s @ [(user_data_counter s, \<lparr>pc_operation = next_op s, pc_future = Some f, pc_request = q\<rparr>)]"
      "unsubmitted t = []" "next_op t = Suc (next_op s)" "\<forall>g < next_op s. ops t g = ops s g"
    using r by (auto simp: registers_def)
  show ?thesis
    by (rule agreed_keep [OF ag]) (use q t in \<open>auto simp: entry_agreed_def\<close>)
qed

lemma registers_nothing_agreed: "registers_nothing s t \<Longrightarrow> agreed s \<Longrightarrow> agreed t"
  by (erule agreed_keep [where s = s]) (auto simp: registers_nothing_def)

lemma extended_agreed:
  assumes x: "extended s op new t" and ag: "agreed s"
    and new: "\<And>ud p. (ud, p) \<in> set new \<Longrightarrow> entry_agreed t ud p"
  shows "agreed t"
  by (rule agreed_keep [OF ag]) (use x new in \<open>auto simp: extended_def\<close>)

lemma sendfile_agreed:
  assumes "sq_laws E n" and "proactor_inv s" and "user_data_counter t \<le> 2 ^ 64"
    and "sendfile E sock conn offset count s = Some (r, t)" and ag: "agreed s"
  shows "agreed t"
  using sendfile_outcome [OF assms(1-4)]
proof (elim disjE exE conjE)
  assume "sub_frame s t"
  then show ?thesis by (intro agreed_frame [OF _ _ _ _ ag]) (auto simp: sub_frame_def)
next
  fix op assume "extended s (SendfileOp op) [] t"
  from extended_agreed [OF this ag] show ?thesis by simp
next
  let ?c = "user_data_counter s"
  fix op assume op: "sendfile_op op s"
    and x: "extended s (SendfileOp op) [(?c, pair_entry s (f2p_request op)), (?c + 1, pair_entry s (p2s_request op))] t"
  show ?thesis
    by (rule extended_agreed [OF x ag])
      (use x op in \<open>auto simp: extended_def entry_agreed_def pair_entry_def asks_def sendfile_op_def\<close>)
qed

lemma start_agreeing:
  assumes laws: "sq_laws E n" and m: "m \<in> starting_methods E"
  shows "keeps (step_if agreeing True) m"
proof (rule keepsI)
  fix s r t assume run: "m s = Some (r, t)"
  have sound: "step_if evolves True s t"
    using keepsD [OF sound_start [OF laws m] run] by (simp add: sound_step_if)
  show "step_if agreeing True s t"
  proof (rule step_if_agreeing [OF sound])
    assume inv: "proactor_inv s" and hi: "user_data_counter t \<le> 2 ^ 64" and ag: "agreed s"
    have "(\<exists>sock conn offset count. m = sendfile E sock conn offset count) \<or> starts E m"
      using m by cases (auto intro: starts_all)
    then show "agreed t"
    proof
      assume "\<exists>sock conn offset count. m = sendfile E sock conn offset count"
      then show ?thesis using sendfile_agreed [OF laws inv hi _ ag] run by blast
    next
      assume "starts E m"
      then have "wp True m s (registers E s) (\<lambda>_. registers_nothing s)" using inv by (simp add: starts_def)
      from wp_Inr [OF this] wp_Inl [OF this] run show ?thesis
        by (cases r) (auto intro: registers_agreed [OF _ ag] registers_nothing_agreed [OF _ ag])
    qed
  qed
qed

section \<open>Every call\<close>

interpretation agree_client: client agreeing E for E :: "'w env"
proof
  fix cqe
  have "wp True (handle_cqe E cqe) s (\<lambda>_. step_if agreeing True s) (\<lambda>_. step_if agreeing True s)" for s
  proof (cases "proactor_inv s \<and> agreed s")
    case True
    then have inv: "proactor_inv s" and ag: "agreed s" by auto
    show ?thesis
      by (rule wp_mono [OF wp_conj [OF wp_handle_cqe handle_agreed [OF inv ag]]])
        (auto intro!: step_if_agreeing simp: completes_def sound_step_if)
  next
    case False
    show ?thesis
      by (rule wp_mono [OF wp_handle_cqe])
        (use False in \<open>auto intro!: step_if_agreeing simp: completes_def sound_step_if\<close>)
  qed
  then show "keeps (step_if agreeing True) (handle_cqe E cqe)" by (simp add: keeps_wp)
qed (auto simp: agreeing_def evolves_frame evolves_refl intro: agreed_frame [rotated 4] start_agreeing cancel_agreeing)

lemma reachable_agreed:
  assumes "reachable E s" and "sq_laws E n"
  shows "user_data_counter s \<le> 2 ^ 64 \<longrightarrow> agreed s"
  using assms(1)
proof (induction rule: reachable.induct)
  case (reachable_init entries flags w junk r s)
  then show ?case
    by (auto simp: init_proactor_def py_defs new_proactor_def agreed_def split: option.splits sum.splits prod.splits)
next
  case (reachable_step s t)
  have st: "step_if agreeing True s t" by (rule agree_client.api_step_keeps [OF assms(2) reachable_step.hyps(2)])
  show ?case
  proof
    assume hi: "user_data_counter t \<le> 2 ^ 64"
    then have "user_data_counter s \<le> 2 ^ 64" using st by (simp add: step_if_def)
    moreover from this have "proactor_inv s" using reachable_inv [OF reachable_step.hyps(1) assms(2)] by simp
    ultimately show "agreed t" using st hi reachable_step.IH by (simp add: step_if_def agreeing_def)
  qed
qed

end
