(* ===== verification/Uring_Results.thy ===== *)
theory Uring_Results
  imports Uring_Agree
begin

text \<open>
  What a future is finished with: the results of the single operations as one table over the
  registered request, and the outcome of a linked pair of splices.
\<close>

section \<open>Settling a future\<close>

text \<open>
  A completion whose operation computes an outcome finishes the pending future with exactly
  that outcome and reports it: the operation is marked, the entry is gone, nothing else of the
  state changes.
\<close>

definition settled :: "'w proactor \<Rightarrow> nat \<Rightarrow> exn + pyval \<Rightarrow> 'w \<Rightarrow> 'w proactor" where
  "settled s f v w = s\<lparr>futs := (futs s)(f := (futs s f)\<lparr>fut_state := Finished v\<rparr>),
     world := w, results := results s @ [f]\<rparr>"

lemma is_stopped_marked [simp]: "is_stopped (marked s ud p op' w) x = is_stopped s x"
  by (simp add: is_stopped_def split: fileobj.split)

lemma handle_settled:
  assumes "proactor_inv s" and "(cqe_user_data cqe, p) \<in> set (cache s)" and "pc_future p = Some f"
    and "mark_seen E (cqe_user_data cqe) (ops s (pc_operation p), world s) = Some (Inr (), (op', w))"
    and "\<not> is_stopped s (get_file_obj op')" and "fut_state (futs s f) = Pending"
    and "operate E op' (cqe_res cqe) w = Some (Inr a, w')"
    and "a = SetResult x \<and> v = Inr x \<or> a = SetException e \<and> v = Inl e"
  shows "handle_cqe E cqe s = Some (Inr (), settled (marked s (cqe_user_data cqe) p op' w) f v w')"
proof -
  let ?t = "marked s (cqe_user_data cqe) p op' w"
  have "run_operation E cqe (pc_operation p) f ?t =
      Some (Inr (), (set_fut_state f (Finished v) (?t\<lparr>world := w'\<rparr>))\<lparr>results := results ?t @ [f]\<rparr>)"
    by (rule run_settled [where v = x and e = e]) (use assms(6-8) in \<open>auto simp: fut_done_def\<close>)
  then show ?thesis
    using handle_future [OF assms(1-4)] assms(5) by (simp add: settled_def set_fut_state_def)
qed

text \<open>When the operation raises instead, the entry is gone and the future stays as it was.\<close>

lemma handle_raised:
  assumes "proactor_inv s" and "(cqe_user_data cqe, p) \<in> set (cache s)" and "pc_future p = Some f"
    and "mark_seen E (cqe_user_data cqe) (ops s (pc_operation p), world s) = Some (Inr (), (op', w))"
    and "\<not> is_stopped s (get_file_obj op')" and "fut_state (futs s f) = Pending"
    and "operate E op' (cqe_res cqe) w = Some (Inl e, w')"
  shows "handle_cqe E cqe s = Some (Inl e, (marked s (cqe_user_data cqe) p op' w)\<lparr>world := w'\<rparr>)"
proof -
  let ?t = "marked s (cqe_user_data cqe) p op' w"
  have "run_operation E cqe (pc_operation p) f ?t = Some (Inl e, ?t\<lparr>world := w'\<rparr>)"
    using assms(6,7) by (simp add: run_operation_def py_defs fut_done_def)
  then show ?thesis using handle_future [OF assms(1-4)] assms(5) by simp
qed

text \<open>And when it sets nothing, only the marking is left.\<close>

lemma handle_nothing:
  assumes "proactor_inv s" and "(cqe_user_data cqe, p) \<in> set (cache s)" and "pc_future p = Some f"
    and "mark_seen E (cqe_user_data cqe) (ops s (pc_operation p), world s) = Some (Inr (), (op', w))"
    and "\<not> is_stopped s (get_file_obj op')"
    and "fut_state (futs s f) = Pending \<Longrightarrow> operate E op' (cqe_res cqe) w = Some (Inr SetNothing, w)"
  shows "handle_cqe E cqe s = Some (Inr (), marked s (cqe_user_data cqe) p op' w)"
proof -
  let ?t = "marked s (cqe_user_data cqe) p op' w"
  have "run_operation E cqe (pc_operation p) f ?t = Some (Inr (), ?t)"
    using assms(6) by (auto simp: run_operation_def py_defs fut_done_def apply_settle_def marked_def)
  then show ?thesis using handle_future [OF assms(1-4)] assms(5) by simp
qed

section \<open>The results of single operations\<close>

text \<open>
  The table: what a completion with a non-negative \<open>res\<close> is worth, read from the memory of the
  request that was registered.
\<close>

definition bytes_at :: "'w env \<Rightarrow> pybuf \<Rightarrow> int \<Rightarrow> 'w \<Rightarrow> 8 word list" where
  "bytes_at E b n w = take (nat n) (e_bytes E (buf_cell b) w)"

text \<open>The received bytes and the peer address of a request; other requests have neither.\<close>

definition bytes_of :: "'w env \<Rightarrow> KernelRequest \<Rightarrow> int \<Rightarrow> 'w \<Rightarrow> 8 word list" where
  "bytes_of E q n w = (case q of
       RecvReq r \<Rightarrow> bytes_at E (rcv_buffer r) n w
     | ReadReq r \<Rightarrow> bytes_at E (rd_buffer r) n w
     | RecvFromReq r \<Rightarrow> bytes_at E (rfr_buffer r) n w
     | _ \<Rightarrow> [])"

definition addr_of :: "'w env \<Rightarrow> KernelRequest \<Rightarrow> 'w \<Rightarrow> exn + pyAddress" where
  "addr_of E q w = (case q of
       RecvFromReq r \<Rightarrow> parse_addr E (sock_family (rfr_sock r)) (e_sockaddr E (rfr_sockaddr r) w)
     | AcceptReq r \<Rightarrow> parse_addr E (sock_family (acc_sock r)) (e_sockaddr E (acc_sockaddr r) w)
     | _ \<Rightarrow> Inl (AttributeError ''sockaddr''))"

text \<open>The accepted descriptor becomes a socket of the listener's kind, blocking if the listener has a timeout.\<close>

definition accepted :: "'w env \<Rightarrow> socket \<Rightarrow> KernelRequest \<Rightarrow> int \<Rightarrow> 'w \<Rightarrow> (exn + pyval) \<times> 'w" where
  "accepted E s q n w =
     (case e_socket_fromfd E (sock_family s) (sock_type s) (sock_proto s) n w of
       (Inl e, w1) \<Rightarrow> (Inl e, w1)
     | (Inr sock, w1) \<Rightarrow>
         let w2 = (if e_getdefaulttimeout E w1 = None \<and> e_gettimeout E s w1 \<noteq> None \<and> e_gettimeout E s w1 \<noteq> Some 0
                   then e_setblocking E sock True w1 else w1)
         in (map_sum id (VSockAddr sock) (addr_of E q w2), w2))"

fun delivered :: "'w env \<Rightarrow> BaseOperation \<Rightarrow> KernelRequest \<Rightarrow> int \<Rightarrow> 'w \<Rightarrow> (exn + pyval) \<times> 'w" where
  "delivered E (RecvOp op) q n w = (Inr (VBytes (bytes_of E q n w)), w)"
| "delivered E (ReadOp op) q n w = (Inr (VBytes (bytes_of E q n w)), w)"
| "delivered E (RecvFromOp op) q n w = (map_sum id (VBytesAddr (bytes_of E q n w)) (addr_of E q w), w)"
| "delivered E (RecvFromIntoOp op) q n w = (map_sum id (VIntAddr n) (addr_of E q w), w)"
| "delivered E (ConnectOp op) q n w = (Inr VNone, w)"
| "delivered E (AcceptOp op) q n w = accepted E (accop_sock op) q n w"
| "delivered E op q n w = (Inr (VInt n), w)"

fun is_pair :: "BaseOperation \<Rightarrow> bool" where
  "is_pair (SendfileOp op) = True"
| "is_pair _ = False"

lemma unpinned_results: "bytes_of E (unpinned q) n w = bytes_of E q n w" "addr_of E (unpinned q) w = addr_of E q w"
  by (cases q; simp add: bytes_of_def addr_of_def)+

lemma delivered_unpinned: "delivered E op (unpinned q) n w = delivered E op q n w"
proof -
  have "accepted E s (unpinned q) n w = accepted E s q n w" for s
    unfolding accepted_def unpinned_results by (rule refl)
  then show ?thesis by (cases op) (simp_all add: unpinned_results)
qed

lemma op_result_delivered:
  "\<not> is_pair op \<Longrightarrow> op_result E op n w = Some (delivered E op (request_for ud op) n w)"
  by (cases op)
    (auto simp: py_defs buffer_prefix_def bytes_at_def peer_addr_def bytes_of_def addr_of_def accept_result_def accepted_def Let_def
      split: prod.splits sum.splits)

lemma delivered_marked:
  "mark_seen E u (op, w) = Some (r, (op', w')) \<Longrightarrow> delivered F op' q n v = delivered F op q n v \<and> is_pair op' = is_pair op"
  by (cases op)
    (auto simp: mark_seen_def op_defs Let_def accepted_def split: if_splits prod.splits sum.splits option.splits)

lemma operate_delivered:
  assumes "\<not> is_pair op" and "0 \<le> n" and "asks (request_for ud op) q"
  shows "operate E op n w = Some (map_sum id SetResult (fst (delivered E op q n w)), snd (delivered E op q n w))"
proof -
  have "delivered E op q n w = delivered E op (request_for ud op) n w"
    using assms(3) delivered_unpinned [of E op q n w] by (simp add: asks_def)
  then have r: "op_result E op n w = Some (delivered E op q n w)" using op_result_delivered [OF assms(1)] by simp
  have "operate E op n w = bindM (op_result E op n) (\<lambda>v. ret (SetResult v)) w"
    using assms(1,2) by (cases op) auto
  then show ?thesis
    by (cases "delivered E op q n w"; cases "fst (delivered E op q n w)") (simp_all add: r bindM_def ret_def)
qed

lemma single_mark:
  assumes "\<not> is_pair op" and "ud \<in> op_tags op"
  shows "\<exists>op'. mark_seen E ud (op, w) = Some (Inr (), (op', w)) \<and> op_seen op' = insert ud (op_seen op)"
  using assms by (cases op) (auto simp: mark_seen_def op_defs)

lemma entry_facts:
  assumes "proactor_inv s" and "(ud, p) \<in> set (cache s)" and "pc_future p = Some f"
  shows "ud \<in> op_tags (ops s (pc_operation p))" "ud \<notin> op_seen (ops s (pc_operation p))"
    "op_wf (ops s (pc_operation p))" "fut_operation (futs s f) = pc_operation p" "f < next_fut s"
proof -
  from assms have st: "entry_static s ud p" and li: "entry_live s ud p" and ok: "ops_ok s"
    by (auto simp: proactor_inv_def dest: cache_okD)
  show "ud \<in> op_tags (ops s (pc_operation p))" "fut_operation (futs s f) = pc_operation p" "f < next_fut s"
    using st assms(3) by (simp_all add: entry_static_def)
  show "ud \<notin> op_seen (ops s (pc_operation p))" using li assms(3) by (simp add: entry_live_def)
  show "op_wf (ops s (pc_operation p))" using st ok by (simp add: entry_static_def ops_ok_def)
qed

lemma entry_asks:
  "agreed s \<Longrightarrow> (ud, p) \<in> set (cache s) \<Longrightarrow> pc_future p = Some f \<Longrightarrow>
     asks (request_for ud (ops s (pc_operation p))) (pc_request p)"
  by (auto simp: agreed_def entry_agreed_def)

text \<open>
  A completion of a single operation delivers what the table says of the registered request; when
  the table has no value, the call raises and the future, whose entry is gone, stays pending.
\<close>

definition received :: "'w proactor \<Rightarrow> int \<Rightarrow> PendingCompletion \<Rightarrow> BaseOperation \<Rightarrow> bool" where
  "received s ud p op' \<longleftrightarrow> op_tags op' = op_tags (ops s (pc_operation p)) \<and>
     op_seen op' = insert ud (op_seen (ops s (pc_operation p)))"

lemma handle_delivers:
  fixes cqe :: IoUringCqe and p :: PendingCompletion and s :: "'w proactor"
  defines "op \<equiv> ops s (pc_operation p)" and "ud \<equiv> cqe_user_data cqe"
  assumes inv: "proactor_inv s" and ag: "agreed s" and p: "(ud, p) \<in> set (cache s)" and f: "pc_future p = Some f"
    and single: "\<not> is_pair op" and ns: "\<not> is_stopped s (get_file_obj op)" and pend: "fut_state (futs s f) = Pending"
    and pos: "0 \<le> cqe_res cqe" and d: "delivered E op (pc_request p) (cqe_res cqe) (world s) = (v, w)"
  shows "\<exists>op'. received s ud p op' \<and> handle_cqe E cqe s = (case v of
      Inr x \<Rightarrow> Some (Inr (), settled (marked s ud p op' (world s)) f (Inr x) w)
    | Inl e \<Rightarrow> Some (Inl e, (marked s ud p op' (world s))\<lparr>world := w\<rparr>))"
proof -
  note facts = entry_facts [OF inv p f, folded op_def]
  obtain op' where m: "mark_seen E ud (op, world s) = Some (Inr (), (op', world s))"
    using single_mark [OF single facts(1), of E "world s"] by auto
  have own: "received s ud p op'" using mark_seen_own [OF facts(1) m] by (simp add: received_def op_def)
  have op': "\<not> is_pair op'" "delivered E op' (pc_request p) (cqe_res cqe) (world s) = (v, w)"
    using delivered_marked [OF m, of E "pc_request p" "cqe_res cqe" "world s"] single d by auto
  have "asks (request_for ud op') (pc_request p)"
    using entry_asks [OF ag p f] mark_seen_request [OF m] by (simp add: op_def)
  then have o: "operate E op' (cqe_res cqe) (world s) = Some (map_sum id SetResult v, w)"
    using operate_delivered [OF op'(1) pos, of ud "pc_request p" E "world s"] by (simp add: op'(2))
  have ns': "\<not> is_stopped s (get_file_obj op')" using ns mark_seen_file [OF m] by simp
  note pm = p [unfolded ud_def] f m [unfolded ud_def op_def] ns' pend
  show ?thesis
  proof (cases v)
    case (Inl e)
    have "handle_cqe E cqe s = Some (Inl e, (marked s ud p op' (world s))\<lparr>world := w\<rparr>)"
      unfolding ud_def by (rule handle_raised [OF inv pm]) (simp add: o Inl)
    then show ?thesis using own Inl by (intro exI [of _ op']) simp
  next
    case (Inr x)
    have "handle_cqe E cqe s = Some (Inr (), settled (marked s ud p op' (world s)) f (Inr x) w)"
      unfolding ud_def by (rule handle_settled [OF inv pm, where a = "SetResult x" and x = x]) (simp_all add: o Inr)
    then show ?thesis using own Inr by (intro exI [of _ op']) simp
  qed
qed

section \<open>The outcome of a linked pair\<close>

text \<open>
  What marking one completion of a pair does when the descriptors can be closed.
\<close>

definition pair_marked :: "int \<Rightarrow> SendfileOperation \<Rightarrow> SendfileOperation" where
  "pair_marked ud op = (let a = f2p_done op \<or> ud = f2p_user_data op; b = p2s_done op \<or> ud = p2s_user_data op in
     op\<lparr>f2p_done := a, p2s_done := b, pipes_closed := a \<and> b\<rparr>)"

lemma pair_mark_seen:
  assumes close: "\<And>fd w. fst (e_close E fd w) = Inr ()" and wf: "op_wf (SendfileOp op)"
    and ud: "ud \<in> op_tags (SendfileOp op)" and closed: "pipes_closed op = (f2p_done op \<and> p2s_done op)"
  shows "mark_seen E ud (SendfileOp op, w) = Some (Inr (), (SendfileOp (pair_marked ud op),
    if pipes_closed (pair_marked ud op) \<and> \<not> pipes_closed op then close_pipe E op w else w))"
proof -
  have c: "\<exists>u. e_close E fd v = (Inr (), u)" for fd v
    using close [of fd v] by (cases "e_close E fd v") simp
  obtain w1 w2 where r: "e_close E (pipe_r op) w = (Inr (), w1)" "e_close E (pipe_w op) w1 = (Inr (), w2)"
    using c [of "pipe_r op" w] c [of "pipe_w op"] by blast
  have "sendfile_mark ud op = Inr (pair_marked ud op\<lparr>pipes_closed := pipes_closed op\<rparr>)"
    using wf ud by (auto simp: sendfile_mark_def pair_marked_def Let_def intro!: SendfileOperation.equality)
  moreover have "pair_marked ud op\<lparr>pipes_closed := True\<rparr> = pair_marked ud op"
    if "f2p_done (pair_marked ud op)" "p2s_done (pair_marked ud op)"
    using that by (simp add: pair_marked_def Let_def)
  moreover have "pair_marked ud op\<lparr>pipes_closed := pipes_closed op\<rparr> = pair_marked ud op"
    if "\<not> (f2p_done (pair_marked ud op) \<and> p2s_done (pair_marked ud op) \<and> \<not> pipes_closed op)"
    using that closed by (auto simp: pair_marked_def Let_def intro!: SendfileOperation.equality)
  moreover have "pipes_closed (pair_marked ud op) = (f2p_done (pair_marked ud op) \<and> p2s_done (pair_marked ud op))"
    "pipe_r (pair_marked ud op) = pipe_r op" "pipe_w (pair_marked ud op) = pipe_w op"
    by (simp_all add: pair_marked_def Let_def)
  ultimately show ?thesis
    using r by (simp add: mark_seen_def sendfile_mark_seen_def close_pipe_def)
qed

lemma handle_pair:
  assumes inv: "proactor_inv s" and p: "(cqe_user_data cqe, p) \<in> set (cache s)" and f: "pc_future p = Some f"
    and op: "ops s (pc_operation p) = SendfileOp op" and ns: "\<not> is_stopped s (SockObj (sfop_sock op))"
    and close: "\<And>fd w. fst (e_close E fd w) = Inr ()" and closed: "pipes_closed op = (f2p_done op \<and> p2s_done op)"
  defines "op1 \<equiv> pair_marked (cqe_user_data cqe) op"
  defines "w1 \<equiv> (if pipes_closed op1 \<and> \<not> pipes_closed op then close_pipe E op (world s) else world s)"
  defines "t \<equiv> marked s (cqe_user_data cqe) p (SendfileOp op1) w1"
  shows "handle_cqe E cqe s = Some (Inr (), if fut_state (futs s f) \<noteq> Pending then t
    else case sendfile_operate op1 (cqe_res cqe) of
      SetNothing \<Rightarrow> t | SetResult v \<Rightarrow> settled t f (Inr v) w1 | SetException e \<Rightarrow> settled t f (Inl e) w1)"
proof -
  note facts = entry_facts [OF inv p f, unfolded op]
  have m: "mark_seen E (cqe_user_data cqe) (ops s (pc_operation p), world s) = Some (Inr (), (SendfileOp op1, w1))"
    using pair_mark_seen [OF close facts(3,1) closed] by (simp add: op op1_def w1_def)
  have ns1: "\<not> is_stopped s (get_file_obj (SendfileOp op1))"
    using ns by (simp add: op1_def pair_marked_def Let_def)
  have o: "operate E (SendfileOp op1) (cqe_res cqe) w1 = Some (Inr (sendfile_operate op1 (cqe_res cqe)), w1)"
    by (simp add: ret_def)
  show ?thesis
  proof (cases "fut_state (futs s f) = Pending")
    case False
    have "handle_cqe E cqe s = Some (Inr (), t)"
      unfolding t_def by (rule handle_nothing [OF inv p f m ns1]) (use False in simp)
    then show ?thesis using False by simp
  next
    case True
    show ?thesis
    proof (cases "sendfile_operate op1 (cqe_res cqe)")
      case SetNothing
      have "handle_cqe E cqe s = Some (Inr (), t)"
        unfolding t_def by (rule handle_nothing [OF inv p f m ns1]) (use o SetNothing in simp)
      then show ?thesis using True SetNothing by simp
    next
      case (SetResult v)
      then show ?thesis
        using handle_settled [OF inv p f m ns1 True o [unfolded SetResult], of v "Inr v"] True by (simp add: t_def)
    next
      case (SetException e)
      then show ?thesis
        using handle_settled [OF inv p f m ns1 True o [unfolded SetException], of VNone "Inl e" e] True by (simp add: t_def)
    qed
  qed
qed

text \<open>
  The outcome of a pair whose completions arrive in the order \<open>u1\<close> with \<open>n1\<close>, then the other
  number with \<open>n2\<close>: the first error, if there is one before the second splice reported, and
  otherwise the number of bytes the second splice moved.
\<close>

definition pair_outcome :: "SendfileOperation \<Rightarrow> int \<Rightarrow> int \<Rightarrow> int \<Rightarrow> exn + pyval" where
  "pair_outcome op u1 n1 n2 =
     (if n1 < 0 then Inl (OSError (- n1))
      else if u1 = p2s_user_data op then Inr (VInt n1)
      else if n2 < 0 then Inl (OSError (- n2))
      else Inr (VInt n2))"

lemma pair_entries:
  assumes inv: "proactor_inv s" and p: "(u1, p1) \<in> set (cache s)" "(u2, p2) \<in> set (cache s)" "u1 \<noteq> u2"
    and f: "pc_future p1 = Some f" "pc_future p2 = Some f" and op: "ops s (pc_operation p1) = SendfileOp op"
  shows "pc_operation p2 = pc_operation p1" "{u1, u2} = {f2p_user_data op, p2s_user_data op}"
    "f2p_user_data op \<noteq> p2s_user_data op" "\<not> f2p_done op" "\<not> p2s_done op" "\<not> pipes_closed op"
proof -
  note a = entry_facts [OF inv p(1) f(1)] and b = entry_facts [OF inv p(2) f(2)]
  show same: "pc_operation p2 = pc_operation p1" using a(4) b(4) by simp
  have t: "u1 \<in> {f2p_user_data op, p2s_user_data op}" "u2 \<in> {f2p_user_data op, p2s_user_data op}"
    using a(1) b(1) by (simp_all add: same op)
  then show tags: "{u1, u2} = {f2p_user_data op, p2s_user_data op}" using p(3) by auto
  show ne: "f2p_user_data op \<noteq> p2s_user_data op" using t p(3) by auto
  have "f2p_user_data op \<notin> sendfile_seen op \<and> p2s_user_data op \<notin> sendfile_seen op"
    using a(2) b(2) tags by (auto simp: same op doubleton_eq_iff)
  then show "\<not> f2p_done op" "\<not> p2s_done op" by (auto simp: sendfile_seen_def)
  then show "\<not> pipes_closed op" using a(3) by (simp add: op)
qed

lemma pair_runs:
  assumes inv: "proactor_inv s" and hi: "user_data_counter s \<le> 2 ^ 64"
    and p: "(cqe_user_data c1, p1) \<in> set (cache s)" "(cqe_user_data c2, p2) \<in> set (cache s)"
      "cqe_user_data c1 \<noteq> cqe_user_data c2"
    and f: "pc_future p1 = Some f" "pc_future p2 = Some f" and op: "ops s (pc_operation p1) = SendfileOp op"
    and ns: "\<not> is_stopped s (SockObj (sfop_sock op))"
    and close: "\<And>fd w. fst (e_close E fd w) = Inr ()"
  shows "\<exists>s1 t. handle_cqe E c1 s = Some (Inr (), s1) \<and> handle_cqe E c2 s1 = Some (Inr (), t) \<and>
    (fut_state (futs t f), results t) =
      (if fut_state (futs s f) = Pending
       then (Finished (pair_outcome op (cqe_user_data c1) (cqe_res c1) (cqe_res c2)), results s @ [f])
       else (fut_state (futs s f), results s)) \<and>
    cache t = AList.delete (cqe_user_data c2) (AList.delete (cqe_user_data c1) (cache s)) \<and>
    world t = close_pipe E op (world s)"
proof -
  let ?u1 = "cqe_user_data c1" and ?u2 = "cqe_user_data c2" and ?n1 = "cqe_res c1"
  note pe = pair_entries [OF inv p f op]
  let ?op1 = "pair_marked ?u1 op" and ?op2 = "pair_marked ?u2 (pair_marked ?u1 op)"
  have u: "?u1 = f2p_user_data op \<and> ?u2 = p2s_user_data op \<or> ?u1 = p2s_user_data op \<and> ?u2 = f2p_user_data op"
    using pe(2) by (auto simp: doubleton_eq_iff)
  have op1: "pipes_closed ?op1 = (f2p_done ?op1 \<and> p2s_done ?op1)" "\<not> pipes_closed ?op1"
      "p2s_done ?op1 = (?u1 = p2s_user_data op)" "sfop_sock ?op1 = sfop_sock op"
    using pe(3-6) by (auto simp: pair_marked_def Let_def)
  have op2: "pipes_closed ?op2" "p2s_done ?op2" using u by (auto simp: pair_marked_def Let_def)
  have cl: "close_pipe E ?op1 = close_pipe E op" by (simp add: close_pipe_def pair_marked_def Let_def fun_eq_iff)
  define t1 where "t1 = marked s ?u1 p1 (SendfileOp ?op1) (world s)"
  define s1 where "s1 = (if fut_state (futs s f) \<noteq> Pending then t1 else case sendfile_operate ?op1 ?n1 of SetNothing \<Rightarrow> t1
      | SetResult v \<Rightarrow> settled t1 f (Inr v) (world s) | SetException e \<Rightarrow> settled t1 f (Inl e) (world s))"
  have w1: "(if pipes_closed ?op1 \<and> \<not> pipes_closed op then close_pipe E op (world s) else world s) = world s"
    using op1(2) by simp
  have one: "handle_cqe E c1 s = Some (Inr (), s1)"
    using handle_pair [OF inv p(1) f(1) op ns close] pe(4-6) unfolding w1 s1_def t1_def by simp
  have s1: "cache s1 = AList.delete ?u1 (cache s)" "world s1 = world s" "user_data_counter s1 = user_data_counter s"
      "ops s1 (pc_operation p2) = SendfileOp ?op1" "stopped_serving s1 = stopped_serving s"
    by (auto simp: s1_def t1_def settled_def pe(1) split: settle.split)
  have st: "(fut_state (futs s1 f), results s1) = (if fut_state (futs s f) \<noteq> Pending then (fut_state (futs s f), results s)
      else if ?n1 < 0 then (Finished (Inl (OSError (- ?n1))), results s @ [f])
      else if ?u1 = p2s_user_data op then (Finished (Inr (VInt ?n1)), results s @ [f]) else (Pending, results s))"
    by (auto simp: s1_def t1_def settled_def sendfile_operate_def op1(3) get_os_error_def)
  have inv1: "proactor_inv s1"
    using wp_Inr [OF wp_handle_cqe one] inv hi by (simp add: completes_def sound_step_def s1(3))
  have p2: "(?u2, p2) \<in> set (cache s1)" using p by (simp add: s1 set_delete)
  have ns1: "\<not> is_stopped s1 (SockObj (sfop_sock ?op1))" using ns by (simp add: is_stopped_def s1(5) op1(4))
  define w2 where "w2 = close_pipe E op (world s)"
  have w2: "(if pipes_closed ?op2 \<and> \<not> pipes_closed ?op1 then close_pipe E ?op1 (world s1) else world s1) = w2"
    using op1(2) op2(1) by (simp add: s1(2) cl w2_def)
  define t2 where "t2 = marked s1 ?u2 p2 (SendfileOp ?op2) w2"
  have two: "handle_cqe E c2 s1 = Some (Inr (), if fut_state (futs s1 f) \<noteq> Pending then t2
    else case sendfile_operate ?op2 (cqe_res c2) of
      SetNothing \<Rightarrow> t2 | SetResult v \<Rightarrow> settled t2 f (Inr v) w2 | SetException e \<Rightarrow> settled t2 f (Inl e) w2)"
    using handle_pair [OF inv1 p2 f(2) s1(4) ns1 close op1(1)] unfolding w2 t2_def by simp
  have "\<exists>t. handle_cqe E c2 s1 = Some (Inr (), t) \<and>
      (fut_state (futs t f), results t) =
        (if fut_state (futs s f) = Pending then (Finished (pair_outcome op ?u1 ?n1 (cqe_res c2)), results s @ [f])
         else (fut_state (futs s f), results s)) \<and>
      cache t = AList.delete ?u2 (AList.delete ?u1 (cache s)) \<and> world t = w2"
    unfolding two using st
    by (auto simp: pair_outcome_def t2_def settled_def sendfile_operate_def op2(2) get_os_error_def s1(1) split: if_splits)
  then show ?thesis using one unfolding w2_def by blast
qed

end
