(* ===== verification/Uring_World.thy ===== *)
theory Uring_World
  imports Uring_Proactor
begin

text \<open>
  A small world to run the model in: a submission queue of four entries, a scripted kernel
  that answers submissions and completes entries in order, memory cells counted up from
  zero, and descriptors from ten. It satisfies the laws the parameter \<open>env\<close> is assumed to
  have; the concrete instances of the properties run in it.
\<close>

record sim =
  sm_slots :: "(nat \<times> int) list"
  sm_next :: nat
  sm_script :: "32 word list"
  sm_res :: "32 word list"
  sm_cq :: "c_cqe list"
  sm_calls :: "prep_call list"
  sm_closed :: "int list"
  sm_names :: "(nat \<times> sockaddr) list"

definition sim0 :: sim where
  "sim0 = \<lparr>sm_slots = [], sm_next = 0, sm_script = [], sm_res = [], sm_cq = [], sm_calls = [],
     sm_closed = [], sm_names = []\<rparr>"

definition sim_ready :: "sim \<Rightarrow> nat" where
  "sim_ready w = min 4 (length (sm_slots w))"

definition sim_get_sqe :: "sim \<Rightarrow> nat option \<times> sim" where
  "sim_get_sqe w =
     (if length (sm_slots w) < 4
      then (Some (sm_next w), w\<lparr>sm_slots := sm_slots w @ [(sm_next w, 0)], sm_next := Suc (sm_next w)\<rparr>)
      else (None, w))"

text \<open>Completions of submitted entries take the scripted results, then zero.\<close>

fun complete :: "(nat \<times> int) list \<Rightarrow> 32 word list \<Rightarrow> c_cqe list" where
  "complete [] rs = []"
| "complete ((q, ud) # es) [] = \<lparr>c_user_data = word_of_int ud, c_res = 0\<rparr> # complete es []"
| "complete ((q, ud) # es) (r # rs) = \<lparr>c_user_data = word_of_int ud, c_res = r\<rparr> # complete es rs"

definition sim_take :: "nat \<Rightarrow> sim \<Rightarrow> sim" where
  "sim_take k w = w\<lparr>sm_slots := drop k (take 4 (sm_slots w)),
     sm_cq := sm_cq w @ complete (take k (sm_slots w)) (sm_res w), sm_res := drop k (sm_res w)\<rparr>"

text \<open>The script gives the result of each submission; once it is used up, all entries are taken.\<close>

definition sim_submit :: "sim \<Rightarrow> 32 word \<times> sim" where
  "sim_submit w = (case sm_script w of
       [] \<Rightarrow> (word_of_nat (sim_ready w), sim_take (sim_ready w) w)
     | r # rs \<Rightarrow>
         if sint r < 0 then (r, w\<lparr>sm_script := rs\<rparr>)
         else let k = min (nat (sint r)) (sim_ready w) in
           (word_of_nat k, sim_take k (w\<lparr>sm_script := rs\<rparr>)))"

definition sim_peek :: "32 word \<Rightarrow> sim \<Rightarrow> (32 word \<times> c_cqe) \<times> sim" where
  "sim_peek none w = (case sm_cq w of
       [] \<Rightarrow> ((none, \<lparr>c_user_data = 0, c_res = 0\<rparr>), w)
     | c # cs \<Rightarrow> ((0, c), w))"

definition sim_env :: "sim env" where
  "sim_env = \<lparr>
     e_queue_init = (\<lambda>entries flags w. (0, w)),
     e_queue_exit = (\<lambda>w. w\<lparr>sm_slots := []\<rparr>),
     e_get_sqe = sim_get_sqe,
     e_prep = (\<lambda>q c w. w\<lparr>sm_calls := sm_calls w @ [c]\<rparr>),
     e_set_data64 = (\<lambda>q d w. w\<lparr>sm_slots := map (\<lambda>(p, ud). (p, if p = q \<and> ud = 0 then d else ud)) (sm_slots w)\<rparr>),
     e_set_flags = (\<lambda>q f w. w),
     e_submit = sim_submit,
     e_sq_ready = sim_ready,
     e_sq_space_left = (\<lambda>w. 4 - length (sm_slots w)),
     e_peek_cqe = sim_peek (- 11),
     e_wait_cqe = sim_peek (- 5),
     e_wait_cqe_timeout = (\<lambda>ts. sim_peek (- 62)),
     e_cqe_seen = (\<lambda>c w. w\<lparr>sm_cq := tl (sm_cq w)\<rparr>),
     e_IOSQE_IO_HARDLINK = 8,
     e_bytearray = (\<lambda>k w. (sm_next w, w\<lparr>sm_next := Suc (sm_next w)\<rparr>)),
     e_ffi_new = (\<lambda>w. (sm_next w, w\<lparr>sm_next := Suc (sm_next w)\<rparr>)),
     e_new_sockaddr = (\<lambda>a w. (sm_next w, w\<lparr>sm_next := Suc (sm_next w), sm_names := (sm_next w, a) # sm_names w\<rparr>)),
     e_bytes = (\<lambda>c w. replicate 8 7),
     e_sockaddr = (\<lambda>c w. case map_of (sm_names w) c of
        Some a \<Rightarrow> a | None \<Rightarrow> SockaddrUn \<lparr>sun_family = AF_UNIX, sun_path = []\<rparr>),
     e_sock_fileno = (\<lambda>s w. word_of_nat (sock_id s)),
     e_io_fileno = (\<lambda>i w. Inr (word_of_nat i)),
     e_pipe = (\<lambda>w. (Inr (10, 11), w)),
     e_close = (\<lambda>fd w. (Inr (), w\<lparr>sm_closed := sm_closed w @ [fd]\<rparr>)),
     e_socket_fromfd = (\<lambda>fam ty proto fd w. (Inr \<lparr>sock_id = nat fd, sock_family = fam, sock_type = ty,
        sock_proto = proto\<rparr>, w)),
     e_getdefaulttimeout = (\<lambda>w. None),
     e_gettimeout = (\<lambda>s w. Some 0),
     e_setblocking = (\<lambda>s b w. w),
     e_inet_pton6 = (\<lambda>s. if s = ''::'' then Some (replicate 16 0) else None),
     e_inet_ntop6 = (\<lambda>b. ''::'')\<rparr>"

lemma sim_words: "k \<le> 4 \<Longrightarrow> sint (word_of_nat k :: 32 word) = int k"
proof -
  assume "k \<le> 4"
  then have "k \<in> {0, 1, 2, 3, 4}" by auto
  then show ?thesis by auto
qed

lemma sim_take_ready: "k \<le> sim_ready w \<Longrightarrow> sim_ready (sim_take k w) = sim_ready w - k"
  by (auto simp: sim_ready_def sim_take_def min_def)

lemma sim_submit_law:
  assumes "sim_submit w = (r, w')"
  shows "if sint r < 0 then sim_ready w' = sim_ready w else int (sim_ready w') = int (sim_ready w) - sint r"
proof -
  have le: "sim_ready w \<le> 4" for w by (simp add: sim_ready_def)
  show ?thesis
  proof (cases "sm_script w")
    case Nil
    then show ?thesis using assms le [of w] sim_words [of "sim_ready w"]
      by (auto simp: sim_submit_def sim_take_ready)
  next
    case (Cons x xs)
    show ?thesis
    proof (cases "sint x < 0")
      case True
      then show ?thesis using assms Cons by (auto simp: sim_submit_def sim_ready_def)
    next
      case False
      let ?v = "w\<lparr>sm_script := xs\<rparr>" and ?k = "min (nat (sint x)) (sim_ready w)"
      have v: "sim_ready ?v = sim_ready w" by (simp add: sim_ready_def)
      have k: "?k \<le> sim_ready ?v" "?k \<le> 4" using le [of w] by (auto simp: v)
      have "r = word_of_nat ?k" "w' = sim_take ?k ?v"
        using assms Cons False by (auto simp: sim_submit_def Let_def)
      then show ?thesis using sim_words [OF k(2)] sim_take_ready [OF k(1)] k v by simp
    qed
  qed
qed

lemma sim_laws: "sq_laws sim_env 4"
  unfolding sq_laws_def sq_frame_laws_def
proof (intro conjI allI impI)
  fix w :: sim and r w' assume "e_submit sim_env w = (r, w')"
  then show "if sint r < 0 then e_sq_ready sim_env w' = e_sq_ready sim_env w
      else int (e_sq_ready sim_env w') = int (e_sq_ready sim_env w) - sint r"
    using sim_submit_law [of w r w'] by (simp add: sim_env_def)
qed (auto simp: sim_env_def sim_ready_def sim_get_sqe_def)

lemma sim_budget: "eintr_budget sim_env (\<lambda>w. length (sm_script w))"
proof -
  have "sint (word_of_nat (sim_ready w) :: 32 word) = int (sim_ready w)" for w
    by (rule sim_words) (simp add: sim_ready_def)
  then show ?thesis
    by (auto simp: eintr_budget_def sim_env_def sim_submit_def sim_take_def Let_def split: list.splits if_splits)
qed

text \<open>A proactor on this world, and running computations on it.\<close>

definition sim_proactor :: "sim proactor" where
  "sim_proactor = (new_proactor sim0 (\<lambda>_. undefined))\<lparr>iouring := True\<rparr>"

lemma sim_init: "init_proactor sim_env 4 0 (new_proactor sim0 (\<lambda>_. undefined)) = Some (Inr (), sim_proactor)"
  by (simp add: init_proactor_def new_proactor_def sim_proactor_def io_uring_queue_init_def check_res_def py_defs
    sim_env_def)

definition sim_sock :: socket where
  "sim_sock = \<lparr>sock_id = 5, sock_family = AF_INET, sock_type = 1, sock_proto = 0\<rparr>"

definition sim_buf :: pybuf where
  "sim_buf = \<lparr>buf_cell = 100, buf_readonly = False, buf_nbytes = 8\<rparr>"

lemmas sim_defs = sim_env_def sim0_def sim_ready_def sim_get_sqe_def sim_take_def sim_submit_def sim_peek_def
  sim_proactor_def sim_sock_def sim_buf_def

end
