(* ===== verification/Uring_Loop.thy ===== *)
theory Uring_Loop
  imports Uring_Safety
begin

text \<open>
  \<open>loop.py\<close>: what \<open>IoUringProactorEventLoop\<close> adds to the base classes of \<open>asyncio\<close>. Awaiting
  suspends the coroutine and lets other code run, so an awaited call is a parameter here: a
  computation that returns its result or raises. The methods of the base classes that the
  write pipe transport calls are the standard library's and are written out.
\<close>

section \<open>State\<close>

datatype callback =
    LoopSelfReading
  | ProcessExited nat int
  | CallConnectionLost "exn option"

record 'w evloop =
  el_proactor :: "'w proactor"
  el_self_reading :: "nat option"
  el_soon :: "callback list"
  el_closed :: bool

definition liftP :: "('w, 'a) pr \<Rightarrow> (('w, 'z) evloop_scheme, 'a) py" where
  "liftP m = zoomM el_proactor (\<lambda>p s. s\<lparr>el_proactor := p\<rparr>) m"

definition liftL :: "('w, 'a) py \<Rightarrow> (('w, 'z) evloop_scheme, 'a) py" where
  "liftL m = liftP (liftW m)"

definition call_soon :: "callback \<Rightarrow> (('w, 'z) evloop_scheme, unit) py" where
  "call_soon c = modM (\<lambda>s. s\<lparr>el_soon := el_soon s @ [c]\<rparr>)"

definition assertM :: "bool \<Rightarrow> ('s, unit) py" where
  "assertM b = (if b then ret () else raise AssertionError)"

lemma wp_assertM [wp_rules]: "wp nt (assertM b) s Q X = (if b then Q () s else X AssertionError s)"
  by (simp add: assertM_def wp_ret wp_raise)

lemma wp_liftP [wp_rules]:
  "wp nt (liftP m) s Q X =
     wp nt m (el_proactor s) (\<lambda>x p. Q x (s\<lparr>el_proactor := p\<rparr>)) (\<lambda>e p. X e (s\<lparr>el_proactor := p\<rparr>))"
  by (simp add: liftP_def wp_zoomM)

lemma wp_liftL [wp_rules]: "wp nt (liftL m) s Q X = wp nt (liftP (liftW m)) s Q X"
  by (simp add: liftL_def)

section \<open>Construction\<close>

text \<open>
  \<open>__init__\<close>, with the proactor to use or a default one that is made here; \<open>base\<close> stands for
  the method of the base class, here and below. The loop counts as closed until the base class
  has initialised it.
\<close>

definition loop_init ::
  "'w env \<Rightarrow> (nat \<Rightarrow> BaseOperation) \<Rightarrow> (('w, 'z) evloop_scheme, unit) py \<Rightarrow> 'w proactor option \<Rightarrow>
   (('w, 'z) evloop_scheme, unit) py" where
  "loop_init E junk base arg =
     thenM (modM (\<lambda>s. s\<lparr>el_closed := True\<rparr>))
       (thenM (case arg of
            None \<Rightarrow> thenM (modM (\<lambda>s. s\<lparr>el_proactor := new_proactor (world (el_proactor s)) junk\<rparr>))
              (liftP (init_proactor E DEFAULT_ENTRIES 0))
          | Some p \<Rightarrow> modM (\<lambda>s. s\<lparr>el_proactor := p\<rparr>))
         base)"

text \<open>
  The base class of the policy: the Unix policy while it exists, else whichever generic name
  there is; the last lookup has no default.
\<close>

definition default_policy :: "'c option \<Rightarrow> 'c option \<Rightarrow> 'c option \<Rightarrow> exn + 'c" where
  "default_policy unix_policy generic private_generic =
     (case unix_policy of Some c \<Rightarrow> Inr c
      | None \<Rightarrow> (case generic of Some c \<Rightarrow> Inr c
        | None \<Rightarrow> (case private_generic of Some c \<Rightarrow> Inr c
          | None \<Rightarrow> Inl (AttributeError ''_BaseDefaultEventLoopPolicy''))))"

section \<open>Running\<close>

definition run_forever_setup :: "(('w, 'z) evloop_scheme, unit) py \<Rightarrow> (('w, 'z) evloop_scheme, unit) py" where
  "run_forever_setup base =
     readM (\<lambda>s. thenM (assertM (el_self_reading s = None)) (thenM (call_soon LoopSelfReading) base))"

definition run_forever_cleanup ::
  "'w env \<Rightarrow> (('w, 'z) evloop_scheme, unit) py \<Rightarrow> (('w, 'z) evloop_scheme, unit) py" where
  "run_forever_cleanup E base = thenM base (readM (\<lambda>s. case el_self_reading s of
       None \<Rightarrow> ret ()
     | Some f \<Rightarrow> bindM (liftP (fut_cancel E f)) (\<lambda>_. modM (\<lambda>s. s\<lparr>el_self_reading := None\<rparr>))))"

section \<open>Sending everything\<close>

text \<open>\<open>view[sent:]\<close>, which counts a negative bound from the end.\<close>

definition slice_from :: "int \<Rightarrow> 'a list \<Rightarrow> 'a list" where
  "slice_from k xs = (if 0 \<le> k then drop (nat k) xs else drop (nat (int (length xs) + k)) xs)"

partial_function (option) sock_sendall ::
  "(8 word list \<Rightarrow> ('s, int) py) \<Rightarrow> 8 word list \<Rightarrow> 's \<Rightarrow> ((exn + unit) \<times> 's) option" where
  "sock_sendall sender view s =
     (if view = [] then Some (Inr (), s)
      else case sender view s of
          None \<Rightarrow> None
        | Some (r, s1) \<Rightarrow> (case r of
            Inl e \<Rightarrow> Some (Inl e, s1)
          | Inr sent \<Rightarrow> sock_sendall sender (slice_from sent view) s1))"

section \<open>Unix sockets\<close>

datatype ssl_arg = SslNone | SslBool bool | SslContext

definition ssl_truthy :: "ssl_arg \<Rightarrow> bool" where
  "ssl_truthy a = (a = SslContext \<or> a = SslBool True)"

datatype hostname_arg = HostNone | HostStr string | HostOther

definition SOCK_STREAM :: int where
  "SOCK_STREAM = 1"

text \<open>The calls into the socket module, the operating system and the base classes of asyncio.\<close>

record 'w sysenv =
  l_socket :: "family \<Rightarrow> int \<Rightarrow> 'w \<Rightarrow> (exn + socket) \<times> 'w"
  l_setblocking :: "socket \<Rightarrow> bool \<Rightarrow> 'w \<Rightarrow> (exn + unit) \<times> 'w"
  l_sock_close :: "socket \<Rightarrow> 'w \<Rightarrow> (exn + unit) \<times> 'w"
  l_sock_connect :: "socket \<Rightarrow> pyAddress \<Rightarrow> 'w \<Rightarrow> (exn + unit) \<times> 'w"
  l_connection_transport :: "socket \<Rightarrow> ssl_arg \<Rightarrow> hostname_arg \<Rightarrow> 'w \<Rightarrow> (exn + nat \<times> nat) \<times> 'w"
  l_stat_issock :: "pyAddress \<Rightarrow> 'w \<Rightarrow> (exn + bool) \<times> 'w"
  l_remove :: "pyAddress \<Rightarrow> 'w \<Rightarrow> (exn + unit) \<times> 'w"
  l_bind :: "socket \<Rightarrow> pyAddress \<Rightarrow> 'w \<Rightarrow> (exn + unit) \<times> 'w"
  l_server :: "socket \<Rightarrow> ssl_arg \<Rightarrow> int \<Rightarrow> 'w \<Rightarrow> nat \<times> 'w"
  l_start_serving :: "nat \<Rightarrow> 'w \<Rightarrow> (exn + unit) \<times> 'w"
  l_sleep0 :: "'w \<Rightarrow> (exn + unit) \<times> 'w"
  l_pidfd_open :: "int \<Rightarrow> 'w \<Rightarrow> (exn + int) \<times> 'w"
  l_waitpid :: "int \<Rightarrow> 'w \<Rightarrow> (exn + int) \<times> 'w"
  l_log :: "'w \<Rightarrow> 'w"

text \<open>
  The argument checks of \<open>create_unix_connection\<close>: the first group is about \<open>ssl\<close>, in the
  order of the code.
\<close>

definition check_connection_ssl ::
  "ssl_arg \<Rightarrow> hostname_arg \<Rightarrow> rat option \<Rightarrow> rat option \<Rightarrow> exn + unit" where
  "check_connection_ssl ssl server_hostname ssl_handshake_timeout ssl_shutdown_timeout =
     (if server_hostname = HostOther then Inl AssertionError
      else if ssl_truthy ssl then
        (if server_hostname = HostNone
         then Inl (ValueError ''you have to pass server_hostname when using ssl'') else Inr ())
      else if server_hostname \<noteq> HostNone
        then Inl (ValueError ''server_hostname is only meaningful with ssl'')
      else if ssl_handshake_timeout \<noteq> None
        then Inl (ValueError ''ssl_handshake_timeout is only meaningful with ssl'')
      else if ssl_shutdown_timeout \<noteq> None
        then Inl (ValueError ''ssl_shutdown_timeout is only meaningful with ssl'')
      else Inr ())"

text \<open>\<open>os.fspath\<close> of a string or of bytes is the path itself; anything else is a \<open>TypeError\<close>.\<close>

definition fspath :: "pyAddress \<Rightarrow> exn + pyAddress" where
  "fspath p = (case p of AddrTuple h xs \<Rightarrow> Inl (TypeError ''fspath'') | _ \<Rightarrow> Inr p)"

definition check_unix_stream :: "socket \<Rightarrow> exn + unit" where
  "check_unix_stream s =
     (if sock_family s \<noteq> AF_UNIX \<or> sock_type s \<noteq> SOCK_STREAM
      then Inl (ValueError ''A UNIX Domain Stream Socket was expected'') else Inr ())"

definition create_unix_connection ::
  "'w sysenv \<Rightarrow> pyAddress option \<Rightarrow> ssl_arg \<Rightarrow> socket option \<Rightarrow> hostname_arg \<Rightarrow>
   rat option \<Rightarrow> rat option \<Rightarrow> ('w, nat \<times> nat) py" where
  "create_unix_connection L path ssl sock server_hostname ssl_handshake_timeout ssl_shutdown_timeout =
     thenM (ofE (check_connection_ssl ssl server_hostname ssl_handshake_timeout ssl_shutdown_timeout))
     (bindM (case path of
          Some p \<Rightarrow>
            if sock \<noteq> None
            then raise (ValueError ''path and sock can not be specified at the same time'')
            else bindM (ofE (fspath p)) (\<lambda>p.
              bindM (tryM (l_socket L AF_UNIX SOCK_STREAM)) (\<lambda>sk.
              catchM (thenM (tryM (l_setblocking L sk False))
                       (thenM (tryM (l_sock_connect L sk p)) (ret sk)))
                (\<lambda>e. thenM (tryM (l_sock_close L sk)) (raise e))))
        | None \<Rightarrow> (case sock of
            None \<Rightarrow> raise (ValueError ''no path and sock were specified'')
          | Some sk \<Rightarrow> thenM (ofE (check_unix_stream sk))
              (thenM (tryM (l_setblocking L sk False)) (ret sk))))
     (\<lambda>sk. tryM (l_connection_transport L sk ssl server_hostname)))"

definition path_bytes :: "pyAddress \<Rightarrow> 8 word list" where
  "path_bytes p = (case p of AddrStr b \<Rightarrow> b | AddrBytes b \<Rightarrow> b | AddrTuple h xs \<Rightarrow> [])"

text \<open>Removing a stale socket file: a missing file is fine, any other \<open>OSError\<close> is logged.\<close>

definition remove_stale :: "'w sysenv \<Rightarrow> pyAddress \<Rightarrow> ('w, unit) py" where
  "remove_stale L p =
     catchM (bindM (tryM (l_stat_issock L p)) (\<lambda>b. whenM b (tryM (l_remove L p))))
       (\<lambda>e. if e = OSError ENOENT then ret ()
            else if is_OSError e then modM (l_log L)
            else raise e)"

definition bind_path :: "'w sysenv \<Rightarrow> socket \<Rightarrow> pyAddress \<Rightarrow> ('w, unit) py" where
  "bind_path L sk p =
     catchM (tryM (l_bind L sk p))
       (\<lambda>e. thenM (tryM (l_sock_close L sk)) (raise e))"

text \<open>
  \<open>create_unix_server\<close>. The first element of an empty path is an \<open>IndexError\<close>, after the
  socket was made.
\<close>

definition create_unix_server ::
  "'w sysenv \<Rightarrow> pyAddress option \<Rightarrow> socket option \<Rightarrow> int \<Rightarrow> ssl_arg \<Rightarrow> rat option \<Rightarrow> rat option \<Rightarrow>
   bool \<Rightarrow> ('w, nat) py" where
  "create_unix_server L path sock backlog ssl ssl_handshake_timeout ssl_shutdown_timeout start_serving =
     (if (case ssl of SslBool b \<Rightarrow> True | _ \<Rightarrow> False)
        then raise (TypeError ''ssl argument must be an SSLContext or None'')
      else if ssl_handshake_timeout \<noteq> None \<and> \<not> ssl_truthy ssl
        then raise (ValueError ''ssl_handshake_timeout is only meaningful with ssl'')
      else if ssl_shutdown_timeout \<noteq> None \<and> \<not> ssl_truthy ssl
        then raise (ValueError ''ssl_shutdown_timeout is only meaningful with ssl'')
      else bindM (case path of
          Some p \<Rightarrow>
            if sock \<noteq> None
            then raise (ValueError ''path and sock can not be specified at the same time'')
            else bindM (ofE (fspath p)) (\<lambda>p.
              bindM (tryM (l_socket L AF_UNIX SOCK_STREAM)) (\<lambda>sk.
              thenM (case path_bytes p of
                       [] \<Rightarrow> raise IndexError
                     | b # bs \<Rightarrow> whenM (b \<noteq> 0) (remove_stale L p))
                (thenM (bind_path L sk p) (ret sk))))
        | None \<Rightarrow> (case sock of
            None \<Rightarrow> raise (ValueError ''path was not specified, and no sock specified'')
          | Some sk \<Rightarrow> thenM (ofE (check_unix_stream sk)) (ret sk)))
        (\<lambda>sk. thenM (tryM (l_setblocking L sk False))
          (bindM (actM (l_server L sk ssl backlog)) (\<lambda>server.
           thenM (whenM start_serving
               (thenM (tryM (l_start_serving L server)) (tryM (l_sleep0 L))))
             (ret server)))))"

section \<open>Child processes\<close>

text \<open>\<open>os.waitstatus_to_exitcode\<close>.\<close>

definition waitstatus_to_exitcode :: "int \<Rightarrow> exn + int" where
  "waitstatus_to_exitcode status =
     (if status mod 128 = 0 then Inr (status div 256 mod 256)
      else if status mod 128 < 127 then Inr (- (status mod 128))
      else Inl (ValueError ''process was stopped''))"

definition POLLIN :: int where "POLLIN = 1"
definition POLLERR :: int where "POLLERR = 8"
definition POLLHUP :: int where "POLLHUP = 16"

text \<open>
  \<open>_watch_child\<close> returns the descriptor and the future of its poll; \<open>child_exited\<close> is the
  callback it registers on that future. The inner \<open>None\<close> is the early return of a cancelled
  poll.
\<close>

definition watch_child :: "'w env \<Rightarrow> 'w sysenv \<Rightarrow> int \<Rightarrow> (('w, 'z) evloop_scheme, int \<times> nat) py" where
  "watch_child E L pid =
     bindM (liftL (tryM (l_pidfd_open L pid))) (\<lambda>pidfd.
     bindM (liftP (poll_add E (FdInt pidfd) POLLIN)) (\<lambda>fut. ret (pidfd, fut)))"

definition reap_child :: "'w sysenv \<Rightarrow> int \<Rightarrow> (('w, 'z) evloop_scheme, int) py" where
  "reap_child L pid =
     bindM (catchM (bindM (liftL (tryM (l_waitpid L pid))) (\<lambda>status. ret (Some status)))
         (\<lambda>e. if e = OSError ECHILD then thenM (liftL (modM (l_log L))) (ret None) else raise e))
       (\<lambda>st. case st of
          None \<Rightarrow> ret 255
        | Some status \<Rightarrow> ofE (waitstatus_to_exitcode status))"

definition child_exited ::
  "'w env \<Rightarrow> 'w sysenv \<Rightarrow> int \<Rightarrow> int \<Rightarrow> nat \<Rightarrow> nat \<Rightarrow> (('w, 'z) evloop_scheme, unit) py" where
  "child_exited E L pid pidfd transport fut =
     bindM (finallyM
         (readM (\<lambda>s. if fut_state (futs (el_proactor s) fut) = Cancelled then ret None
                     else bindM (reap_child L pid) (\<lambda>rc. ret (Some rc))))
         (liftL (tryM (e_close E pidfd))))
       (\<lambda>r. case r of None \<Rightarrow> ret () | Some rc \<Rightarrow> call_soon (ProcessExited transport rc))"

text \<open>
  The end of \<open>_make_subprocess_transport\<close>: when waiting for the process fails the transport
  is closed and waited for, unless the program is being interrupted.
\<close>

definition await_subprocess ::
  "('s, unit) py \<Rightarrow> ('s, unit) py \<Rightarrow> ('s, unit) py \<Rightarrow> 'a \<Rightarrow> ('s, 'a) py" where
  "await_subprocess waiter close_transp wait_transp transport =
     thenM (catchM waiter (\<lambda>e.
         if e = SystemExit \<or> e = KeyboardInterrupt then raise e
         else thenM close_transp (thenM wait_transp (raise e))))
       (ret transport)"

definition make_subprocess_transport ::
  "'w env \<Rightarrow> 'w sysenv \<Rightarrow> (('w, 'z) evloop_scheme, nat \<times> int) py \<Rightarrow> (('w, 'z) evloop_scheme, unit) py \<Rightarrow>
   (nat \<Rightarrow> (('w, 'z) evloop_scheme, unit) py) \<Rightarrow> (nat \<Rightarrow> (('w, 'z) evloop_scheme, unit) py) \<Rightarrow>
   (('w, 'z) evloop_scheme, nat) py" where
  "make_subprocess_transport E L new_transport waiter close_transp wait_transp =
     bindM new_transport (\<lambda>(transp, pid).
     bindM (watch_child E L pid) (\<lambda>_.
       await_subprocess waiter (close_transp transp) (wait_transp transp) transp))"

section \<open>Write pipes\<close>

text \<open>
  \<open>_IoUringWritePipeTransport\<close> over the fields of the asyncio base class that its methods
  and \<open>_pipe_closed\<close> use; \<open>tp_buffered\<close> is whether \<open>_buffer\<close> holds data.
\<close>

record 'w pipe_transport = "'w evloop" +
  tp_closing :: bool
  tp_read_fut :: "nat option"
  tp_write_fut :: "nat option"
  tp_buffered :: bool
  tp_conn_lost :: nat
  tp_called_connection_lost :: bool

definition tp_init :: "'w env \<Rightarrow> fileobj \<Rightarrow> (('w, 'z) pipe_transport_scheme, unit) py" where
  "tp_init E pipe =
     bindM (liftP (poll_add E pipe (POLLERR + POLLHUP))) (\<lambda>f. modM (\<lambda>s. s\<lparr>tp_read_fut := Some f\<rparr>))"

text \<open>
  \<open>_make_write_pipe_transport\<close>; the constructor of the asyncio base class, which makes the transport's
  fields on the loop, is the parameter \<open>base\<close>.
\<close>

definition make_write_pipe_transport ::
  "'w env \<Rightarrow> ('w evloop \<Rightarrow> 'w pipe_transport) \<Rightarrow> fileobj \<Rightarrow> 'w evloop \<Rightarrow> ((exn + unit) \<times> 'w pipe_transport) option" where
  "make_write_pipe_transport E base pipe s = tp_init E pipe (base s)"

lemma new_write_pipe_polls:
  "make_write_pipe_transport E base pipe s = Some (Inr (), t) \<Longrightarrow>
     \<exists>f. tp_read_fut t = Some f \<and>
       poll_add E pipe (POLLERR + POLLHUP) (el_proactor (base s)) = Some (Inr f, el_proactor t)"
  by (auto simp: make_write_pipe_transport_def tp_init_def liftP_def zoomM_def bindM_def modM_def
    split: option.splits sum.splits)

definition tp_cancel_read :: "'w env \<Rightarrow> (('w, 'z) pipe_transport_scheme, unit) py" where
  "tp_cancel_read E = readM (\<lambda>s. case tp_read_fut s of
       None \<Rightarrow> ret ()
     | Some f \<Rightarrow> bindM (liftP (fut_cancel E f)) (\<lambda>_. modM (\<lambda>s. s\<lparr>tp_read_fut := None\<rparr>)))"

definition tp_close :: "'w env \<Rightarrow> (('w, 'z) pipe_transport_scheme, unit) py" where
  "tp_close E = readM (\<lambda>s.
     if tp_closing s then ret ()
     else thenM (modM (\<lambda>s. s\<lparr>tp_closing := True, tp_conn_lost := Suc (tp_conn_lost s)\<rparr>))
       (thenM (whenM (\<not> tp_buffered s \<and> tp_write_fut s = None) (call_soon (CallConnectionLost None)))
         (tp_cancel_read E)))"

definition tp_force_close :: "'w env \<Rightarrow> exn \<Rightarrow> (('w, 'z) pipe_transport_scheme, unit) py" where
  "tp_force_close E e = readM (\<lambda>s.
     if tp_closing s \<and> tp_called_connection_lost s then ret ()
     else thenM (modM (\<lambda>s. s\<lparr>tp_closing := True, tp_conn_lost := Suc (tp_conn_lost s)\<rparr>))
       (thenM (case tp_write_fut s of
                 None \<Rightarrow> ret ()
               | Some f \<Rightarrow> bindM (liftP (fut_cancel E f)) (\<lambda>_. modM (\<lambda>s. s\<lparr>tp_write_fut := None\<rparr>)))
         (thenM (tp_cancel_read E)
           (thenM (modM (\<lambda>s. s\<lparr>tp_buffered := False\<rparr>)) (call_soon (CallConnectionLost (Some e)))))))"

text \<open>\<open>fut.result()\<close> of a poll: the events, or the exception the future holds.\<close>

definition poll_result :: "nat \<Rightarrow> (('w, 'z) evloop_scheme, int) py" where
  "poll_result f = readM (\<lambda>s. case fut_state (futs (el_proactor s) f) of
       Finished (Inr (VInt events)) \<Rightarrow> ret events
     | Finished (Inr v) \<Rightarrow> raise (TypeError ''unsupported operand'')
     | Finished (Inl e) \<Rightarrow> raise e
     | Cancelled \<Rightarrow> raise CancelledError
     | Pending \<Rightarrow> raise InvalidStateError)"

definition pipe_closed :: "'w env \<Rightarrow> nat \<Rightarrow> (('w, 'z) pipe_transport_scheme, unit) py" where
  "pipe_closed E f = readM (\<lambda>s.
     if fut_state (futs (el_proactor s) f) = Cancelled then ret ()
     else bindM (poll_result f) (\<lambda>events.
       thenM (assertM (events div POLLHUP mod 2 = 1 \<or> events div POLLERR mod 2 = 1))
         (if tp_closing s then assertM (tp_read_fut s = None)
          else thenM (assertM (tp_read_fut s = Some f))
            (thenM (modM (\<lambda>s. s\<lparr>tp_read_fut := None\<rparr>))
              (if tp_write_fut s \<noteq> None then tp_force_close E (OSError EPIPE) else tp_close E)))))"

section \<open>Laws of the loop methods\<close>

text \<open>What \<open>sock_sendall\<close> needs of a send: it moves a non-empty prefix of its view, or raises.\<close>

definition sends_prefix :: "(8 word list \<Rightarrow> ('s, int) py) \<Rightarrow> ('s \<Rightarrow> 8 word list) \<Rightarrow> bool" where
  "sends_prefix sender wire \<longleftrightarrow> (\<forall>view s. view \<noteq> [] \<longrightarrow>
     wp False (sender view) s
       (\<lambda>k t. 0 < k \<and> k \<le> int (length view) \<and> wire t = wire s @ take (nat k) view)
       (\<lambda>e t. wire t = wire s))"

lemma sendall_wire:
  assumes sender: "sends_prefix sender wire"
  shows "wp False (sock_sendall sender view) s (\<lambda>_ t. wire t = wire s @ view)
     (\<lambda>e t. \<exists>n < length view. wire t = wire s @ take n view)"
proof (induction view arbitrary: s rule: length_induct)
  case (1 view)
  show ?case
  proof (cases "view = []")
    case True
    then show ?thesis by (simp add: wp_def sock_sendall.simps)
  next
    case ne: False
    then have one: "wp False (sender view) s
        (\<lambda>k t. 0 < k \<and> k \<le> int (length view) \<and> wire t = wire s @ take (nat k) view) (\<lambda>e t. wire t = wire s)"
      using sender by (simp add: sends_prefix_def)
    obtain r t where run: "sender view s = Some (r, t)" using wp_total [OF one] by blast
    show ?thesis
    proof (cases r)
      case (Inl e)
      then have "wire t = wire s" using wp_Inl [OF one] run by simp
      then show ?thesis using ne run Inl
        by (simp add: wp_def sock_sendall.simps [of sender view])
    next
      case (Inr k)
      then have k: "0 < k" "k \<le> int (length view)" "wire t = wire s @ take (nat k) view"
        using wp_Inr [OF one] run by auto
      let ?v = "slice_from k view"
      have v: "?v = drop (nat k) view" using k(1) by (simp add: slice_from_def)
      have "length ?v < length view" using k ne by (simp add: v)
      then have rec: "wp False (sock_sendall sender ?v) t (\<lambda>_ u. wire u = wire t @ ?v)
          (\<lambda>e u. \<exists>n < length ?v. wire u = wire t @ take n ?v)"
        using 1 by blast
      have "wp False (sock_sendall sender ?v) t (\<lambda>_ u. wire u = wire s @ view)
          (\<lambda>e u. \<exists>n < length view. wire u = wire s @ take n view)"
      proof (rule wp_mono [OF rec])
        fix u assume "wire u = wire t @ ?v"
        then show "wire u = wire s @ view" by (simp add: k v)
      next
        fix u assume "\<exists>n < length ?v. wire u = wire t @ take n ?v"
        then obtain n where n: "n < length ?v" "wire u = wire t @ take n ?v" by blast
        then have "wire u = wire s @ take (nat k + n) view" by (simp add: k v take_add)
        moreover have "nat k + n < length view" using n(1) by (simp add: v)
        ultimately show "\<exists>n < length view. wire u = wire s @ take n view" by blast
      qed
      then show ?thesis
        using ne run Inr by (simp add: wp_def sock_sendall.simps [of sender view])
    qed
  qed
qed

lemma exitcode_exited: "0 \<le> c \<Longrightarrow> c < 256 \<Longrightarrow> waitstatus_to_exitcode (c * 256) = Inr c"
  by (simp add: waitstatus_to_exitcode_def)

lemma exitcode_signaled:
  "1 \<le> k \<Longrightarrow> k \<le> 126 \<Longrightarrow> waitstatus_to_exitcode (k + (if core then 128 else 0)) = Inr (- k)"
  by (simp add: waitstatus_to_exitcode_def)

definition exits :: "callback list \<Rightarrow> (nat \<times> int) list" where
  "exits cs = concat (map (\<lambda>c. case c of ProcessExited t rc \<Rightarrow> [(t, rc)] | _ \<Rightarrow> []) cs)"

lemma exits_append [simp]: "exits (cs @ ds) = exits cs @ exits ds"
  by (simp add: exits_def)

text \<open>
  Whatever happens to the child, its descriptor is closed as the last act on the world. The
  exit is reported once, and only where the wait succeeded.
\<close>

definition reaped :: "'w sysenv \<Rightarrow> int \<Rightarrow> 'w \<Rightarrow> (exn + int) \<times> 'w" where
  "reaped L pid w = (case l_waitpid L pid w of
       (Inr status, w1) \<Rightarrow> (waitstatus_to_exitcode status, w1)
     | (Inl e, w1) \<Rightarrow> if e = OSError ECHILD then (Inr 255, l_log L w1) else (Inl e, w1))"

lemma reap_child_run:
  "reap_child L pid s = (case reaped L pid (world (el_proactor s)) of
     (r, w) \<Rightarrow> Some (r, s\<lparr>el_proactor := (el_proactor s)\<lparr>world := w\<rparr>\<rparr>))"
  by (simp add: reap_child_def reaped_def liftL_def liftP_def py_defs split: prod.split sum.split)

lemma child_exited_run:
  "child_exited E L pid pidfd transport fut s =
     (let p = el_proactor s;
          (r, w1) = (if fut_state (futs p fut) = Cancelled then (Inr None, world p)
                     else case reaped L pid (world p) of (r, w) \<Rightarrow> (map_sum id Some r, w));
          (c, w2) = e_close E pidfd w1;
          t = s\<lparr>el_proactor := p\<lparr>world := w2\<rparr>\<rparr> in
      case c of
        Inl e \<Rightarrow> Some (Inl e, t)
      | Inr _ \<Rightarrow> (case r of
          Inl e \<Rightarrow> Some (Inl e, t)
        | Inr None \<Rightarrow> Some (Inr (), t)
        | Inr (Some rc) \<Rightarrow> Some (Inr (), t\<lparr>el_soon := el_soon s @ [ProcessExited transport rc]\<rparr>)))"
  by (auto simp: child_exited_def finallyM_def bindM_def readM_def ret_def reap_child_run Let_def liftL_def liftP_def
    liftW_def zoomM_def tryM_def call_soon_def modM_def split: prod.splits sum.splits)

section \<open>Laws of construction\<close>

text \<open>When the ring of the default proactor cannot be made, the loop stays closed and is not initialised.\<close>

lemma loop_init_failed:
  assumes "e_queue_init E 256 0 (world (el_proactor s)) = (r, w)" and "sint r < 0"
  shows "\<exists>t. loop_init E junk base None s = Some (Inl (OSError (- sint r)), t) \<and> el_closed t \<and>
    \<not> iouring (el_proactor t) \<and> el_soon t = el_soon s"
  using assms
  by (simp add: loop_init_def py_defs liftP_def init_proactor_def io_uring_queue_init_def check_res_def
    DEFAULT_ENTRIES_def new_proactor_def)

lemma loop_init_given:
  "loop_init E junk base (Some p) s = base (s\<lparr>el_closed := True, el_proactor := p\<rparr>)"
  by (simp add: loop_init_def py_defs split: option.splits sum.splits)

section \<open>Laws of subprocesses\<close>

text \<open>A subprocess whose start failed is closed and waited for before the error goes on.\<close>

lemma subprocess_failed:
  assumes "new_transport s = Some (Inr (tr, pid), s1)" and "watch_child E L pid s1 = Some (Inr c, s2)"
    and "waiter s2 = Some (Inl e, s3)" and "e \<noteq> SystemExit" and "e \<noteq> KeyboardInterrupt"
    and "close_transp tr s3 = Some (Inr (), s4)" and "wait_transp tr s4 = Some (Inr (), s5)"
  shows "make_subprocess_transport E L new_transport waiter close_transp wait_transp s = Some (Inl e, s5)"
  using assms by (simp add: make_subprocess_transport_def await_subprocess_def py_defs)

section \<open>Laws of the Unix socket methods\<close>

text \<open>What \<open>create_unix_connection\<close> does with a fresh socket, and the outcome of trying to connect it.\<close>

definition connect_attempt :: "'w sysenv \<Rightarrow> socket \<Rightarrow> pyAddress \<Rightarrow> 'w \<Rightarrow> (exn + unit) \<times> 'w" where
  "connect_attempt L sk p w = (case l_setblocking L sk False w of
       (Inl e, w1) \<Rightarrow> (Inl e, w1)
     | (Inr _, w1) \<Rightarrow> l_sock_connect L sk p w1)"

lemma connection_failed:
  assumes "check_connection_ssl ssl host hs sd = Inr ()" and "fspath p = Inr p"
    and "l_socket L AF_UNIX SOCK_STREAM w = (Inr sk, w1)"
    and "connect_attempt L sk p w1 = (Inl e, w2)" and "l_sock_close L sk w2 = (Inr (), w3)"
  shows "create_unix_connection L (Some p) ssl None host hs sd w = Some (Inl e, w3)"
  using assms
  by (auto simp: create_unix_connection_def connect_attempt_def py_defs split: prod.splits sum.splits)

lemma connection_valid:
  assumes "create_unix_connection L path ssl sock host hs sd w = Some (Inr r, t)"
  shows "(path = None) \<noteq> (sock = None) \<and> (ssl_truthy ssl \<longleftrightarrow> host \<noteq> HostNone) \<and> host \<noteq> HostOther \<and>
    (\<not> ssl_truthy ssl \<longrightarrow> hs = None \<and> sd = None) \<and>
    (\<forall>sk. sock = Some sk \<longrightarrow> sock_family sk = AF_UNIX \<and> sock_type sk = SOCK_STREAM)"
  using assms
  by (auto simp: create_unix_connection_def check_connection_ssl_def check_unix_stream_def bindM_Inr_iff thenM_def
    ofE_def raise_def split: option.splits if_splits)

lemma bind_failed:
  assumes "l_bind L sk p w = (Inl e, w1)" and "l_sock_close L sk w1 = (Inr (), w2)"
  shows "bind_path L sk p w = Some (Inl e, w2)"
  using assms by (simp add: bind_path_def py_defs)

lemma remove_stale_cases:
  "remove_stale L p w = (case l_stat_issock L p w of
     (Inr False, w1) \<Rightarrow> Some (Inr (), w1)
   | (Inr True, w1) \<Rightarrow> (case l_remove L p w1 of
         (Inr _, w2) \<Rightarrow> Some (Inr (), w2)
       | (Inl e, w2) \<Rightarrow> if e = OSError ENOENT then Some (Inr (), w2)
                       else if is_OSError e then Some (Inr (), l_log L w2) else Some (Inl e, w2))
   | (Inl e, w1) \<Rightarrow> if e = OSError ENOENT then Some (Inr (), w1)
                   else if is_OSError e then Some (Inr (), l_log L w1) else Some (Inl e, w1))"
  by (auto simp: remove_stale_def py_defs split: prod.splits sum.splits bool.splits)

lemma server_bind_failed:
  assumes ssl: "\<And>b. ssl \<noteq> SslBool b" and to: "ssl = SslNone \<longrightarrow> hs = None \<and> sd = None"
    and p: "fspath p = Inr p" "path_bytes p = b # bs"
    and sk: "l_socket L AF_UNIX SOCK_STREAM w = (Inr sk, w1)"
    and stale: "(if b \<noteq> 0 then remove_stale L p w1 else Some (Inr (), w1)) = Some (Inr (), w2)"
    and bind: "l_bind L sk p w2 = (Inl e, w3)" and close: "l_sock_close L sk w3 = (Inr (), w4)"
  shows "create_unix_server L (Some p) None backlog ssl hs sd serving w = Some (Inl e, w4)"
proof -
  have s: "(case ssl of SslBool b \<Rightarrow> True | _ \<Rightarrow> False) = False" "hs = None \<or> ssl_truthy ssl" "sd = None \<or> ssl_truthy ssl"
    using ssl to by (cases ssl; auto simp: ssl_truthy_def)+
  have w: "whenM (b \<noteq> 0) (remove_stale L p) w1 = Some (Inr (), w2)"
    using stale by (simp add: whenM_def ret_def split: if_splits)
  have b: "bind_path L sk p w2 = Some (Inl e, w4)" by (rule bind_failed [OF bind close])
  show ?thesis
    using s by (auto simp: create_unix_server_def p thenM_def bindM_def ofE_def tryM_def sk w b)
qed

text \<open>An empty path is refused only after the socket was made, and nothing closes it.\<close>

lemma server_empty_path:
  assumes "path_bytes p = []" and "fspath p = Inr p" and "l_socket L AF_UNIX SOCK_STREAM w = (Inr sk, w1)"
  shows "create_unix_server L (Some p) None backlog SslNone None None serving w = Some (Inl IndexError, w1)"
  using assms by (simp add: create_unix_server_def py_defs)

section \<open>Laws of the write pipe transport\<close>

lemma pipe_closed_hup:
  assumes "fut_state (futs (el_proactor s) f) = Finished (Inr (VInt ev))"
    and "ev div POLLHUP mod 2 = 1 \<or> ev div POLLERR mod 2 = 1"
    and "\<not> tp_closing s" and "tp_read_fut s = Some f" and "tp_write_fut s = None"
  shows "pipe_closed E f s = Some (Inr (), s\<lparr>tp_read_fut := None, tp_closing := True,
     tp_conn_lost := Suc (tp_conn_lost s),
     el_soon := el_soon s @ (if tp_buffered s then [] else [CallConnectionLost None])\<rparr>)"
  using assms
  by (auto simp: pipe_closed_def poll_result_def tp_close_def tp_cancel_read_def assertM_def call_soon_def py_defs)

lemma pipe_closed_broken:
  assumes "fut_state (futs (el_proactor s) f) = Finished (Inr (VInt ev))"
    and "ev div POLLHUP mod 2 = 1 \<or> ev div POLLERR mod 2 = 1"
    and "\<not> tp_closing s" and "tp_read_fut s = Some f" and "tp_write_fut s = Some g"
    and "fut_cancel E g (el_proactor s) = Some (Inr c, p)"
  shows "pipe_closed E f s = Some (Inr (), s\<lparr>el_proactor := p, tp_read_fut := None, tp_write_fut := None,
     tp_closing := True, tp_conn_lost := Suc (tp_conn_lost s), tp_buffered := False,
     el_soon := el_soon s @ [CallConnectionLost (Some (OSError EPIPE))]\<rparr>)"
  using assms
  by (auto simp: pipe_closed_def poll_result_def tp_force_close_def tp_cancel_read_def assertM_def call_soon_def
    liftP_def py_defs)

lemma pipe_closed_cancelled:
  "fut_state (futs (el_proactor s) f) = Cancelled \<Longrightarrow> pipe_closed E f s = Some (Inr (), s)"
  by (simp add: pipe_closed_def py_defs)

end
