(* ===== verification/Uring_Version.thy ===== *)
theory Uring_Version
  imports Uring_Sockaddr
begin

text \<open>
  The kernel check that importing the package runs (\<open>__init__.py\<close>): a release string is
  accepted when it starts with a version at or above 5.19. Versions are ordered as Python
  orders pairs of integers.
\<close>

datatype version = Version nat nat

instantiation version :: linorder
begin

definition less_eq_version :: "version \<Rightarrow> version \<Rightarrow> bool" where
  "less_eq_version a b = (case a of Version i j \<Rightarrow> case b of Version k l \<Rightarrow> i < k \<or> i = k \<and> j \<le> l)"

definition less_version :: "version \<Rightarrow> version \<Rightarrow> bool" where
  "less_version a b = (case a of Version i j \<Rightarrow> case b of Version k l \<Rightarrow> i < k \<or> i = k \<and> j < l)"

instance
  by standard (auto simp: less_eq_version_def less_version_def split: version.splits)

end

lemma version_le [simp]: "Version i j \<le> Version k l \<longleftrightarrow> i < k \<or> i = k \<and> j \<le> l"
  by (simp add: less_eq_version_def)

lemma version_less [simp]: "Version i j < Version k l \<longleftrightarrow> i < k \<or> i = k \<and> j < l"
  by (simp add: less_version_def)

definition MIN_KERNEL_VERSION :: version where
  "MIN_KERNEL_VERSION = Version 5 19"

text \<open>
  The regular expression \<open>(\d+)\.(\d+)\<close>, matched at the start; both groups are greedy, and
  \<open>int\<close> refuses more than 4300 digits.
\<close>

definition py_digit :: "char \<Rightarrow> bool" where
  "py_digit c = is_digit_of 10 c"

definition py_int :: "string \<Rightarrow> exn + nat" where
  "py_int ds = (if length ds > 4300 then Inl (ValueError ''Exceeds the limit for integer string conversion'')
     else Inr (fst (read_digits 10 0 ds)))"

definition match_release :: "string \<Rightarrow> (string \<times> string) option" where
  "match_release release =
     (let major = takeWhile py_digit release; rest = dropWhile py_digit release in
      case rest of
        c # rest' \<Rightarrow>
          (let minor = takeWhile py_digit rest' in
           if major \<noteq> [] \<and> c = CHR ''.'' \<and> minor \<noteq> [] then Some (major, minor) else None)
      | [] \<Rightarrow> None)"

definition check_kernel_version :: "string \<Rightarrow> string \<Rightarrow> exn + unit" where
  "check_kernel_version system release =
     (if system \<noteq> ''Linux'' then Inl (RuntimeError ''Only supported on Linux'')
      else case match_release release of
        None \<Rightarrow> Inl (RuntimeError ''Unable to parse Linux kernel version'')
      | Some (a, b) \<Rightarrow> (case py_int a of
          Inl e \<Rightarrow> Inl e
        | Inr major \<Rightarrow> (case py_int b of
            Inl e \<Rightarrow> Inl e
          | Inr minor \<Rightarrow>
              if Version major minor < MIN_KERNEL_VERSION
              then Inl (RuntimeError ''Linux kernel 5.19+ required'')
              else Inr ())))"

section \<open>Printed versions\<close>

lemma show_nat_digits: "\<forall>c \<in> set (show_nat n). py_digit c"
proof (induction n rule: show_nat.induct)
  case (1 n)
  then show ?case
    by (cases "n < 10") (auto simp: show_nat.simps [of n] py_digit_def)
qed

lemma show_nat_nonempty: "show_nat n \<noteq> []"
  using show_nat_Cons [of n] by auto

lemma py_int_show: "length (show_nat n) \<le> 4300 \<Longrightarrow> py_int (show_nat n) = Inr n"
  using read_digits_show [of 0 n "[]"] by (simp add: py_int_def)

lemma match_printed:
  assumes "rest = [] \<or> \<not> py_digit (hd rest)"
  shows "match_release (show_nat a @ CHR ''.'' # show_nat b @ rest) = Some (show_nat a, show_nat b)"
proof -
  have dot: "\<not> py_digit (CHR ''.'')" by (simp add: py_digit_def is_digit_of_def digit_val_def)
  have "takeWhile py_digit (show_nat a @ CHR ''.'' # xs) = show_nat a"
       "dropWhile py_digit (show_nat a @ CHR ''.'' # xs) = CHR ''.'' # xs" for xs
    using show_nat_digits [of a] dot by (simp_all add: takeWhile_append2 dropWhile_append2)
  moreover have "takeWhile py_digit (show_nat b @ rest) = show_nat b"
    using show_nat_digits [of b] assms
    by (cases rest) (simp_all add: takeWhile_append2)
  ultimately show ?thesis
    using show_nat_nonempty by (simp add: match_release_def Let_def)
qed

lemma check_printed:
  assumes "rest = [] \<or> \<not> py_digit (hd rest)" and "length (show_nat a) \<le> 4300" "length (show_nat b) \<le> 4300"
  shows "check_kernel_version ''Linux'' (show_nat a @ CHR ''.'' # show_nat b @ rest) =
    (if Version 5 19 \<le> Version a b then Inr () else Inl (RuntimeError ''Linux kernel 5.19+ required''))"
  using assms
  by (auto simp: check_kernel_version_def match_printed py_int_show MIN_KERNEL_VERSION_def)

end
