(* ===== verification/Uring_Build.thy ===== *)
theory Uring_Build
  imports Uring_Prelude "HOL-Library.Sublist"
begin

text \<open>
  \<open>setup.py\<close> and \<open>scripts/verify_wheel.py\<close>: building the vendored archive of \<open>liburing\<close> once and
  linking it into the extensions that need it, and checking that the extensions of an installed
  wheel do not load \<open>liburing\<close> dynamically. The file system, the compiler and the tools are the
  parameters of the records \<open>buildenv\<close> and \<open>wheelenv\<close>.
\<close>

section \<open>Building\<close>

text \<open>A path is the list of its components.\<close>

type_synonym path = "string list"

record extension =
  ext_name :: string
  extra_objects :: "path list option"
  ext_depends :: "path list option"
  include_dirs :: "path list option"

record 'w buildenv =
  b_build_temp :: "'w \<Rightarrow> path"
  b_exists :: "path \<Rightarrow> 'w \<Rightarrow> bool"
  b_rmtree :: "path \<Rightarrow> 'w \<Rightarrow> (exn + unit) \<times> 'w"
  b_copytree :: "path \<Rightarrow> path \<Rightarrow> string list \<Rightarrow> 'w \<Rightarrow> (exn + unit) \<times> 'w"
  b_environ :: "'w \<Rightarrow> string \<rightharpoonup> string"
  b_run :: "string list \<Rightarrow> path \<Rightarrow> (string \<rightharpoonup> string) \<Rightarrow> 'w \<Rightarrow> (exn + unit) \<times> 'w"
  b_announce :: "string \<Rightarrow> 'w \<Rightarrow> 'w"

definition path_str :: "path \<Rightarrow> string" where
  "path_str p = concat (map (\<lambda>c. ''/'' @ c) p)"

definition LIBURING_EXTENSION_NAMES :: "string set" where
  "LIBURING_EXTENSION_NAMES = {''uringloop._liburing'', ''uringloop._uringcore''}"

definition ignored_patterns :: "string list" where
  "ignored_patterns = [''.git'', ''*.a'', ''*.d'', ''*.o'', ''*.ol'', ''*.os'', ''*.so'', ''*.so.*'',
     ''examples'', ''man'', ''test'']"

text \<open>\<open>str.strip\<close>, on blanks and control whitespace.\<close>

definition is_blank :: "char \<Rightarrow> bool" where
  "is_blank c = (c \<in> {CHR '' '', CHR 0x09, CHR 0x0A, CHR 0x0B, CHR 0x0C, CHR 0x0D})"

definition strip :: "string \<Rightarrow> string" where
  "strip s = rev (dropWhile is_blank (rev (dropWhile is_blank s)))"

text \<open>The environment of the build: \<open>CC\<close> only where it is not set, \<open>-fPIC\<close> after the flags given.\<close>

definition build_environment :: "string list option \<Rightarrow> (string \<rightharpoonup> string) \<Rightarrow> string \<rightharpoonup> string" where
  "build_environment compiler_command env =
     (let env1 = (case compiler_command of
            Some (c # cs) \<Rightarrow> if env ''CC'' = None then env(''CC'' \<mapsto> c) else env
          | _ \<Rightarrow> env);
          flags = (case env1 ''LIBURING_CFLAGS'' of None \<Rightarrow> [] | Some f \<Rightarrow> f) in
      env1(''LIBURING_CFLAGS'' \<mapsto> strip (flags @ '' -fPIC'')))"

definition build_vendored_liburing :: "'w buildenv \<Rightarrow> path \<Rightarrow> string list option \<Rightarrow> ('w, path) py" where
  "build_vendored_liburing B source_dir compiler_command =
     bindM (getM (\<lambda>w. b_build_temp B w @ [''vendored-liburing''])) (\<lambda>build_root.
     thenM (readM (\<lambda>w. whenM (b_exists B build_root w) (tryM (b_rmtree B build_root))))
     (thenM (modM (b_announce B (''copying vendored liburing sources to '' @ path_str build_root)))
     (thenM (tryM (b_copytree B source_dir build_root ignored_patterns))
     (bindM (getM (\<lambda>w. build_environment compiler_command (b_environ B w))) (\<lambda>environment.
     thenM (modM (b_announce B ''configuring vendored liburing''))
     (thenM (tryM (b_run B [''sh'', ''configure'', ''--use-libc''] build_root environment))
     (thenM (modM (b_announce B ''building vendored static liburing''))
     (thenM (tryM (b_run B [''make'', ''-C'', ''src'', ''liburing.a''] build_root environment))
       (ret (build_root @ [''src'', ''liburing.a'']))))))))))"

text \<open>\<open>x or []\<close> for a list that may be \<open>None\<close>.\<close>

definition or_empty :: "'a list option \<Rightarrow> 'a list" where
  "or_empty x = (case x of None \<Rightarrow> [] | Some xs \<Rightarrow> xs)"

definition link_archive :: "path \<Rightarrow> extension \<Rightarrow> extension" where
  "link_archive archive e = e\<lparr>extra_objects := Some (or_empty (extra_objects e) @ [archive]),
     ext_depends := Some (or_empty (ext_depends e) @ [archive]),
     include_dirs := Some [butlast archive @ [''include'']]\<rparr>"

definition needs_archive :: "extension \<Rightarrow> bool" where
  "needs_archive e = (ext_name e \<in> LIBURING_EXTENSION_NAMES)"

text \<open>\<open>base\<close> is the method of the base class, which builds the extensions it is left with.\<close>

definition build_extensions ::
  "'w buildenv \<Rightarrow> path \<Rightarrow> string list option \<Rightarrow> (extension list \<Rightarrow> ('w, unit) py) \<Rightarrow> extension list \<Rightarrow> ('w, unit) py" where
  "build_extensions B source_dir compiler_command base exts =
     (if filter needs_archive exts = [] then base exts
      else bindM (build_vendored_liburing B source_dir compiler_command) (\<lambda>archive.
        base (map (\<lambda>e. if needs_archive e then link_archive archive e else e) exts)))"

section \<open>Verifying a wheel\<close>

record 'w wheelenv =
  v_import :: "string \<Rightarrow> 'w \<Rightarrow> (exn + path option) \<times> 'w"
  v_which :: "string \<Rightarrow> 'w \<Rightarrow> path option"
  v_output :: "path \<Rightarrow> string \<Rightarrow> path \<Rightarrow> 'w \<Rightarrow> (exn + string) \<times> 'w"
  v_print :: "string \<Rightarrow> 'w \<Rightarrow> 'w"

definition EXTENSION_MODULES :: "string list" where
  "EXTENSION_MODULES = [''uringloop._liburing'', ''uringloop._uringcore'']"

definition dynamic_section :: "'w wheelenv \<Rightarrow> string \<Rightarrow> ('w, string) py" where
  "dynamic_section V module_name =
     bindM (tryM (v_import V module_name)) (\<lambda>module_file. case module_file of
       None \<Rightarrow> raise (RuntimeError (module_name @ '' does not have an extension module path''))
     | Some file \<Rightarrow> bindM (getM (v_which V ''readelf'')) (\<lambda>readelf. case readelf of
         None \<Rightarrow> raise (RuntimeError ''readelf is required to verify wheel dependencies'')
       | Some tool \<Rightarrow> tryM (v_output V tool ''-d'' file)))"

definition verify_module :: "'w wheelenv \<Rightarrow> string \<Rightarrow> ('w, unit) py" where
  "verify_module V module_name =
     bindM (dynamic_section V module_name) (\<lambda>dependencies.
       if sublist ''liburing.so'' dependencies
       then raise (RuntimeError (module_name @ '' dynamically links liburing''))
       else modM (v_print V (''verified '' @ module_name)))"

definition verify_wheel :: "'w wheelenv \<Rightarrow> ('w, unit) py" where
  "verify_wheel V = forM EXTENSION_MODULES (verify_module V)"

section \<open>Laws\<close>

text \<open>
  The extensions that need the archive get it, each once and after what they had; the others
  stay as they are; without such an extension nothing is built.
\<close>

lemma build_none:
  "\<forall>e \<in> set exts. \<not> needs_archive e \<Longrightarrow> build_extensions B src cc base exts = base exts"
  by (simp add: build_extensions_def filter_empty_conv)

lemma build_linked:
  assumes "build_vendored_liburing B src cc w = Some (Inr archive, w1)" and "e \<in> set exts" and "needs_archive e"
  shows "build_extensions B src cc base exts w =
    base (map (\<lambda>e. if needs_archive e then link_archive archive e else e) exts) w1"
  using assms by (auto simp: build_extensions_def bindM_def filter_empty_conv)

text \<open>When configuring fails, nothing is compiled and the base class does not run.\<close>

lemma build_configure_failed:
  assumes "\<not> b_exists B (b_build_temp B w @ [''vendored-liburing'']) w"
    and "b_copytree B src (b_build_temp B w @ [''vendored-liburing'']) ignored_patterns
      (b_announce B (''copying vendored liburing sources to '' @
        path_str (b_build_temp B w @ [''vendored-liburing''])) w) = (Inr (), w1)"
    and "b_run B [''sh'', ''configure'', ''--use-libc''] (b_build_temp B w @ [''vendored-liburing''])
      (build_environment cc (b_environ B w1)) (b_announce B ''configuring vendored liburing'' w1) = (Inl e, w2)"
    and "x \<in> set exts" and "needs_archive x"
  shows "build_extensions B src cc base exts w = Some (Inl e, w2)"
proof -
  have "filter needs_archive exts \<noteq> []" using assms(4,5) by (auto simp: filter_empty_conv)
  then show ?thesis
    using assms(1-3) by (simp add: build_extensions_def build_vendored_liburing_def py_defs)
qed

lemma environment_cc: "env ''CC'' = Some c \<Longrightarrow> build_environment cc env ''CC'' = Some c"
  by (auto simp: build_environment_def Let_def split: option.split list.split)

text \<open>The flags of the build end in \<open>-fPIC\<close>, whatever was set before.\<close>

lemma strip_flag: "\<exists>ys. strip (xs @ '' -fPIC'') = ys @ ''-fPIC''"
proof -
  have "\<exists>ys. dropWhile is_blank (xs @ '' -fPIC'') = ys @ ''-fPIC''"
  proof (cases "\<forall>c \<in> set xs. is_blank c")
    case True
    then have "dropWhile is_blank (xs @ '' -fPIC'') = ''-fPIC''"
      by (simp add: dropWhile_append2 is_blank_def)
    then show ?thesis by (intro exI [of _ "[]"]) simp
  next
    case False
    then have "dropWhile is_blank (xs @ '' -fPIC'') = (dropWhile is_blank xs @ '' '') @ ''-fPIC''"
      by (auto simp: dropWhile_append1)
    then show ?thesis by blast
  qed
  then obtain ys where "dropWhile is_blank (xs @ '' -fPIC'') = ys @ ''-fPIC''" by blast
  then have "strip (xs @ '' -fPIC'') = ys @ ''-fPIC''" by (simp add: strip_def is_blank_def)
  then show ?thesis by blast
qed

lemma environment_pic: "\<exists>ys. build_environment cc env ''LIBURING_CFLAGS'' = Some (ys @ ''-fPIC'')"
  using strip_flag by (simp add: build_environment_def Let_def)

lemma environment_others: "x \<notin> {''CC'', ''LIBURING_CFLAGS''} \<Longrightarrow> build_environment cc env x = env x"
  by (auto simp: build_environment_def Let_def split: option.split list.split)

text \<open>A build that returned ran both commands with the same environment, in this order.\<close>

lemma build_returned:
  assumes "build_vendored_liburing B src cc w = Some (Inr archive, t)"
  defines "dir \<equiv> b_build_temp B w @ [''vendored-liburing'']"
  shows "archive = dir @ [''src'', ''liburing.a''] \<and> (\<exists>w0 w1 w2.
    b_copytree B src dir ignored_patterns w0 = (Inr (), w1) \<and>
    (let env = build_environment cc (b_environ B w1) in
     b_run B [''sh'', ''configure'', ''--use-libc''] dir env (b_announce B ''configuring vendored liburing'' w1) = (Inr (), w2) \<and>
     b_run B [''make'', ''-C'', ''src'', ''liburing.a''] dir env (b_announce B ''building vendored static liburing'' w2) = (Inr (), t)))"
  using assms unfolding build_vendored_liburing_def
  by (auto simp: bindM_Inr_iff thenM_Inr_iff ret_Inr_iff tryM_def modM_def getM_def Let_def)

text \<open>The extensions handed to the base class: the named ones with the archive, the others as they were.\<close>

definition linked_to :: "path \<Rightarrow> extension \<Rightarrow> extension \<Rightarrow> bool" where
  "linked_to dir e e' \<longleftrightarrow> (if ext_name e \<in> LIBURING_EXTENSION_NAMES
     then e' = e\<lparr>extra_objects := Some (or_empty (extra_objects e) @ [dir @ [''src'', ''liburing.a'']]),
       ext_depends := Some (or_empty (ext_depends e) @ [dir @ [''src'', ''liburing.a'']]),
       include_dirs := Some [dir @ [''src'', ''include'']]\<rparr>
     else e' = e)"

lemma extensions_linked:
  assumes "build_extensions B src cc base exts w = Some (Inr (), t)" and "e \<in> set exts" and "needs_archive e"
  shows "\<exists>dir w1 exts'. dir = b_build_temp B w @ [''vendored-liburing''] \<and>
    build_vendored_liburing B src cc w = Some (Inr (dir @ [''src'', ''liburing.a'']), w1) \<and>
    base exts' w1 = Some (Inr (), t) \<and> list_all2 (linked_to dir) exts exts'"
proof -
  have "filter needs_archive exts \<noteq> []" using assms(2,3) by (auto simp: filter_empty_conv)
  then obtain archive w1 where run: "build_vendored_liburing B src cc w = Some (Inr archive, w1)"
      and b: "base (map (\<lambda>e. if needs_archive e then link_archive archive e else e) exts) w1 = Some (Inr (), t)"
    using assms(1) by (auto simp: build_extensions_def bindM_Inr_iff)
  let ?dir = "b_build_temp B w @ [''vendored-liburing'']"
  have ar: "archive = ?dir @ [''src'', ''liburing.a'']" using build_returned [OF run] by simp
  have "list_all2 (linked_to ?dir) exts (map (\<lambda>e. if needs_archive e then link_archive archive e else e) exts)"
    by (auto simp: list_all2_conv_all_nth linked_to_def needs_archive_def link_archive_def ar butlast_append)
  then show ?thesis using run b unfolding ar by blast
qed

text \<open>The wheel check returns only when the dynamic section of every extension was read and is clean.\<close>

definition clean_module :: "'w wheelenv \<Rightarrow> string \<Rightarrow> bool" where
  "clean_module V n \<longleftrightarrow> (\<exists>w w' deps. dynamic_section V n w = Some (Inr deps, w') \<and> \<not> sublist ''liburing.so'' deps)"

lemma verify_module_clean: "wp True (verify_module V n) w (\<lambda>_ _. clean_module V n) (\<lambda>_ _. True)"
  by (rule wpI) (auto simp: verify_module_def bindM_Inr_iff clean_module_def raise_def split: if_splits)

lemma verify_list_clean: "wp True (forM ns (verify_module V)) w (\<lambda>_ _. \<forall>n \<in> set ns. clean_module V n) (\<lambda>_ _. True)"
proof (induction ns arbitrary: w)
  case Nil
  then show ?case by (simp add: wp_ret)
next
  case (Cons n ns)
  then show ?case
    unfolding forM.simps wp_thenM by (intro wp_mono [OF verify_module_clean]) (auto intro: wp_mono)
qed

lemma verify_wheel_clean:
  "verify_wheel V w = Some (Inr (), t) \<Longrightarrow> \<forall>n \<in> set EXTENSION_MODULES. clean_module V n"
  unfolding verify_wheel_def by (erule wp_Inr [OF verify_list_clean])

end
