(* ===== verification/Uring_Runs.thy ===== *)
theory Uring_Runs
  imports Uring_Board Uring_Erase Uring_Written Uring_Fair Uring_Results Uring_World Uring_Loop Uring_Version Uring_Build
begin

text \<open>
  Runs of the model in the small world of \<open>Uring_World\<close>: a receive that has been started, a
  linked pair of splices that has been started, and what their completions do. The concrete
  instances of the properties start from these states.
\<close>

lemmas start_run = py_defs start_def next_user_data_def new_op_def new_future_def submit_def
  prep_def get_sqe_def prep_unfold io_uring_get_sqe_def io_uring_sqe_set_data64_def
  io_uring_sqe_set_flags_def sub_recv_def sub_splice_def sub_cancel_def sub_poll_add_def

lemmas complete_run = handle_cqe_def dict_pop_def mark_seen_at_def mark_seen_def op_defs
  is_stopped_def run_operation_def apply_settle_def set_fut_state_def fut_done_def

lemmas poll_run = select_def poll_def flush.simps io_uring_submit_def check_res_def
  wait_loop.simps ring_call_def io_uring_wait_cqe_def consume_def py_cqe_def
  io_uring_cqe_seen_def peek_loop.simps io_uring_peek_cqe_def

definition final :: "('s, 'a) py \<Rightarrow> 's \<Rightarrow> 's" where
  "final m s = snd (the (m s))"

definition sim_busy :: "sim proactor" where
  "sim_busy = final (recv_into sim_env (SockObj sim_sock) sim_buf 0) sim_proactor"

lemma recv_run: "recv_into sim_env (SockObj sim_sock) sim_buf 0 sim_proactor = Some (Inr 0, sim_busy)"
  by (simp add: sim_busy_def final_def recv_into_def start_run sim_defs new_proactor_def)

definition sim_pair :: "sim proactor" where
  "sim_pair = final (sendfile sim_env sim_sock (IOObj 3) 0 8) sim_proactor"

lemma sendfile_run: "sendfile sim_env sim_sock (IOObj 3) 0 8 sim_proactor = Some (Inr 0, sim_pair)"
  by (simp add: sim_pair_def final_def sendfile_def ensure_capacity_def io_uring_sq_space_left_def
    start_run sim_defs new_proactor_def)

lemma sim_reachable:
  "reachable sim_env sim_proactor" "reachable sim_env sim_busy" "reachable sim_env sim_pair"
  using reachable_init [OF sim_init]
  by (auto intro: reachable_step step_call [OF step_recv_into [OF recv_run]] step_call [OF step_sendfile [OF sendfile_run]])

lemma sim_counters:
  "user_data_counter sim_proactor = 1" "user_data_counter sim_busy = 2" "user_data_counter sim_pair = 3"
  by (simp_all add: sim_busy_def sim_pair_def final_def recv_into_def sendfile_def ensure_capacity_def
    io_uring_sq_space_left_def start_run sim_defs new_proactor_def)

lemma sim_inv: "proactor_inv sim_proactor" "proactor_inv sim_busy" "proactor_inv sim_pair"
  using reachable_inv [OF sim_reachable(1) sim_laws] reachable_inv [OF sim_reachable(2) sim_laws]
    reachable_inv [OF sim_reachable(3) sim_laws] by (simp_all add: sim_counters)

lemma sim_busy_cache:
  "cache sim_busy = [(1, \<lparr>pc_operation = 0, pc_future = Some 0, pc_request = RecvReq
     \<lparr>rcv_sock = sim_sock, rcv_buffer = sim_buf, rcv_flags = 0, rcv_buffer_cdata = Some 100\<rparr>\<rparr>)]"
  by (simp add: sim_busy_def final_def recv_into_def start_run sim_defs new_proactor_def)

definition sim_done :: "sim proactor" where
  "sim_done = final (select sim_env None) sim_busy"

lemma select_run: "select sim_env None sim_busy = Some (Inr [0], sim_done)"
  by (simp add: sim_done_def sim_busy_def final_def recv_into_def start_run sim_defs new_proactor_def poll_run
    complete_run Let_def)

lemma sim_done_facts:
  "fut_state (futs sim_done 0) = Finished (Inr (VInt 0))" "cache sim_done = []" "results sim_done = []"
  "next_fut sim_done = 1" "user_data_counter sim_done = 2" "iouring sim_done"
  by (simp_all add: sim_done_def sim_busy_def final_def recv_into_def start_run sim_defs new_proactor_def poll_run
    complete_run Let_def)

lemma sim_done_reachable: "reachable sim_env sim_done"
  by (rule reachable_step [OF sim_reachable(2) step_call [OF step_select [OF select_run]]])

lemma cancel_done_run: "fut_cancel sim_env 0 sim_done = Some (Inr False, sim_done)"
  by (simp add: sim_done_def sim_busy_def final_def recv_into_def start_run sim_defs new_proactor_def poll_run
    complete_run Let_def fut_cancel_def cancel_operation_def base_cancel_def)

definition sim_again :: "sim proactor" where
  "sim_again = final (recv_into sim_env (SockObj sim_sock) sim_buf 0) sim_done"

lemma recv_again_run: "recv_into sim_env (SockObj sim_sock) sim_buf 0 sim_done = Some (Inr 1, sim_again)"
  by (simp add: sim_again_def sim_done_def sim_busy_def final_def recv_into_def start_run sim_defs new_proactor_def
    poll_run complete_run Let_def)

lemma sim_again_counter: "user_data_counter sim_again = 3"
  by (simp add: sim_again_def sim_done_def sim_busy_def final_def recv_into_def start_run sim_defs new_proactor_def
    poll_run complete_run Let_def)

text \<open>The completion of the receive, successful, failed and unknown.\<close>

definition cqe_ok :: IoUringCqe where "cqe_ok = \<lparr>cqe_user_data = 1, cqe_res = 5\<rparr>"
definition cqe_failed :: IoUringCqe where "cqe_failed = \<lparr>cqe_user_data = 1, cqe_res = - 104\<rparr>"
definition cqe_unknown :: IoUringCqe where "cqe_unknown = \<lparr>cqe_user_data = 9, cqe_res = 0\<rparr>"

lemma sim_busy_op:
  "ops sim_busy 0 = RecvIntoOp \<lparr>user_data = 1, cqe_received = False, rciop_sock = sim_sock, rciop_buffer = sim_buf,
     rciop_flags = 0\<rparr>"
  "stopped_serving sim_busy = {}" "fut_state (futs sim_busy 0) = Pending" "next_fut sim_busy = 1"
  "next_op sim_busy = 1" "results sim_busy = []"
  by (simp_all add: sim_busy_def final_def recv_into_def start_run sim_defs new_proactor_def)

lemma handle_ok_run:
  "handle_cqe sim_env cqe_ok sim_busy = Some (Inr (), final (handle_cqe sim_env cqe_ok) sim_busy)"
  "user_data_counter (final (handle_cqe sim_env cqe_ok) sim_busy) = 2"
  by (simp_all add: cqe_ok_def sim_busy_def final_def recv_into_def start_run sim_defs new_proactor_def complete_run Let_def)

definition sim_mark :: BaseOperation where
  "sim_mark = RecvIntoOp \<lparr>user_data = 1, cqe_received = True, rciop_sock = sim_sock, rciop_buffer = sim_buf,
     rciop_flags = 0\<rparr>"

lemma mark_run: "mark_seen sim_env 1 (ops sim_busy 0, w) = Some (Inr (), (sim_mark, w))"
  by (simp add: sim_busy_op mark_seen_def op_defs sim_mark_def)

definition sim_cancelled :: "sim proactor" where
  "sim_cancelled = final (fut_cancel sim_env 0) sim_busy"

lemma cancel_run: "fut_cancel sim_env 0 sim_busy = Some (Inr True, sim_cancelled)"
  by (simp add: sim_cancelled_def sim_busy_def final_def recv_into_def start_run sim_defs new_proactor_def
    fut_cancel_def cancel_operation_def base_cancel_def op_defs fut_done_def)

lemma sim_cancelled_facts:
  "fut_state (futs sim_cancelled 0) = Cancelled" "ops sim_cancelled 0 = ops sim_busy 0"
  "stopped_serving sim_cancelled = {}" "user_data_counter sim_cancelled = 3" "next_op sim_cancelled = 1"
  "next_fut sim_cancelled = 1" "results sim_cancelled = []"
  "cache sim_cancelled = cache sim_busy @ [(2, \<lparr>pc_operation = 0, pc_future = None,
     pc_request = Cancel64Req \<lparr>can_user_data = 1, can_flags = 0\<rparr>\<rparr>)]"
  by (simp_all add: sim_cancelled_def sim_busy_def final_def recv_into_def start_run sim_defs new_proactor_def
    fut_cancel_def cancel_operation_def base_cancel_def op_defs fut_done_def)

lemma sim_cancelled_inv: "reachable sim_env sim_cancelled" "proactor_inv sim_cancelled"
proof -
  show r: "reachable sim_env sim_cancelled"
    by (rule reachable_step [OF sim_reachable(2) step_call [OF step_fut_cancel [OF _ cancel_run]]]) (simp add: sim_busy_op)
  show "proactor_inv sim_cancelled"
    using reachable_inv [OF r sim_laws] by (simp add: sim_cancelled_facts)
qed

text \<open>
  A queue with two entries whose submission is first interrupted, then partial; and one that is
  full.
\<close>

definition sim_queue :: "sim proactor" where
  "sim_queue = sim_proactor\<lparr>world := sim0\<lparr>sm_slots := [(0, 1), (1, 2)], sm_script := [- 4, 1, - 4]\<rparr>,
     pending_submit := True\<rparr>"

definition sim_full :: "sim proactor" where
  "sim_full = sim_proactor\<lparr>world := sim0\<lparr>sm_slots := [(0, 0), (1, 0), (2, 0), (3, 0)]\<rparr>\<rparr>"

text \<open>A fresh linked pair, its completions, and a wait that a signal interrupts once.\<close>

definition sim_pair_op :: SendfileOperation where
  "sim_pair_op = \<lparr>sfop_sock = sim_sock, sfop_file = IOObj 3, pipe_r = 10, pipe_w = 11, sfop_offset = 0,
     sfop_count = 8, f2p_user_data = 1, p2s_user_data = 2, f2p_done = False, p2s_done = False,
     pipes_closed = False\<rparr>"

definition cqe_first :: IoUringCqe where "cqe_first = \<lparr>cqe_user_data = 1, cqe_res = 8\<rparr>"
definition cqe_second :: IoUringCqe where "cqe_second = \<lparr>cqe_user_data = 2, cqe_res = 5\<rparr>"

lemma sim_pair_facts:
  "map (\<lambda>(ud, p). (ud, pc_operation p, pc_future p)) (cache sim_pair) = [(1, 0, Some 0), (2, 0, Some 0)]"
  "ops sim_pair 0 = SendfileOp sim_pair_op" "stopped_serving sim_pair = {}"
  "fut_state (futs sim_pair 0) = Pending" "results sim_pair = []" "sm_closed (world sim_pair) = []"
  by (simp_all add: sim_pair_def final_def sendfile_def ensure_capacity_def io_uring_sq_space_left_def
    start_run sim_defs new_proactor_def sim_pair_op_def)

lemma sim_pair_cache:
  obtains p1 p2 where "cache sim_pair = [(1, p1), (2, p2)]" "pc_operation p1 = 0" "pc_future p1 = Some 0"
    "pc_operation p2 = 0" "pc_future p2 = Some 0"
  using sim_pair_facts(1) by (auto simp: map_eq_Cons_conv)

text \<open>The pair after its future was cancelled: both splices are still to complete.\<close>

definition sim_pair_cancelled :: "sim proactor" where
  "sim_pair_cancelled = final (fut_cancel sim_env 0) sim_pair"

lemma pair_cancel_run: "fut_cancel sim_env 0 sim_pair = Some (Inr True, sim_pair_cancelled)"
  by (simp add: sim_pair_cancelled_def sim_pair_def final_def sendfile_def ensure_capacity_def io_uring_sq_space_left_def
    start_run sim_defs new_proactor_def fut_cancel_def cancel_operation_def base_cancel_def op_defs fut_done_def)

lemma sim_pair_cancelled_facts:
  "\<exists>c. cache sim_pair_cancelled = cache sim_pair @ [(3, c)]" "ops sim_pair_cancelled = ops sim_pair"
  "stopped_serving sim_pair_cancelled = {}" "fut_state (futs sim_pair_cancelled 0) = Cancelled"
  "results sim_pair_cancelled = []" "sm_closed (world sim_pair_cancelled) = []" "user_data_counter sim_pair_cancelled = 4"
  by (simp_all add: sim_pair_cancelled_def sim_pair_def final_def sendfile_def ensure_capacity_def io_uring_sq_space_left_def
    start_run sim_defs new_proactor_def fut_cancel_def cancel_operation_def base_cancel_def op_defs fut_done_def)

lemma sim_pair_cancelled_reachable: "reachable sim_env sim_pair_cancelled"
proof -
  have "0 < next_fut sim_pair"
    by (simp add: sim_pair_def final_def sendfile_def ensure_capacity_def io_uring_sq_space_left_def start_run sim_defs
      new_proactor_def)
  then show ?thesis by (rule reachable_step [OF sim_reachable(3) step_call [OF step_fut_cancel [OF _ pair_cancel_run]]])
qed

definition eintr_env :: "sim env" where
  "eintr_env = sim_env\<lparr>e_wait_cqe := (\<lambda>w. case sm_script w of
     [] \<Rightarrow> sim_peek (- 5) w | r # rs \<Rightarrow> ((- 4, \<lparr>c_user_data = 0, c_res = 0\<rparr>), w\<lparr>sm_script := rs\<rparr>))\<rparr>"

lemma eintr_wait:
  "e_wait_cqe eintr_env w = (c, w') \<Longrightarrow> sint (fst c) = - EINTR \<Longrightarrow> length (sm_script w') < length (sm_script w)"
  by (auto simp: eintr_env_def sim_env_def sim_peek_def split: list.splits)

lemma close_run:
  "close sim_env sim_proactor = Some (Inr (), final (close sim_env) sim_proactor)"
  by (simp add: final_def close_def close_loop.simps sim_defs new_proactor_def ring_call_def io_uring_queue_exit_def py_defs)

text \<open>A closed proactor still starts: the entry goes to the ring that was released.\<close>

lemma closed_still_starts:
  "\<exists>t. recv_into sim_env (SockObj sim_sock) sim_buf 0 (final (close sim_env) sim_proactor) = Some (Inr 0, t) \<and>
     \<not> iouring t \<and> map fst (cache t) = [1] \<and> e_sq_ready sim_env (world t) = 1"
  by (simp add: final_def close_def close_loop.simps recv_into_def start_run sim_defs new_proactor_def ring_call_def
    io_uring_queue_exit_def)

definition sim_stopped :: "sim proactor" where
  "sim_stopped = final (stop_serving sim_env (SockObj sim_sock)) sim_busy"

lemma stop_run: "stop_serving sim_env (SockObj sim_sock) sim_busy = Some (Inr (), sim_stopped)"
  by (simp add: sim_stopped_def sim_busy_def final_def recv_into_def start_run sim_defs new_proactor_def
    stop_serving_def stop_entry_def is_stopped_def fut_cancel_def cancel_operation_def base_cancel_def op_defs fut_done_def)

text \<open>
  The small world as a kernel that completes what it is given: due are the entries of the queue
  and the completions, in flight the numbers written in them.
\<close>

definition slot_tags :: "(nat \<times> int) list \<Rightarrow> int set" where
  "slot_tags es = (\<lambda>(q, ud). uint (word_of_int ud :: 64 word)) ` {x \<in> set es. snd x \<noteq> 0}"

definition sim_view :: "sim kernel_view" where
  "sim_view = \<lparr>kv_due = (\<lambda>w. sim_ready w + length (sm_cq w)),
     kv_live = (\<lambda>w. slot_tags (take 4 (sm_slots w)) \<union> (\<lambda>c. uint (c_user_data c)) ` set (sm_cq w)),
     kv_sent = (\<lambda>w. (\<lambda>c. uint (c_user_data c)) ` set (sm_cq w)),
     kv_blank = (\<lambda>q w. (q, 0) \<in> set (take 4 (sm_slots w))),
     kv_head = (\<lambda>c w. \<exists>cs. sm_cq w = c # cs),
     kv_patience = (\<lambda>w. 0)\<rparr>"

lemma complete_length: "length (complete es rs) = length es"
  by (induction es rs rule: complete.induct) simp_all

lemma complete_tags: "slot_tags es \<subseteq> (\<lambda>c. uint (c_user_data c)) ` set (complete es rs)"
  by (induction es rs rule: complete.induct) (auto simp: slot_tags_def)

lemma slot_tags_append: "slot_tags (xs @ ys) = slot_tags xs \<union> slot_tags ys"
  by (auto simp: slot_tags_def)

lemma sim_take_quiet:
  assumes "k \<le> sim_ready w"
  shows "quiet sim_view w (sim_take k w)"
proof -
  have k: "k \<le> 4" "k \<le> length (sm_slots w)" using assms by (simp_all add: sim_ready_def)
  have "take 4 (sm_slots w) = take k (sm_slots w) @ drop k (take 4 (sm_slots w))"
    using k by (metis append_take_drop_id min_absorb1 take_take)
  then have "slot_tags (take 4 (sm_slots w)) =
      slot_tags (take k (sm_slots w)) \<union> slot_tags (drop k (take 4 (sm_slots w)))"
    by (metis slot_tags_append)
  then show ?thesis
    using complete_tags [of "take k (sm_slots w)" "sm_res w"] k
    by (auto simp: quiet_def flight_def sim_view_def sim_take_def sim_ready_def complete_length)
qed

lemma sim_submit_quiet: "quiet sim_view w (snd (sim_submit w))"
proof (cases "sm_script w")
  case Nil
  then show ?thesis using sim_take_quiet [of "sim_ready w" w] by (simp add: sim_submit_def)
next
  case (Cons r rs)
  let ?v = "w\<lparr>sm_script := rs\<rparr>"
  have v: "quiet sim_view w ?v" by (simp add: quiet_def flight_def sim_view_def sim_ready_def)
  show ?thesis
  proof (cases "sint r < 0")
    case True
    then show ?thesis using Cons v by (simp add: sim_submit_def)
  next
    case False
    have "quiet sim_view ?v (sim_take (min (nat (sint r)) (sim_ready w)) ?v)"
      by (rule sim_take_quiet) (auto simp: sim_ready_def)
    then show ?thesis using Cons False quiet_trans [OF v] by (simp add: sim_submit_def Let_def)
  qed
qed

lemma sim_tag_quiet:
  fixes w :: sim
  assumes "(q, 0) \<in> set (take 4 (sm_slots w))" and "0 < d" and "d < 2 ^ 64"
  defines "w' \<equiv> w\<lparr>sm_slots := map (\<lambda>(p, ud). (p, if p = q \<and> ud = 0 then d else ud)) (sm_slots w)\<rparr>"
  shows "quiet sim_view w w' \<and> d \<in> kv_live sim_view w'"
proof -
  let ?f = "\<lambda>(p, ud). (p, if p = q \<and> ud = 0 then d else ud)" and ?es = "take 4 (sm_slots w)"
  have "slot_tags ?es \<subseteq> slot_tags (map ?f ?es)"
    by (force simp: slot_tags_def)
  moreover have "uint (word_of_int d :: 64 word) = d"
    using assms(2,3) by (simp add: uint_word_of_int)
  then have "d \<in> slot_tags (map ?f ?es)"
    using assms(1,2) by (force simp: slot_tags_def image_iff)
  ultimately show ?thesis
    by (auto simp: w'_def quiet_def flight_def sim_view_def sim_ready_def take_map)
qed

lemma sim_fair: "fair sim_env sim_view"
proof -
  have get: "(e_get_sqe sim_env w = (None, w') \<longrightarrow> quiet sim_view w w') \<and>
      (e_get_sqe sim_env w = (Some q, w') \<longrightarrow> flight sim_view w w' \<and> kv_blank sim_view q w')" for w w' q
    by (auto simp: sim_env_def sim_get_sqe_def sim_view_def quiet_def flight_def slot_tags_def)
  have sub: "quiet sim_view w (snd (e_submit sim_env w))" for w
    using sim_submit_quiet by (simp add: sim_env_def)
  have tag: "quiet sim_view w (e_set_data64 sim_env q d w) \<and> d \<in> kv_live sim_view (e_set_data64 sim_env q d w)"
    if "kv_blank sim_view q w" "0 < d" "d < 2 ^ 64" for q d w
    using sim_tag_quiet [of q w d] that by (simp add: sim_env_def sim_view_def)
  have "slot_tags (take 4 (sm_slots w)) = {}" if "sim_ready w = 0" for w
    using that by (cases "sm_slots w") (simp_all add: sim_ready_def slot_tags_def)
  then have sent: "kv_live sim_view w \<subseteq> kv_sent sim_view w" if "e_sq_ready sim_env w = 0" for w
    using that by (simp add: sim_env_def sim_view_def)
  have "entry_laws sim_env sim_view"
    unfolding entry_laws_def using get sub tag sent
    by (auto simp: sim_env_def sim_view_def quiet_def flight_def sim_ready_def)
  moreover have "still_laws sim_env sim_view"
    by (simp add: still_laws_def sim_env_def sim_view_def quiet_def flight_def sim_ready_def)
  moreover have "cq_laws sim_env sim_view"
    by (auto simp: cq_laws_def sim_env_def sim_view_def quiet_def flight_def sim_ready_def sim_peek_def
      slot_tags_def split: list.splits)
  ultimately show ?thesis
    using sim_laws sim_budget by (auto simp: fair_def kernel_laws_def)
qed

text \<open>A run with a call that raises after it took an entry of the queue.\<close>

definition sim_after :: "sim proactor" where
  "sim_after = final (recv_into sim_env (SockObj sim_sock) (sim_buf\<lparr>buf_readonly := True\<rparr>) 0) sim_busy"

lemma refused_run:
  "recv_into sim_env (SockObj sim_sock) (sim_buf\<lparr>buf_readonly := True\<rparr>) 0 sim_busy = Some (Inl BufferError, sim_after)"
  by (simp add: sim_after_def sim_busy_def final_def recv_into_def start_run sim_defs new_proactor_def)

lemma sim_after_facts:
  "map fst (cache sim_after) = [1]" "e_sq_ready sim_env (world sim_after) = 2" "iouring sim_after"
  "user_data_counter sim_after = 3"
  by (simp_all add: sim_after_def sim_busy_def final_def recv_into_def start_run sim_defs new_proactor_def)

lemma sim_after_served: "served sim_env sim_view sim_after"
  using served_call [OF served_call [OF served_init [OF sim_init] step_recv_into [OF recv_run]] step_recv_into [OF refused_run]] .

text \<open>
  A receive whose future is cancelled, with the record of what the kernel was given: the memory of the
  receive stays in the record until the kernel completes it.
\<close>

lemmas trace_run = traced_def on_world_def tells_def take_slot_def fill_slot_def tag_slot_def consume_slots_def report_def
  empty_trace_def live_def entry_of_def

definition sim_watched :: "sim observed" where
  "sim_watched = (new_proactor (sim0, empty_trace) (\<lambda>_. undefined))\<lparr>iouring := True\<rparr>"

lemma watched_init:
  "init_proactor (traced sim_env) 4 0 (new_proactor (sim0, empty_trace) (\<lambda>_. undefined)) = Some (Inr (), sim_watched)"
  by (simp add: init_proactor_def new_proactor_def sim_watched_def io_uring_queue_init_def check_res_def py_defs
    sim_env_def trace_run)

definition sim_lent :: "sim observed" where
  "sim_lent = final (recv_into (traced sim_env) (SockObj sim_sock) sim_buf 0) sim_watched"

lemma lent_run: "recv_into (traced sim_env) (SockObj sim_sock) sim_buf 0 sim_watched = Some (Inr 0, sim_lent)"
  by (simp add: sim_lent_def final_def recv_into_def start_run sim_defs new_proactor_def sim_watched_def trace_run)

definition sim_recalled :: "sim observed" where
  "sim_recalled = final (fut_cancel (traced sim_env) 0) sim_lent"

lemma recall_run: "fut_cancel (traced sim_env) 0 sim_lent = Some (Inr True, sim_recalled)"
  by (simp add: sim_recalled_def sim_lent_def final_def recv_into_def start_run sim_defs new_proactor_def sim_watched_def
    trace_run fut_cancel_def cancel_operation_def base_cancel_def op_defs fut_done_def)

lemma sim_recalled_facts:
  "live (ring sim_recalled) = [(1, {100}), (2, {})]" "\<not> rt_broken (ring sim_recalled)" "\<not> rt_stale (ring sim_recalled)"
  "fut_state (futs sim_recalled 0) = Cancelled" "unsubmitted sim_recalled = []" "iouring sim_recalled"
  "user_data_counter sim_recalled = 3" "map q_tag (rt_queue (ring sim_recalled)) = [Some 1, Some 2]"
  by (simp_all add: sim_recalled_def sim_lent_def final_def recv_into_def start_run sim_defs new_proactor_def sim_watched_def
    trace_run fut_cancel_def cancel_operation_def base_cancel_def op_defs fut_done_def)

lemma sim_lent_counter: "0 < next_fut sim_lent"
  by (simp add: sim_lent_def final_def recv_into_def start_run sim_defs new_proactor_def sim_watched_def trace_run)

lemma sim_recalled_observed: "observed_run sim_env sim_recalled"
  by (rule observed_call [OF observed_call [OF observed_init [OF watched_init] step_recv_into [OF lent_run]]
    step_fut_cancel [OF sim_lent_counter recall_run]])

lemma sim_recalled_tidy: "tidy_run sim_env sim_recalled"
  by (rule tidy_fut_cancel [OF tidy_start [OF tidy_init [OF watched_init] starting_recv_into lent_run] sim_lent_counter recall_run])

lemma lent_close_run:
  "\<exists>t. close (traced sim_env) sim_recalled = Some (Inr (), t) \<and> user_data_counter t = 3 \<and> live (ring t) = [] \<and>
     \<not> rt_broken (ring t) \<and> \<not> rt_stale (ring t) \<and> rt_done (ring t) = [2, 1]"
  by (simp add: sim_recalled_def sim_lent_def final_def recv_into_def start_run sim_defs new_proactor_def sim_watched_def
    trace_run fut_cancel_def cancel_operation_def base_cancel_def op_defs fut_done_def close_def close_entry_def close_loop.simps
    poll_run complete_run Let_def io_uring_queue_exit_def wait_timeout_def new_kernel_timespec_def io_uring_wait_cqe_timeout_def
    timeout_seconds_def timeout_nanoseconds_def)

text \<open>
  A preparation that fails after it took its entry: the next submission hands the kernel an entry
  that nobody wrote.
\<close>

definition late_env :: "sim env" where
  "late_env = sim_env\<lparr>e_peek_cqe := (\<lambda>w. ((- 11, \<lparr>c_user_data = 0, c_res = 0\<rparr>), w))\<rparr>"

definition sim_unwritten :: "sim observed" where
  "sim_unwritten = final (recv_into (traced late_env) (SockObj sim_sock) (sim_buf\<lparr>buf_readonly := True\<rparr>) 0)
     (final (recv_into (traced late_env) (SockObj sim_sock) sim_buf 0) sim_watched)"

lemma unwritten_submitted:
  "\<exists>t. select (traced late_env) (Some 0) sim_unwritten = Some (Inr [], t) \<and> rt_stale (ring t) \<and> \<not> rt_broken (ring t) \<and>
     map fst (cache t) = [1]"
  by (simp add: sim_unwritten_def late_env_def final_def recv_into_def start_run sim_defs new_proactor_def sim_watched_def
    trace_run poll_run complete_run Let_def)

text \<open>A system for the event loop: a connection that is refused, a path that is taken.\<close>

record sys =
  sy_open :: "nat list"
  sy_closed :: "nat list"

definition sim_sys :: "sys sysenv" where
  "sim_sys = \<lparr>
     l_socket = (\<lambda>fam ty w. (Inr \<lparr>sock_id = 7, sock_family = fam, sock_type = ty, sock_proto = 0\<rparr>, w\<lparr>sy_open := 7 # sy_open w\<rparr>)),
     l_setblocking = (\<lambda>s b w. (Inr (), w)),
     l_sock_close = (\<lambda>s w. (Inr (), w\<lparr>sy_closed := sock_id s # sy_closed w\<rparr>)),
     l_sock_connect = (\<lambda>s p w. (Inl (OSError 111), w)),
     l_connection_transport = (\<lambda>s ssl h w. (Inr (0, 1), w)),
     l_stat_issock = (\<lambda>p w. (Inl (OSError ENOENT), w)),
     l_remove = (\<lambda>p w. (Inr (), w)),
     l_bind = (\<lambda>s p w. (Inl (OSError EADDRINUSE), w)),
     l_server = (\<lambda>s ssl b w. (0, w)),
     l_start_serving = (\<lambda>n w. (Inr (), w)),
     l_sleep0 = (\<lambda>w. (Inr (), w)),
     l_pidfd_open = (\<lambda>pid w. (Inr 12, w)),
     l_waitpid = (\<lambda>pid w. (Inr 768, w)),
     l_log = (\<lambda>w. w)\<rparr>"

definition sys0 :: sys where
  "sys0 = \<lparr>sy_open = [], sy_closed = []\<rparr>"

definition proc_sys :: "sim sysenv" where
  "proc_sys = \<lparr>
     l_socket = (\<lambda>fam ty w. (Inl (OSError 24), w)), l_setblocking = (\<lambda>s b w. (Inr (), w)),
     l_sock_close = (\<lambda>s w. (Inr (), w)), l_sock_connect = (\<lambda>s p w. (Inr (), w)),
     l_connection_transport = (\<lambda>s ssl h w. (Inr (0, 1), w)), l_stat_issock = (\<lambda>p w. (Inr False, w)),
     l_remove = (\<lambda>p w. (Inr (), w)), l_bind = (\<lambda>s p w. (Inr (), w)), l_server = (\<lambda>s ssl b w. (0, w)),
     l_start_serving = (\<lambda>n w. (Inr (), w)), l_sleep0 = (\<lambda>w. (Inr (), w)), l_pidfd_open = (\<lambda>pid w. (Inr 12, w)),
     l_waitpid = (\<lambda>pid w. (Inr 768, w)), l_log = (\<lambda>w. w)\<rparr>"

text \<open>A build machine that records the commands it was given.\<close>

definition sim_build :: "string list list buildenv" where
  "sim_build = \<lparr>b_build_temp = (\<lambda>w. [''tmp'']), b_exists = (\<lambda>p w. False), b_rmtree = (\<lambda>p w. (Inr (), w)),
     b_copytree = (\<lambda>a b ig w. (Inr (), w)), b_environ = (\<lambda>w. [''LIBURING_CFLAGS'' \<mapsto> '' -O2'']),
     b_run = (\<lambda>c d env w. (Inr (), w @ [c])), b_announce = (\<lambda>s w. w)\<rparr>"

definition sim_ext :: extension where
  "sim_ext = \<lparr>ext_name = ''uringloop._uringcore'', extra_objects = None, ext_depends = None, include_dirs = None\<rparr>"

lemma build_run:
  "build_extensions sim_build [''libs''] None (\<lambda>_. ret ()) [sim_ext] [] =
     Some (Inr (), [[''sh'', ''configure'', ''--use-libc''], [''make'', ''-C'', ''src'', ''liburing.a'']])"
  by (simp add: build_extensions_def needs_archive_def LIBURING_EXTENSION_NAMES_def sim_ext_def sim_build_def
    build_vendored_liburing_def py_defs)

text \<open>A sender that takes at most three bytes of a view.\<close>

definition three_bytes :: "8 word list \<Rightarrow> (8 word list, int) py" where
  "three_bytes view = (\<lambda>wire. Some (Inr (int (min 3 (length view))), wire @ take 3 view))"

lemma three_bytes_ok: "sends_prefix three_bytes id"
  by (auto simp: sends_prefix_def three_bytes_def wp_def min_def)

definition sim_loop :: "sim evloop" where
  "sim_loop = \<lparr>el_proactor = sim_done, el_self_reading = None, el_soon = [], el_closed = False\<rparr>"

definition sim_pipe :: "sim pipe_transport" where
  "sim_pipe = evloop.extend \<lparr>el_proactor = sim_done\<lparr>futs := (\<lambda>_. \<lparr>fut_state = Finished (Inr (VInt 8)), fut_operation = 0\<rparr>)\<rparr>,
       el_self_reading = None, el_soon = [], el_closed = False\<rparr>
     (pipe_transport.fields False (Some 0) None False 0 False)"

end
