(* ===== verification/Spec2Isabelle.thy ===== *)
theory Spec2Isabelle
  imports Uring_Runs
begin

text \<open>
  uringloop: an asyncio event loop over Linux io_uring.

  The program. \<open>IoUringProactor\<close> (\<open>src/uringloop/proactor.py\<close>) starts kernel operations and
  reports their completions. A starting method takes a fresh \<open>user_data\<close> number, makes an
  operation object (\<open>operation.py\<close>), a request object (\<open>request.py\<close>) and a future, lets
  \<open>_ProactorSubmit\<close> take an entry of the submission queue and fill it through the wrappers of
  \<open>lib.py\<close>, and registers the three objects in a cache under the number. \<open>select\<close> flushes the
  prepared entries, waits, and hands every completion to \<open>_handle_cqe\<close>, which looks the number
  up, tells the operation, and settles the future. Cancelling a future submits one more entry
  that names the number of the operation. \<open>IoUringProactorEventLoop\<close> (\<open>loop.py\<close>) adds the
  methods that the asyncio base class leaves to the platform, and importing the package checks
  the kernel version (\<open>__init__.py\<close>).

  The theories, in the order of the code.

  \<^item> \<open>Uring_Prelude\<close>: exceptions as the datatype \<open>exn\<close>; a Python method as a computation
    \<open>('s, 'a) py\<close>, from a state to an exception or a value with a new state, or to \<open>None\<close> when
    it does not return; the rules \<open>wp_rules\<close> for weakest preconditions \<open>wp nt m s Q X\<close> (\<open>Q\<close> for a
    return, \<open>X\<close> for an exception, \<open>nt\<close> whether not returning is allowed); the locale
    \<open>step_relation\<close>, a frame logic for any reflexive and transitive relation on states; and the
    insertion-ordered dictionary as an association list.
  \<^item> \<open>Uring_Layout\<close>: the C types of the \<open>cdef\<close> as descriptions \<open>ctype\<close>, and the platform's rules for
    sizes, alignments and the places of members. \<open>sizeof\<close> in \<open>lib.py\<close> is computed from it.
  \<^item> \<open>Uring_Env\<close>: the structs and prototypes of \<open>_ffi_build.py\<close>, and the record \<open>env\<close> of the
    functions that are not in the repository (\<open>liburing\<close>, the kernel, \<open>os\<close>, \<open>socket\<close>). Its laws
    \<open>sq_laws\<close> and \<open>eintr_budget\<close> are hypotheses wherever they are used.
  \<^item> \<open>Uring_Request\<close>, \<open>Uring_Sockaddr\<close>, \<open>Uring_Lib\<close>: \<open>request.py\<close> and \<open>lib.py\<close>. The locale
    \<open>prep_interface\<close> is the contract of the eleven \<open>io_uring_prep_*\<close> wrappers, and \<open>pinning\<close> extends
    it by the request the wrapper returns: what it asks (\<open>unpinned\<close>) and what it pins. It is
    interpreted on each of them.
  \<^item> \<open>Uring_Operation\<close>: \<open>operation.py\<close>, one record per class and one function per abstract method.
    The locale \<open>operation_protocol\<close> says what the proactor relies on; it is interpreted on the
    union of all classes.
  \<^item> \<open>Uring_Submit\<close>: \<open>_ProactorSubmit\<close>. \<open>submitter\<close> has its fields and the shared cache; the
    locale \<open>submit_method\<close> is the contract of its preparing methods, \<open>requesting\<close> the same with the
    request that ends up in the list.
  \<^item> \<open>Uring_Proactor\<close>, \<open>Uring_Poll\<close>: \<open>_IoUringFuture\<close> and \<open>IoUringProactor\<close>. The record \<open>proactor\<close>
    extends the submitter by the proactor's fields and by stores of operations and futures, since
    both are mutable objects shared by reference.
  \<^item> \<open>Uring_Invariant\<close>, \<open>Uring_Safety\<close>: the invariant \<open>proactor_inv\<close>, the relation \<open>evolves\<close> between
    the states before and after any call, the inductive \<open>api_call\<close> over all public methods and the
    \<open>reachable\<close> states.
  \<^item> \<open>Uring_Behaviour\<close>: what each call does beyond that: starting (\<open>run_call\<close> over the datatype
    \<open>start_call\<close> of the single calls), completing, polling, cancelling, stopping, closing.
  \<^item> \<open>Uring_Agree\<close>, \<open>Uring_Results\<close>: the second invariant \<open>agreed\<close>, that a registered request asks for
    what its operation stands for; from it, the results of the single operations as the table
    \<open>delivered\<close> over the registered request, and the outcome of a linked pair.
  \<^item> \<open>Uring_Board\<close>: the abstract specification, a \<open>board\<close> of the numbers the kernel still has to
    answer, the states of the futures and the list to report, with its steps \<open>board_step\<close>; the
    abstraction \<open>board_of\<close> and the proof that every public method is a sequence of steps.
  \<^item> \<open>Uring_Progress\<close>, \<open>Uring_Fair\<close>: the laws \<open>fair\<close> of a kernel that completes what it was given,
    stated through a \<open>kernel_view\<close> of its world; \<open>close\<close> and timed polling end on every state in
    which each registered number is in flight (\<open>coupled\<close>), and every run of calls, returned or
    raised, over a kernel that loses no entry (\<open>served\<close>) leads to such states.
  \<^item> \<open>Uring_Trace\<close>, \<open>Uring_Memory\<close>, \<open>Uring_Erase\<close>: the memory the kernel holds. \<open>traced E\<close> is the world
    \<open>E\<close> with a record beside it of what its calls hand over: the slots in the queue with the memory and
    the number written into them, what the kernel holds, what it reported. The invariant \<open>guarded\<close>
    relates the record to the cache; every public method keeps it, and every run of the proactor is
    a run over \<open>traced E\<close> with its record erased (\<open>run_observed\<close>). \<open>Uring_Written\<close>: an entry can be left
    unwritten only by a starting call, or a direct cancellation, that raises (\<open>tidy_run\<close>).
  \<^item> \<open>Uring_Loop\<close>, \<open>Uring_Version\<close>: \<open>loop.py\<close> and \<open>__init__.py\<close>. \<open>Uring_Build\<close>: \<open>setup.py\<close> and
    \<open>scripts/verify_wheel.py\<close>.
  \<^item> \<open>Uring_World\<close>, \<open>Uring_Runs\<close>: a small world in which the model runs, which satisfies the laws
    above, and the runs the concrete instances of the properties use.

  The interfaces. A chain of locales carries what the public methods share: \<open>evolving\<close> (a
  reflexive and transitive relation between states), \<open>cancelling\<close> (the two parts of
  \<open>_IoUringFuture.cancel\<close> keep it), \<open>framed\<close> (so do the frames and the handling of one completion),
  \<open>operating\<close> (so do the calls of the ring; then polling, stopping and closing do), \<open>running\<close> (it does
  not look at the world, which gives \<open>operating\<close>), \<open>client\<close> (so do the starting methods); the lemma
  \<open>api_call_keeps\<close> of the last one covers every call. \<open>operating\<close> is interpreted on \<open>tidy\<close>
  (\<open>tidy_client\<close>), which does look at the world, and \<open>client\<close> on the relation \<open>evolves\<close> for the invariant
  (\<open>soundness\<close>), on \<open>refines\<close> for the board (\<open>board_client\<close>) and on \<open>agreeing\<close> for the agreement of
  requests and operations (\<open>agree_client\<close>). \<open>poller\<close> is the contract of the polling loops: what the ring
  calls and the handling of a completion that a ring call returned keep, every poll keeps; \<open>starter\<close> is
  the same for the methods that start one operation. Both hold of the relations \<open>guards\<close> of
  \<open>Uring_Memory\<close> and, over a lossless kernel, \<open>carries\<close> and \<open>couples\<close> of \<open>Uring_Fair\<close>, \<open>poller\<close> also of
  the relation of any \<open>operating\<close>.

  The properties. C1 to C16: the bookkeeping of the proactor is consistent in every reachable
  state, requests agree with operations, every call refines the board, done futures stay as they
  are, the memory the kernel may reach is owned by the registered request all along the run, nothing
  is handed to the kernel half written, every started operation is registered as it was asked for, no
  future is lost, closing ends and gives up a ring that reaches no memory, a completion settles
  exactly its own future with the value of the table, and a linked pair reports one result. C17 to
  C20: submission. C21 to C24: cancelling, stopping and the pipe of \<open>sendfile\<close>. C25 to C29: polling.
  C30 to C33: the layout of the C types and addresses. C34 to C39: the event loop and
  the version check. C40: the build. The last section has a few facts beside them.

  Bounds and hypotheses. The \<open>user_data\<close> counter is an unbounded Python integer but a 64-bit
  field of the entry, so the invariant is stated up to \<open>2 ^ 64\<close> (the wrapper raises
  \<open>OverflowError\<close> at that point). \<open>sq_laws E n\<close> states what the manual pages of \<open>liburing\<close> say of a
  queue of \<open>n\<close> entries, for every \<open>n\<close>; \<open>eintr_budget\<close> says that signals interrupt finitely often,
  and is assumed only where termination is claimed; \<open>kernel_laws\<close>, part of \<open>fair\<close>, says that an
  entry once tagged is answered under its tag, and that a timed wait on submitted entries times
  out only finitely often before a completion arrives. No fuel is used: loops that may run for
  ever (\<open>flush\<close>, the polling loops, \<open>close\<close>, \<open>sock_sendall\<close>) are partial functions with \<open>None\<close> for
  not returning; \<open>close\<close> ends because each turn lessens, in this order, the entries that wait for
  a completion, the completions that are due, a submission that is pending, and the patience of
  the kernel. The simulated world has a queue of four entries, enough for a linked pair and a
  partial submission, and enough to be filled by hand.

  Not modelled. Logging, \<open>repr\<close>, source tracebacks, the timing of the debug message in \<open>close\<close>,
  and the done callbacks that asyncio schedules for a future. The text form of IPv6
  addresses (\<open>e_inet_pton6\<close>, \<open>e_inet_ntop6\<close>) is a parameter. The timeout is an exact rational: the
  rounding of its fractional part times \<open>1e9\<close> is not modelled. The asyncio base classes are
  parameters of the methods of \<open>loop.py\<close> that call them, but for the closing of a write pipe
  transport, which is written out. The constants of the \<open>cdef\<close> and
  of \<open>lib.py\<close> have no values in the repository (\<open>#define NAME ...\<close>, filled in by the compiler); those
  the code tests or sets are parameters or have the values of the Linux headers, the others are
  left out, as are the C extension
  \<open>src/src/uringcore_liburing.c\<close>, which the package does not call yet, and the call of \<open>setup\<close>.

  What is left of the repository after this is configuration (the call of \<open>setup\<close>, the \<open>cffi\<close> builder,
  exports and aliases), constants without values, and prototypes whose only content is the
  parameter \<open>env\<close>.
\<close>

section \<open>The proactor\<close>

text \<open>
  C1. In every reachable state the bookkeeping of \<open>IoUringProactor\<close> is consistent: cache keys
  are distinct, were handed out by the counter, and lead to an operation the proactor made; an
  entry with a future belongs to that future's operation, which owns the key and has not yet
  seen its completion; no prepared entry is left unregistered.
\<close>

theorem reachable_consistent:
  assumes "sq_laws E n" and "reachable E s" and "user_data_counter s \<le> 2 ^ 64"
  shows "proactor_inv s \<and> distinct (map fst (cache s)) \<and> unsubmitted s = [] \<and>
    (\<forall>(ud, p) \<in> set (cache s). 1 \<le> ud \<and> ud < user_data_counter s \<and> pc_operation p < next_op s \<and>
       (\<forall>f. pc_future p = Some f \<longrightarrow> f < next_fut s \<and> fut_operation (futs s f) = pc_operation p \<and>
          ud \<in> op_tags (ops s (pc_operation p)) - op_seen (ops s (pc_operation p))))"
proof -
  have inv: "proactor_inv s" using reachable_inv [OF assms(2,1)] assms(3) by simp
  moreover have "1 \<le> ud \<and> ud < user_data_counter s \<and> pc_operation p < next_op s \<and>
       (\<forall>f. pc_future p = Some f \<longrightarrow> f < next_fut s \<and> fut_operation (futs s f) = pc_operation p \<and>
          ud \<in> op_tags (ops s (pc_operation p)) - op_seen (ops s (pc_operation p)))"
    if "(ud, p) \<in> set (cache s)" for ud p
    using that inv by (auto simp: proactor_inv_def entry_static_def entry_live_def dest!: cache_okD)
  ultimately show ?thesis by (auto simp: proactor_inv_def cache_ok_def)
qed

theorem reachable_consistent_witness:
  "sq_laws sim_env 4 \<and> reachable sim_env sim_busy \<and> proactor_inv sim_busy \<and> map fst (cache sim_busy) = [1]"
  using reachable_consistent [OF sim_laws sim_reachable(2)] sim_laws sim_reachable
  by (simp add: sim_counters sim_busy_cache)

text \<open>
  C2. In every reachable state the three objects behind a cache entry agree: the request
  of an entry with a future asks for exactly what its operation stands for (same descriptor,
  buffer, address, flags and sizes), its keep-alive fields are filled, and it owns the memory the
  operation's result will be read from; an entry without a future is a cancellation aimed at a
  number of its own operation.
\<close>

theorem requests_agree:
  assumes "sq_laws E n" and "reachable E s" and "user_data_counter s \<le> 2 ^ 64" and "(ud, p) \<in> set (cache s)"
  shows "let op = ops s (pc_operation p) in
    case pc_future p of
      Some f \<Rightarrow> unpinned (pc_request p) = request_for ud op \<and> pins_held (pc_request p) \<and>
        op_cells op \<subseteq> owned_cells (pc_request p)
    | None \<Rightarrow> \<exists>c. pc_request p = Cancel64Req c \<and> can_user_data c \<in> op_tags op"
proof -
  have ag: "agreed s" using reachable_agreed [OF assms(2,1)] assms(3) by simp
  show ?thesis
  proof (cases "pc_future p")
    case None
    then have "aimed_at (op_tags (ops s (pc_operation p))) (pc_request p)"
      using ag assms(4) by (auto simp: agreed_def entry_agreed_def)
    then show ?thesis using None by (auto simp: aimed_at_def Let_def split: KernelRequest.splits)
  next
    case (Some f)
    then have a: "asks (request_for ud (ops s (pc_operation p))) (pc_request p)" using entry_asks [OF ag assms(4)] by simp
    from asks_cells [OF a] a show ?thesis using Some by (simp add: asks_def request_for_unpinned Let_def)
  qed
qed

theorem requests_agree_witness:
  "\<exists>p. cache sim_busy = [(1, p)] \<and> unpinned (pc_request p) = request_for 1 (ops sim_busy 0) \<and>
     pins_held (pc_request p) \<and> 100 \<in> owned_cells (pc_request p)"
  using requests_agree [OF sim_laws sim_reachable(2), of 1]
  by (simp add: Let_def sim_counters sim_busy_cache sim_busy_op sim_buf_def)

text \<open>
  C3. Refinement: seen as a board of numbers to be answered, future states and futures to
  report, every reachable state is reached from the empty board by steps of the board and keeps
  its promises, and every further call, returned or raised, is a sequence of such steps.
\<close>

theorem calls_refine_board:
  assumes "sq_laws E n" and "reachable E s" and "user_data_counter s \<le> 2 ^ 64"
  shows "board_step\<^sup>*\<^sup>* empty_board (board_of s) \<and> board_ok (board_of s) \<and>
    (\<forall>t. api_step E s t \<longrightarrow> user_data_counter t \<le> 2 ^ 64 \<longrightarrow> board_step\<^sup>*\<^sup>* (board_of s) (board_of t))"
proof -
  have b: "board_step\<^sup>*\<^sup>* empty_board (board_of s)" by (rule reachable_board [OF assms(2,1,3)])
  moreover have "proactor_inv s" using reachable_inv [OF assms(2,1)] assms(3) by simp
  ultimately show ?thesis
    using board_steps_ok [OF b empty_board_ok] api_step_board [OF assms(1)] by blast
qed

theorem calls_refine_board_witness:
  "board_step\<^sup>*\<^sup>* empty_board (board_of sim_busy) \<and> b_pending (board_of sim_busy) = [(1, Some 0)] \<and>
   board_step\<^sup>*\<^sup>* (board_of sim_busy) (board_of sim_done) \<and> b_pending (board_of sim_done) = []"
proof -
  have "board_step\<^sup>*\<^sup>* empty_board (board_of sim_busy) \<and> board_step\<^sup>*\<^sup>* (board_of sim_busy) (board_of sim_done)"
    using calls_refine_board [OF sim_laws sim_reachable(2)] step_call [OF step_select [OF select_run]]
    by (simp add: sim_counters sim_done_facts)
  then show ?thesis by (simp add: board_of_def sim_busy_cache sim_done_facts)
qed





text \<open>
  C6. Keep-alive over a whole run: whatever calls were made, returned or raised, with futures
  cancelled, files stopped or the proactor closed meanwhile, the memory of every entry that is in
  the queue or with the kernel is owned by the request that the cache holds under the entry's
  number, or that the submitter holds to be registered; it is given up only when the kernel
  reported the number. What was handed over is the record that \<open>traced\<close> keeps beside the world,
  and every run has one (lemma \<open>run_observed\<close>). Excluded are a \<open>liburing\<close> that reports what it was
  not given, and the submission of an entry that a failed preparation left unwritten
  (\<open>unwritten_submitted\<close> is such a run).
\<close>

theorem memory_kept_alive:
  assumes "observed_run E s" and "\<not> rt_broken (ring s)" and "\<not> rt_stale (ring s)"
    and "(ud, cells) \<in> set (live (ring s))" and "cells \<noteq> {}"
  shows "(\<exists>p. map_of (cache s) ud = Some p \<and> cells \<subseteq> owned_cells (pc_request p)) \<or>
    (\<exists>r. (ud, r) \<in> set (unsubmitted s) \<and> cells \<subseteq> owned_cells r)"
  using observed_owned [OF assms(1) _ assms(4)] assms(2,3,5) by (simp add: bad_def kept_by_def)

theorem memory_kept_alive_witness:
  "fut_state (futs sim_recalled 0) = Cancelled \<and> live (ring sim_recalled) = [(1, {100}), (2, {})] \<and>
   (\<exists>p. map_of (cache sim_recalled) 1 = Some p \<and> 100 \<in> owned_cells (pc_request p))"
  using memory_kept_alive [OF sim_recalled_observed, of 1 "{100}"] by (simp add: sim_recalled_facts)



text \<open>
  C8. Handling a completion removes the cache entry with its \<open>user_data\<close> and no other; what
  stays keeps its place, and cancellations issued on the way come at the end. So the request
  of an operation, which pins the memory the kernel uses, is kept until its own completion.
\<close>

theorem completion_removes_own_entry:
  assumes "sq_laws E n" and "reachable E s" and "handle_cqe E cqe s = Some (r, t)"
    and "user_data_counter t \<le> 2 ^ 64"
  shows "\<exists>new. cache t = AList.delete (cqe_user_data cqe) (cache s) @ new"
proof -
  have c: "completes (cqe_user_data cqe) s t" by (rule wp_outcome [OF wp_handle_cqe assms(3)])
  then have "proactor_inv s"
    using reachable_inv [OF assms(2,1)] assms(4) by (auto simp: completes_def sound_step_def)
  then show ?thesis using c assms(4) by (simp add: completes_def)
qed

theorem completion_removes_own_entry_witness:
  "reachable sim_env sim_busy \<and> map fst (cache sim_busy) = [1] \<and>
   (\<exists>new. cache (final (handle_cqe sim_env cqe_ok) sim_busy) = AList.delete 1 (cache sim_busy) @ new)"
  using completion_removes_own_entry [OF sim_laws sim_reachable(2) handle_ok_run(1)] sim_reachable(2)
  by (simp add: handle_ok_run sim_busy_cache cqe_ok_def)



text \<open>
  C10. No future is lost: when handling the completion of an entry with a future returns, that
  future is done or another entry of the cache will still complete it.
\<close>

theorem completion_keeps_future:
  assumes "proactor_inv s" and "(cqe_user_data cqe, p) \<in> set (cache s)" and "pc_future p = Some f"
    and "handle_cqe E cqe s = Some (Inr (), t)"
  shows "fut_done (futs t f) \<or> (\<exists>u q. (u, q) \<in> set (cache t) \<and> pc_future q = Some f)"
  using wp_Inr [OF no_lost_future [OF assms(1-3)] assms(4)] .

theorem completion_keeps_future_witness:
  "\<exists>p. (1, p) \<in> set (cache sim_busy) \<and> pc_future p = Some 0 \<and>
     (fut_done (futs (final (handle_cqe sim_env cqe_ok) sim_busy) 0) \<or>
      (\<exists>u q. (u, q) \<in> set (cache (final (handle_cqe sim_env cqe_ok) sim_busy)) \<and> pc_future q = Some 0))"
  using completion_keeps_future [OF sim_inv(2) _ _ handle_ok_run(1), of _ 0]
  by (simp add: sim_busy_cache cqe_ok_def)

text \<open>
  C11. A completion of a single operation with a result that is not negative finishes its
  pending future with the value the table \<open>delivered\<close> gives for the registered request: the count,
  the received bytes, the peer address, the accepted socket. It reports the future, marks the
  operation and drops the entry, and changes nothing else. Where the table has no value (an address
  that cannot be parsed, a descriptor that cannot be wrapped) the exception is raised, and the
  future, whose entry is gone, stays pending.
\<close>

theorem completion_delivers:
  assumes "sq_laws E n" and "reachable E s" and "user_data_counter s \<le> 2 ^ 64"
    and "(cqe_user_data cqe, p) \<in> set (cache s)" and "pc_future p = Some f"
    and "\<not> is_pair (ops s (pc_operation p))" and "\<not> is_stopped s (get_file_obj (ops s (pc_operation p)))"
    and "fut_state (futs s f) = Pending" and "0 \<le> cqe_res cqe"
    and "delivered E (ops s (pc_operation p)) (pc_request p) (cqe_res cqe) (world s) = (v, w)"
  shows "\<exists>op'. op_tags op' = op_tags (ops s (pc_operation p)) \<and>
    op_seen op' = insert (cqe_user_data cqe) (op_seen (ops s (pc_operation p))) \<and> handle_cqe E cqe s =
    (let t = s\<lparr>cache := AList.delete (cqe_user_data cqe) (cache s), ops := (ops s)(pc_operation p := op'), world := w\<rparr> in
     case v of
       Inr x \<Rightarrow> Some (Inr (), t\<lparr>futs := (futs s)(f := (futs s f)\<lparr>fut_state := Finished (Inr x)\<rparr>),
         results := results s @ [f]\<rparr>)
     | Inl e \<Rightarrow> Some (Inl e, t))"
proof -
  have inv: "proactor_inv s" using reachable_inv [OF assms(2,1)] assms(3) by simp
  have ag: "agreed s" using reachable_agreed [OF assms(2,1)] assms(3) by simp
  obtain op' where "received s (cqe_user_data cqe) p op'" and "handle_cqe E cqe s = (case v of
      Inr x \<Rightarrow> Some (Inr (), settled (marked s (cqe_user_data cqe) p op' (world s)) f (Inr x) w)
    | Inl e \<Rightarrow> Some (Inl e, (marked s (cqe_user_data cqe) p op' (world s))\<lparr>world := w\<rparr>))"
    using handle_delivers [OF inv ag assms(4-10)] by blast
  then show ?thesis
    by (intro exI [of _ op']) (simp add: Let_def settled_def marked_def received_def split: sum.split)
qed

theorem completion_delivers_witness:
  "\<exists>t. handle_cqe sim_env cqe_ok sim_busy = Some (Inr (), t) \<and>
     fut_state (futs t 0) = Finished (Inr (VInt 5)) \<and> results t = [0] \<and> cache t = []"
  using completion_delivers [OF sim_laws sim_reachable(2), of cqe_ok _ 0 "Inr (VInt 5)" "world sim_busy"]
  by (auto simp: sim_counters sim_busy_cache sim_busy_op cqe_ok_def is_stopped_def Let_def)



text \<open>
  C13. When \<open>close\<close> returns, the ring is given up with nothing in it that reaches memory: after any
  run over a \<open>liburing\<close> that reports what it was given, no entry of the queue and nothing the kernel
  holds points to a cell.
\<close>

theorem close_holds_nothing:
  assumes "sq_laws E n" and "observed_run E s" and "iouring s" and "close (traced E) s = Some (Inr (), t)"
    and "user_data_counter t \<le> 2 ^ 64" and "\<not> rt_broken (ring t)" and "\<not> rt_stale (ring t)"
  shows "\<forall>(ud, cells) \<in> set (live (ring t)). cells = {}"
proof -
  have t: "observed_run E t" by (rule observed_call [OF assms(2) step_close [OF assms(4)]])
  have "unsubmitted t = []"
    using reachable_inv [OF observed_reachable [OF t] traced_laws [OF assms(1)]] assms(5) by (simp add: proactor_inv_def)
  moreover have "cache t = []" using wp_Inr [OF close_outcome assms(4)] assms(3) by simp
  ultimately show ?thesis using observed_owned [OF t] assms(6,7) by (auto simp: kept_by_def bad_def)
qed

theorem close_holds_nothing_witness:
  "live (ring sim_recalled) = [(1, {100}), (2, {})] \<and>
   (\<exists>t. close (traced sim_env) sim_recalled = Some (Inr (), t) \<and> rt_done (ring t) = [2, 1] \<and>
     (\<forall>(ud, cells) \<in> set (live (ring t)). cells = {}))"
proof -
  obtain t where t: "close (traced sim_env) sim_recalled = Some (Inr (), t)" "user_data_counter t = 3"
      "\<not> rt_broken (ring t)" "\<not> rt_stale (ring t)" "rt_done (ring t) = [2, 1]"
    using lent_close_run by blast
  then show ?thesis
    using close_holds_nothing [OF sim_laws sim_recalled_observed _ t(1)] by (simp add: sim_recalled_facts)
qed

text \<open>
  C14. A completion with a negative result finishes the pending future with the \<open>OSError\<close> of
  that number, whatever the operation.
\<close>

theorem completion_sets_error:
  assumes "proactor_inv s" and "(cqe_user_data cqe, p) \<in> set (cache s)" and "pc_future p = Some f"
    and "mark_seen E (cqe_user_data cqe) (ops s (pc_operation p), world s) = Some (Inr (), (op', w))"
    and "\<not> is_stopped s (get_file_obj op')" and "fut_state (futs s f) = Pending" and "cqe_res cqe < 0"
  shows "\<exists>t. handle_cqe E cqe s = Some (Inr (), t) \<and>
    fut_state (futs t f) = Finished (Inl (OSError (- cqe_res cqe))) \<and> results t = results s @ [f]"
proof -
  let ?t = "marked s (cqe_user_data cqe) p op' w" and ?e = "OSError (- cqe_res cqe)"
  have ns: "\<not> is_stopped ?t (get_file_obj op')"
    using assms(5) by (simp add: is_stopped_def marked_def split: fileobj.splits)
  have r: "run_operation E cqe (pc_operation p) f ?t =
      Some (Inr (), (set_fut_state f (Finished (Inl ?e)) (?t\<lparr>world := w\<rparr>))\<lparr>results := results ?t @ [f]\<rparr>)"
    by (rule run_settled [where v = VNone and a = "SetException ?e" and e = ?e])
      (use assms(6,7) in \<open>auto simp: marked_def fut_done_def operate_error\<close>)
  show ?thesis
    using handle_future [OF assms(1-4)] ns r by (simp add: marked_def set_fut_state_def)
qed

theorem completion_sets_error_witness:
  "\<exists>t. handle_cqe sim_env cqe_failed sim_busy = Some (Inr (), t) \<and>
     fut_state (futs t 0) = Finished (Inl (OSError 104)) \<and> results t = [0]"
  using completion_sets_error [OF sim_inv(2), of cqe_failed _ 0 sim_env sim_mark "world sim_busy"] mark_run
  by (simp add: cqe_failed_def sim_busy_cache sim_busy_op is_stopped_def sim_mark_def)



text \<open>
  C16. Both completions of a linked pair, in either order: a pending future is finished by the
  first error if that comes before the second splice's success, otherwise by what the second splice
  moved into the socket (never by what the first moved into the pipe), and is reported once; a
  future that is done, so one that was cancelled, stays as it is. Then both entries are gone, and
  the pipe is closed, with whatever was left in it.
\<close>

theorem pair_result:
  assumes "sq_laws E n" and "reachable E s" and "user_data_counter s \<le> 2 ^ 64"
    and "(cqe_user_data c1, p1) \<in> set (cache s)" and "(cqe_user_data c2, p2) \<in> set (cache s)"
    and "cqe_user_data c1 \<noteq> cqe_user_data c2" and "pc_future p1 = Some f" and "pc_future p2 = Some f"
    and "ops s (pc_operation p1) = SendfileOp op" and "\<not> is_stopped s (SockObj (sfop_sock op))"
    and "\<And>fd w. fst (e_close E fd w) = Inr ()"
  shows "\<exists>s1 t. handle_cqe E c1 s = Some (Inr (), s1) \<and> handle_cqe E c2 s1 = Some (Inr (), t) \<and>
    (fut_state (futs t f), results t) =
      (if fut_state (futs s f) = Pending then
         (Finished
           (if cqe_res c1 < 0 then Inl (OSError (- cqe_res c1))
            else if cqe_user_data c1 = p2s_user_data op then Inr (VInt (cqe_res c1))
            else if cqe_res c2 < 0 then Inl (OSError (- cqe_res c2))
            else Inr (VInt (cqe_res c2))), results s @ [f])
       else (fut_state (futs s f), results s)) \<and>
    cache t = AList.delete (cqe_user_data c2) (AList.delete (cqe_user_data c1) (cache s)) \<and>
    world t = snd (e_close E (pipe_w op) (snd (e_close E (pipe_r op) (world s))))"
proof -
  have "proactor_inv s" using reachable_inv [OF assms(2,1)] assms(3) by simp
  from pair_runs [OF this assms(3-11)] show ?thesis unfolding pair_outcome_def close_pipe_def .
qed

theorem pair_result_witness:
  "(\<exists>s1 t. handle_cqe sim_env cqe_first sim_pair = Some (Inr (), s1) \<and> handle_cqe sim_env cqe_second s1 = Some (Inr (), t) \<and>
     fut_state (futs t 0) = Finished (Inr (VInt 5)) \<and> results t = [0] \<and> cache t = [] \<and> sm_closed (world t) = [10, 11]) \<and>
   (\<exists>s1 t. handle_cqe sim_env cqe_first sim_pair_cancelled = Some (Inr (), s1) \<and> handle_cqe sim_env cqe_second s1 = Some (Inr (), t) \<and>
     fut_state (futs t 0) = Cancelled \<and> results t = [] \<and> map fst (cache t) = [3] \<and> sm_closed (world t) = [10, 11])"
proof -
  obtain p1 p2 where c: "cache sim_pair = [(1, p1), (2, p2)]" "pc_operation p1 = 0" "pc_future p1 = Some 0"
    "pc_operation p2 = 0" "pc_future p2 = Some 0" by (rule sim_pair_cache)
  obtain p3 where c3: "cache sim_pair_cancelled = [(1, p1), (2, p2), (3, p3)]"
    using sim_pair_cancelled_facts(1) by (auto simp: c)
  have close: "fst (e_close sim_env fd w) = Inr ()" for fd w by (simp add: sim_env_def)
  have pipe: "pipe_r sim_pair_op = 10" "pipe_w sim_pair_op = 11" "p2s_user_data sim_pair_op = 2"
    by (simp_all add: sim_pair_op_def)
  have "\<exists>s1 t. handle_cqe sim_env cqe_first sim_pair = Some (Inr (), s1) \<and> handle_cqe sim_env cqe_second s1 = Some (Inr (), t) \<and>
     fut_state (futs t 0) = Finished (Inr (VInt 5)) \<and> results t = [0] \<and> cache t = [] \<and> sm_closed (world t) = [10, 11]"
    using pair_result [OF sim_laws sim_reachable(3) _ _ _ _ _ _ _ _ close, of cqe_first p1 cqe_second p2 0 sim_pair_op]
    by (auto simp: c pipe sim_counters sim_pair_facts cqe_first_def cqe_second_def is_stopped_def)
      (auto simp: sim_env_def sim_pair_facts)
  moreover have "\<exists>s1 t. handle_cqe sim_env cqe_first sim_pair_cancelled = Some (Inr (), s1) \<and>
     handle_cqe sim_env cqe_second s1 = Some (Inr (), t) \<and>
     fut_state (futs t 0) = Cancelled \<and> results t = [] \<and> map fst (cache t) = [3] \<and> sm_closed (world t) = [10, 11]"
    using pair_result [OF sim_laws sim_pair_cancelled_reachable _ _ _ _ _ _ _ _ close, of cqe_first p1 cqe_second p2 0 sim_pair_op]
    by (auto simp: c c3 pipe sim_pair_cancelled_facts sim_pair_facts(2) cqe_first_def cqe_second_def is_stopped_def)
      (auto simp: sim_env_def sim_pair_cancelled_facts)
  ultimately show ?thesis by blast
qed

section \<open>Submission\<close>

text \<open>
  C17. When \<open>flush\<close> returns nothing is pending and, if something was, the submission queue is
  empty: a partial submission was continued, an interrupted one repeated. When it raises, the
  work is still pending, and the error is either the kernel's (never \<open>EINTR\<close>) or the report
  that entries are ready and none is taken. Neither touches the cache or the prepared entries.
\<close>

theorem flush_submits_all:
  "wp True (flush E) s
    (\<lambda>_ t. \<not> pending_submit t \<and> (pending_submit s \<longrightarrow> e_sq_ready E (world t) = 0) \<and>
       submits E (world s) (world t) \<and> cache t = cache s \<and> unsubmitted t = unsubmitted s)
    (\<lambda>e t. pending_submit t \<and> submits E (world s) (world t) \<and> cache t = cache s \<and> unsubmitted t = unsubmitted s \<and>
       ((\<exists>n. e = OSError n \<and> 0 < n \<and> n \<noteq> EINTR) \<or>
        e = RuntimeError ''io_uring made no progress submitting queued entries'' \<and> 0 < e_sq_ready E (world t)))"
  by (rule wp_mono [OF wp_flush]) (auto simp: flush_ok_def flush_bad_def dest: sub_frameD)

theorem flush_submits_all_witness:
  "\<exists>t. flush sim_env sim_queue = Some (Inr (), t) \<and> \<not> pending_submit t \<and> e_sq_ready sim_env (world t) = 0"
proof -
  obtain t where t: "flush sim_env sim_queue = Some (Inr (), t)"
    by (simp add: sim_queue_def sim_defs new_proactor_def flush.simps io_uring_submit_def check_res_def py_defs)
  have "pending_submit sim_queue" by (simp add: sim_queue_def)
  then show ?thesis using wp_Inr [OF flush_submits_all t] t by auto
qed

text \<open>
  C18. \<open>flush\<close> terminates: under the documented laws of the queue, and if signals interrupt
  finitely often, it returns or raises.
\<close>

theorem flush_terminates:
  assumes "sq_laws E n" and "eintr_budget E m"
  shows "\<exists>r t. flush E s = Some (r, t)"
  using flush_returns [OF assms] .

theorem flush_terminates_witness:
  "sq_laws sim_env 4 \<and> eintr_budget sim_env (\<lambda>w. length (sm_script w)) \<and> pending_submit sim_queue \<and>
   (\<exists>r t. flush sim_env sim_queue = Some (r, t))"
  using flush_terminates [OF sim_laws sim_budget, of sim_queue] sim_laws sim_budget by (simp add: sim_queue_def)

text \<open>
  C19. Every preparing method takes a slot of the submission queue whether it succeeds or
  raises after that; when it raises, nothing records the slot, and it stays in the queue with
  whatever it last held.
\<close>

theorem preparation_takes_slot:
  assumes "sq_laws E n" and "0 < e_sq_space_left E (world s)"
    and "m \<in> {sub_send E r1, sub_recv E r2, sub_write E r3, sub_read E r4, sub_accept E r5, sub_connect E r6,
      sub_poll_add E r7, sub_cancel E r8, sub_sendto E r9, sub_recvfrom E r10, sub_splice E r11}"
  shows "wp False (m ud flags) s
    (\<lambda>_ t. \<exists>r. unsubmitted t = unsubmitted s @ [(ud, r)] \<and> e_sq_ready E (world t) = Suc (e_sq_ready E (world s)))
    (\<lambda>_ t. unsubmitted t = unsubmitted s \<and> pending_submit t = pending_submit s \<and>
       e_sq_ready E (world t) = Suc (e_sq_ready E (world s)))"
proof -
  obtain p where p: "prep_interface E p" and m: "m = prep E p" using sub_prep [OF assms(3)] by blast
  have "0 < queue_room E s" using assms(2) by (simp add: queue_room_def)
  from prep_interface.prep_room [OF p assms(1) this, of ud flags] show ?thesis
    unfolding m by (rule wp_mono) auto
qed

theorem preparation_takes_slot_witness:
  "\<exists>t. sub_recv sim_env \<lparr>rcv_sock = sim_sock, rcv_buffer = sim_buf\<lparr>buf_readonly := True\<rparr>, rcv_flags = 0,
      rcv_buffer_cdata = None\<rparr> 1 0 sim_proactor = Some (Inl BufferError, t) \<and> unsubmitted t = [] \<and>
    e_sq_ready sim_env (world t) = 1"
proof -
  let ?r = "\<lparr>rcv_sock = sim_sock, rcv_buffer = sim_buf\<lparr>buf_readonly := True\<rparr>, rcv_flags = 0, rcv_buffer_cdata = None\<rparr>"
  obtain t where t: "sub_recv sim_env ?r 1 0 sim_proactor = Some (Inl BufferError, t)"
    by (simp add: start_run sim_defs new_proactor_def)
  have w: "0 < e_sq_space_left sim_env (world sim_proactor)" "e_sq_ready sim_env (world sim_proactor) = 0"
      "unsubmitted sim_proactor = []"
    by (simp_all add: sim_defs new_proactor_def)
  from wp_Inl [OF preparation_takes_slot [OF sim_laws w(1), of "sub_recv sim_env ?r" _ ?r] t] t w
  show ?thesis by auto
qed

text \<open>
  C20. When such slots have used up the queue while nothing is pending, every preparing method
  fails, and leaves the state as it was: only \<open>submit\<close> sets the pending flag, so the proactor
  cannot start anything any more.
\<close>

theorem leaked_queue_stuck:
  assumes "sq_laws E n" and "e_sq_space_left E (world s) = 0" and "\<not> pending_submit s"
    and "m \<in> {sub_send E r1, sub_recv E r2, sub_write E r3, sub_read E r4, sub_accept E r5, sub_connect E r6,
      sub_poll_add E r7, sub_cancel E r8, sub_sendto E r9, sub_recvfrom E r10, sub_splice E r11}"
  shows "m ud flags s = Some (Inl (RuntimeError ''io_uring submission queue is full''), s)"
proof -
  obtain p where m: "m = prep E p" using sub_prep [OF assms(4)] by blast
  show ?thesis
    unfolding m by (rule stuck_prep [OF assms(1) _ assms(3)]) (simp add: assms(2) queue_room_def)
qed

theorem leaked_queue_stuck_witness:
  "e_sq_space_left sim_env (world sim_full) = 0 \<and>
   sub_cancel sim_env \<lparr>can_user_data = 1, can_flags = 0\<rparr> 2 0 sim_full =
     Some (Inl (RuntimeError ''io_uring submission queue is full''), sim_full)"
proof -
  have w: "e_sq_space_left sim_env (world sim_full) = 0" "\<not> pending_submit sim_full"
    by (simp_all add: sim_full_def sim_defs new_proactor_def)
  have "sub_cancel sim_env \<lparr>can_user_data = 1, can_flags = 0\<rparr> 2 0 sim_full =
     Some (Inl (RuntimeError ''io_uring submission queue is full''), sim_full)"
    by (rule leaked_queue_stuck [OF sim_laws w]) (rule insertI1 | rule insertI2)+
  then show ?thesis using w by simp
qed

section \<open>Cancelling and linked pairs\<close>

text \<open>
  C21. Cancelling an operation with completions still to come registers one cancellation,
  aimed at a \<open>user_data\<close> of that operation that has not completed, under an id of its own and
  without a future; cancelling a complete operation does nothing. If the request cannot be
  prepared, the cache is as it was.
\<close>

theorem cancel_aims_at_unseen:
  assumes "proactor_inv s" and "opr < next_op s"
  shows "wp True (cancel_operation E opr flags) s
     (\<lambda>_ t. if op_tags (ops s opr) \<subseteq> op_seen (ops s opr) then t = s
            else \<exists>ud \<in> op_tags (ops s opr) - op_seen (ops s opr). cache t = cache s @
              [(user_data_counter s, \<lparr>pc_operation = opr, pc_future = None,
                 pc_request = Cancel64Req \<lparr>can_user_data = ud, can_flags = flags\<rparr>\<rparr>)])
     (\<lambda>_ t. cache t = cache s)"
  by (rule cancel_target [OF assms])

theorem cancel_aims_at_unseen_witness:
  "\<exists>t. cancel_operation sim_env 0 0 sim_busy = Some (Inr (), t) \<and> cache t = cache sim_busy @
     [(2, \<lparr>pc_operation = 0, pc_future = None, pc_request = Cancel64Req \<lparr>can_user_data = 1, can_flags = 0\<rparr>\<rparr>)]"
proof -
  obtain t where t: "cancel_operation sim_env 0 0 sim_busy = Some (Inr (), t)"
    by (simp add: sim_busy_def final_def recv_into_def start_run sim_defs new_proactor_def cancel_operation_def op_defs)
  have "0 < next_op sim_busy" by (simp add: sim_busy_op)
  from wp_Inr [OF cancel_aims_at_unseen [OF sim_inv(2) this] t] t show ?thesis
    by (simp add: sim_busy_op sim_counters single_tags_def single_seen_def)
qed

text \<open>
  C22. A future is cancelled at most once: after \<open>cancel\<close> returned it is done, and if it was
  this call that cancelled it, a second call returns False and changes nothing.
\<close>

theorem cancelled_once:
  "wp True (fut_cancel E f) s
    (\<lambda>b t. fut_done (futs t f) \<and> (b \<longrightarrow> fut_state (futs t f) = Cancelled \<and> fut_cancel E f t = Some (Inr False, t)))
    (\<lambda>_ _. True)"
proof -
  have "wp True m s (\<lambda>_ _. True) (\<lambda>_ _. True)" for m :: "('a, unit) pr" and s
    by (rule wpI) auto
  then have "wp True (fut_cancel E f) s (\<lambda>b t. fut_done (futs t f) \<and> (b \<longrightarrow> fut_state (futs t f) = Cancelled)) (\<lambda>_ _. True)"
    by (auto simp: fut_cancel_def wp_bindM wp_getM wp_thenM wp_whenM base_cancel_def wp_actM fut_done_def elim!: wp_mono)
  then show ?thesis by (rule wp_mono) (auto simp: cancel_twice)
qed

theorem cancelled_once_witness:
  "fut_cancel sim_env 0 sim_busy = Some (Inr True, sim_cancelled) \<and>
   fut_state (futs sim_cancelled 0) = Cancelled \<and>
   fut_cancel sim_env 0 sim_cancelled = Some (Inr False, sim_cancelled)"
  using wp_Inr [OF cancelled_once cancel_run] cancel_run by simp

text \<open>
  C23. \<open>_stop_serving\<close> on an object that can be weakly referenced: when it returns, the object is
  in the set, exactly the pending futures whose registered operation works on a stopped object
  are cancelled, and nothing was reported; when it raises, some of those futures are.
\<close>

theorem stopping_cancels:
  assumes "\<forall>n. obj \<noteq> FdInt n"
  shows "wp True (stop_serving E obj) s
    (\<lambda>_ t. stopped_serving t = insert obj (stopped_serving s) \<and> results t = results s \<and>
       (\<forall>f. futs t f = (if \<not> fut_done (futs s f) \<and> (\<exists>p \<in> snd ` set (cache s). pc_future p = Some f \<and>
                is_stopped t (get_file_obj (ops s (pc_operation p))))
              then (futs s f)\<lparr>fut_state := Cancelled\<rparr> else futs s f)))
    (\<lambda>_ t. results t = results s \<and> (\<forall>f. futs t f \<noteq> futs s f \<longrightarrow> \<not> fut_done (futs s f) \<and>
       fut_state (futs t f) = Cancelled \<and> (\<exists>p \<in> snd ` set (cache s). pc_future p = Some f)))"
proof (rule wp_mono [OF stop_serving_cancels [OF assms]], goal_cases)
  case (1 x t)
  then have "is_stopped t = is_stopped (s\<lparr>stopped_serving := insert obj (stopped_serving s)\<rparr>)"
    by (simp add: cancels_def is_stopped_def fun_eq_iff split: fileobj.split)
  then show ?case using 1 by (auto simp: cancels_def stop_targets_def)
next
  case (2 e t)
  then show ?case by (fastforce simp: cancels_def stop_targets_def split: if_splits)
qed

theorem stopping_cancels_witness:
  "stop_serving sim_env (SockObj sim_sock) sim_busy = Some (Inr (), sim_stopped) \<and>
   fut_state (futs sim_busy 0) = Pending \<and> fut_state (futs sim_stopped 0) = Cancelled"
  using wp_Inr [OF stopping_cancels stop_run] stop_run
  by (auto simp: sim_busy_op sim_busy_cache is_stopped_def fut_done_def)

text \<open>
  C24. The pipe of a linked pair is closed exactly once, both ends, as soon as both completions
  have been seen, whatever their order and however often they are repeated; before that it is
  not touched.
\<close>

theorem pipe_closed_once:
  assumes "\<And>fd w. fst (e_close E fd w) = Inr ()" and "f2p_user_data op \<noteq> p2s_user_data op"
    and "\<not> f2p_done op" and "\<not> p2s_done op" and "\<not> pipes_closed op"
    and "set us \<subseteq> {f2p_user_data op, p2s_user_data op}"
  shows "snd (mark_all E us (SendfileOp op, w)) =
    (if set us = {f2p_user_data op, p2s_user_data op}
     then snd (e_close E (pipe_w op) (snd (e_close E (pipe_r op) w))) else w)"
proof -
  have "snd (mark_all E us (SendfileOp op, w)) =
      (if f2p_user_data op \<in> set us \<and> p2s_user_data op \<in> set us then close_pipe E op w else w)"
    using assms(3-5) by (simp add: mark_all_pipe [OF assms(1,2,6)] Let_def)
  moreover have "f2p_user_data op \<in> set us \<and> p2s_user_data op \<in> set us \<longleftrightarrow>
      set us = {f2p_user_data op, p2s_user_data op}"
    using assms(6) by blast
  ultimately show ?thesis by (simp add: close_pipe_def)
qed

theorem pipe_closed_once_witness:
  "sm_closed (snd (mark_all sim_env [2, 1, 2] (SendfileOp sim_pair_op, sim0))) = [10, 11] \<and>
   sm_closed (snd (mark_all sim_env [2, 2] (SendfileOp sim_pair_op, sim0))) = []"
proof -
  have c: "fst (e_close sim_env fd w) = Inr ()" for fd w by (simp add: sim_env_def)
  note once = pipe_closed_once [of sim_env sim_pair_op, OF c]
  have "set [2, 1, 2 :: int] = {1, 2}" "set [2, 2 :: int] \<noteq> {1, 2}" by auto
  then show ?thesis
    using once [of "[2, 1, 2]" sim0] once [of "[2, 2]" sim0]
    by (simp add: sim_pair_op_def) (simp add: sim_env_def sim0_def)
qed

section \<open>Polling\<close>

text \<open>
  C25. A completion that belongs to no future, because its \<open>user_data\<close> is unknown or is that of a
  cancellation, settles nothing and raises nothing: the unknown one goes to the exception handler
  in debug mode only; a cancellation gives up its entry, and is reported to the handler if it
  failed, unless it came too late for an operation that is complete.
\<close>

theorem futureless_completion:
  assumes "proactor_inv s"
  shows "(cqe_user_data cqe \<notin> dict_keys (cache s) \<longrightarrow> handle_cqe E cqe s = Some (Inr (), if loop s = Some True
       then s\<lparr>handler_log := handler_log s @ [UnexpectedEvent (cqe_user_data cqe) (cqe_res cqe)]\<rparr> else s)) \<and>
    (\<forall>p. (cqe_user_data cqe, p) \<in> set (cache s) \<longrightarrow> pc_future p = None \<longrightarrow>
       handle_cqe E cqe s = Some (Inr (), s\<lparr>cache := AList.delete (cqe_user_data cqe) (cache s),
         handler_log := handler_log s @
           (if cqe_res cqe < 0 \<and> loop s \<noteq> None \<and> \<not> (cqe_res cqe = - ENOENT \<and> all_seen (ops s (pc_operation p)))
            then [CancelFailed (pc_operation p) (OSError (- cqe_res cqe))] else [])\<rparr>))"
  unfolding get_os_error_def [symmetric]
  by (intro conjI impI allI; (rule handle_unknown | rule handle_futureless [OF assms]); assumption)

theorem futureless_completion_witness:
  "handle_cqe sim_env cqe_unknown sim_cancelled = Some (Inr (), if loop sim_cancelled = Some True
     then sim_cancelled\<lparr>handler_log := handler_log sim_cancelled @ [UnexpectedEvent 9 0]\<rparr> else sim_cancelled) \<and>
   (\<exists>t. handle_cqe sim_env \<lparr>cqe_user_data = 2, cqe_res = - 2\<rparr> sim_cancelled = Some (Inr (), t) \<and> map fst (cache t) = [1])"
  using futureless_completion [OF sim_cancelled_inv(2), of cqe_unknown sim_env]
    futureless_completion [OF sim_cancelled_inv(2), of "\<lparr>cqe_user_data = 2, cqe_res = - 2\<rparr>" sim_env]
  by (simp add: sim_cancelled_facts sim_busy_cache cqe_unknown_def)






text \<open>
  C29. When the wait with a timeout ends with \<open>ETIME\<close> or is interrupted, \<open>_poll\<close> returns
  without handling anything.
\<close>

theorem poll_times_out:
  assumes "flush E s = Some (Inr (), u)" and "0 < t" and "timeout_seconds t \<le> 9223372036854775807"
    and "ring_call (io_uring_wait_cqe_timeout E
       \<lparr>tv_sec = timeout_seconds t, tv_nsec = timeout_nanoseconds t\<rparr>) u = Some (Inl (OSError n), v)"
    and "n = ETIME \<or> n = EINTR"
  shows "poll E (Some t) s = Some (Inr (), v)"
  by (rule poll_interrupted [OF assms])

theorem poll_times_out_witness:
  "poll sim_env (Some (1 / 2)) sim_proactor = Some (Inr (), sim_proactor)"
  by (rule poll_times_out [where n = ETIME and u = sim_proactor])
    (simp_all add: flush.simps ring_call_def io_uring_wait_cqe_timeout_def check_res_def py_defs sim_defs
      new_proactor_def timeout_seconds_def)

section \<open>Layout and addresses\<close>



text \<open>
  C31. IPv4 addresses round-trip: the text of any four bytes with a port in range becomes a
  socket address, and reading that address back gives the same text and port.
\<close>

theorem ipv4_address_roundtrip:
  assumes "length bs = 4" and "0 \<le> port" and "port \<le> 65535"
  shows "\<exists>sa. readable_sockaddr E AF_INET (AddrTuple (inet_ntop4 bs) [port]) = Inr sa \<and>
    parse_addr E AF_INET sa = Inr (AddrTuple (inet_ntop4 bs) [port])"
proof -
  obtain p where p: "htons port = Inr p" using assms(2,3) by (simp add: htons_def c_u16_def)
  show ?thesis
    using ipv4_roundtrip [OF assms(1) p, of new_sockaddr_ipv4] by (simp add: parse_addr_def)
qed

theorem ipv4_address_roundtrip_witness:
  "inet_ntop4 [127, 0, 0, 1] = ''127.0.0.1'' \<and>
   (\<exists>sa. readable_sockaddr sim_env AF_INET (AddrTuple ''127.0.0.1'' [8080]) = Inr sa \<and>
    parse_addr sim_env AF_INET sa = Inr (AddrTuple ''127.0.0.1'' [8080]))"
proof -
  have t: "inet_ntop4 [127, 0, 0, 1] = ''127.0.0.1''" by code_simp
  show ?thesis using ipv4_address_roundtrip [of "[127, 0, 0, 1]" 8080 sim_env] t by simp
qed

text \<open>
  C32. A Unix path without a zero byte that fits the 108 bytes of \<open>sun_path\<close> round-trips.
\<close>

theorem unix_address_roundtrip:
  assumes "length path \<le> 108" and "0 \<notin> set path"
  shows "\<exists>sa. readable_sockaddr E AF_UNIX (AddrBytes path) = Inr sa \<and>
    readable_sockaddr E AF_UNIX (AddrStr path) = Inr sa \<and> parse_addr E AF_UNIX sa = Inr (AddrBytes path)"
  using unix_roundtrip [OF assms] by (simp add: parse_addr_def)

theorem unix_address_roundtrip_witness:
  "\<exists>sa. readable_sockaddr sim_env AF_UNIX (AddrStr [47, 97]) = Inr sa \<and>
     parse_addr sim_env AF_UNIX sa = Inr (AddrBytes [47, 97])"
  using unix_address_roundtrip [of "[47, 97]" sim_env] by auto


section \<open>The event loop\<close>

text \<open>
  C34. \<open>sock_sendall\<close> over a sender that moves non-empty prefixes always ends: it returns with
  exactly the data on the wire, in order, or raises with a proper prefix of it there.
\<close>

theorem sendall_sends_all:
  assumes "sends_prefix sender wire"
  shows "wp False (sock_sendall sender view) s (\<lambda>_ t. wire t = wire s @ view)
     (\<lambda>e t. \<exists>n < length view. wire t = wire s @ take n view)"
  by (rule sendall_wire [OF assms])

theorem sendall_sends_all_witness:
  "sends_prefix three_bytes id \<and> sock_sendall three_bytes [1, 2, 3, 4, 5, 6, 7] [] = Some (Inr (), [1, 2, 3, 4, 5, 6, 7])"
proof -
  obtain t where t: "sock_sendall three_bytes [1, 2, 3, 4, 5, 6, 7] [] = Some (Inr (), t)"
    by (simp add: sock_sendall.simps three_bytes_def slice_from_def)
  then show ?thesis using wp_Inr [OF sendall_sends_all [OF three_bytes_ok] t] three_bytes_ok by simp
qed

text \<open>
  C35. When \<open>create_unix_connection\<close> was given a path and preparing or connecting the new
  socket fails, the socket is closed and the same exception is raised.
\<close>

theorem failed_connection_closes:
  assumes "check_connection_ssl ssl host hs sd = Inr ()" and "fspath p = Inr p"
    and "l_socket L AF_UNIX SOCK_STREAM w = (Inr sk, w1)"
    and "(case l_setblocking L sk False w1 of (Inl e, v) \<Rightarrow> (Inl e, v) | (Inr _, v) \<Rightarrow> l_sock_connect L sk p v) = (Inl e, w2)"
    and "l_sock_close L sk w2 = (Inr (), w3)"
  shows "create_unix_connection L (Some p) ssl None host hs sd w = Some (Inl e, w3)"
  by (rule connection_failed [OF assms(1-3) _ assms(5)]) (use assms(4) in \<open>simp add: connect_attempt_def\<close>)

theorem failed_connection_closes_witness:
  "create_unix_connection sim_sys (Some (AddrStr [47, 97])) SslNone None HostNone None None sys0 =
     Some (Inl (OSError 111), \<lparr>sy_open = [7], sy_closed = [7]\<rparr>)"
  by (rule failed_connection_closes [where ?w1.0 = "\<lparr>sy_open = [7], sy_closed = []\<rparr>" and
      ?w2.0 = "\<lparr>sy_open = [7], sy_closed = []\<rparr>" and sk = "\<lparr>sock_id = 7, sock_family = AF_UNIX,
      sock_type = SOCK_STREAM, sock_proto = 0\<rparr>"])
    (simp_all add: check_connection_ssl_def ssl_truthy_def fspath_def sim_sys_def sys0_def)

text \<open>
  C36. \<open>create_unix_connection\<close> returns a transport only for consistent arguments: exactly one
  of path and socket, a Unix stream socket, and the TLS arguments only together with TLS.
\<close>

theorem connection_arguments_checked:
  assumes "create_unix_connection L path ssl sock host hs sd w = Some (Inr r, t)"
  shows "(path = None) \<noteq> (sock = None) \<and> (ssl_truthy ssl \<longleftrightarrow> host \<noteq> HostNone) \<and> host \<noteq> HostOther \<and>
    (\<not> ssl_truthy ssl \<longrightarrow> hs = None \<and> sd = None) \<and>
    (\<forall>sk. sock = Some sk \<longrightarrow> sock_family sk = AF_UNIX \<and> sock_type sk = SOCK_STREAM)"
  by (rule connection_valid [OF assms])

theorem connection_arguments_checked_witness:
  "create_unix_connection sim_sys None SslContext (Some \<lparr>sock_id = 4, sock_family = AF_UNIX, sock_type = SOCK_STREAM,
     sock_proto = 0\<rparr>) (HostStr ''a'') None None sys0 = Some (Inr (0, 1), sys0) \<and> HostStr ''a'' \<noteq> HostNone"
proof -
  have run: "create_unix_connection sim_sys None SslContext (Some \<lparr>sock_id = 4, sock_family = AF_UNIX, sock_type = SOCK_STREAM,
     sock_proto = 0\<rparr>) (HostStr ''a'') None None sys0 = Some (Inr (0, 1), sys0)"
    by (simp add: create_unix_connection_def check_connection_ssl_def check_unix_stream_def ssl_truthy_def sim_sys_def py_defs)
  from connection_arguments_checked [OF run] run show ?thesis by (simp add: ssl_truthy_def)
qed



text \<open>
  C38. A hang-up or an error on the read side of a write pipe that is idle closes the transport:
  the poll is forgotten without being cancelled, and the loss of the connection is announced
  once, at once unless data is still buffered.
\<close>

theorem hangup_closes_pipe:
  assumes "fut_state (futs (el_proactor s) f) = Finished (Inr (VInt ev))"
    and "ev div POLLHUP mod 2 = 1 \<or> ev div POLLERR mod 2 = 1"
    and "\<not> tp_closing s" and "tp_read_fut s = Some f" and "tp_write_fut s = None"
  shows "pipe_closed E f s = Some (Inr (), s\<lparr>tp_read_fut := None, tp_closing := True,
     tp_conn_lost := Suc (tp_conn_lost s),
     el_soon := el_soon s @ (if tp_buffered s then [] else [CallConnectionLost None])\<rparr>)"
  by (rule pipe_closed_hup [OF assms])

theorem hangup_closes_pipe_witness:
  "\<exists>t. pipe_closed sim_env 0 sim_pipe = Some (Inr (), t) \<and> tp_closing t \<and> tp_read_fut t = None \<and>
     el_soon t = [CallConnectionLost None]"
  by (subst hangup_closes_pipe [where ev = 8])
    (simp_all add: sim_pipe_def pipe_transport.defs evloop.defs POLLERR_def POLLHUP_def)

text \<open>
  C39. \<open>check_kernel_version\<close> on Linux accepts a release that starts with a printed version
  exactly when that version is at least 5.19, compared component by component.
\<close>

theorem kernel_version_checked:
  assumes "rest = [] \<or> \<not> py_digit (hd rest)" and "length (show_nat a) \<le> 4300" and "length (show_nat b) \<le> 4300"
  shows "check_kernel_version ''Linux'' (show_nat a @ CHR ''.'' # show_nat b @ rest) =
    (if Version 5 19 \<le> Version a b then Inr () else Inl (RuntimeError ''Linux kernel 5.19+ required''))"
  by (rule check_printed [OF assms])

theorem kernel_version_checked_witness:
  "check_kernel_version ''Linux'' (show_nat 5 @ CHR ''.'' # show_nat 4 @ ''.0-42-generic'') =
     Inl (RuntimeError ''Linux kernel 5.19+ required'') \<and>
   check_kernel_version ''Linux'' (show_nat 6 @ CHR ''.'' # show_nat 1 @ ''.0'') = Inr ()"
proof -
  have d: "\<not> py_digit (hd (''.0-42-generic''))" "\<not> py_digit (hd (''.0''))"
    by (simp_all add: py_digit_def is_digit_of_def digit_val_def)
  have "length (show_nat 5) \<le> 4300" "length (show_nat 4) \<le> 4300" "length (show_nat 6) \<le> 4300" "length (show_nat 1) \<le> 4300"
    by (simp_all add: show_nat.simps)
  then show ?thesis
    using kernel_version_checked [of "''.0-42-generic''" 5 4] kernel_version_checked [of "''.0''" 6 1] d by simp
qed

section \<open>The build\<close>

text \<open>
  C40. When building the extensions returns and one of the two that need \<open>liburing\<close> is among them,
  the vendored copy was configured and then compiled, both without error and with flags that end
  in \<open>-fPIC\<close> (the archive goes into shared objects); the base class then built the same extensions
  in the same order, with the archive and its headers for the named ones and the others untouched.
\<close>

theorem archive_built_and_linked:
  assumes "build_extensions B src cc base exts w = Some (Inr (), t)"
    and "e \<in> set exts" and "ext_name e \<in> LIBURING_EXTENSION_NAMES"
  shows "\<exists>dir env fl w1 w2 w3 exts'. dir = b_build_temp B w @ [''vendored-liburing''] \<and>
    env ''LIBURING_CFLAGS'' = Some (fl @ ''-fPIC'') \<and>
    b_run B [''sh'', ''configure'', ''--use-libc''] dir env w1 = (Inr (), w2) \<and>
    b_run B [''make'', ''-C'', ''src'', ''liburing.a''] dir env (b_announce B ''building vendored static liburing'' w2) = (Inr (), w3) \<and>
    base exts' w3 = Some (Inr (), t) \<and> list_all2 (linked_to dir) exts exts'"
proof -
  let ?dir = "b_build_temp B w @ [''vendored-liburing'']"
  obtain w3 exts' where run: "build_vendored_liburing B src cc w = Some (Inr (?dir @ [''src'', ''liburing.a'']), w3)"
      and l: "base exts' w3 = Some (Inr (), t)" "list_all2 (linked_to ?dir) exts exts'"
    using extensions_linked [OF assms(1,2)] assms(3) by (auto simp: needs_archive_def)
  show ?thesis
    using build_returned [OF run] environment_pic l unfolding Let_def by metis
qed

theorem archive_built_and_linked_witness:
  "build_extensions sim_build [''libs''] None (\<lambda>_. ret ()) [sim_ext] [] =
     Some (Inr (), [[''sh'', ''configure'', ''--use-libc''], [''make'', ''-C'', ''src'', ''liburing.a'']]) \<and>
   (\<exists>exts'. list_all2 (linked_to [''tmp'', ''vendored-liburing'']) [sim_ext] exts')"
  using archive_built_and_linked [OF build_run, of sim_ext] build_run
  by (auto simp: sim_ext_def LIBURING_EXTENSION_NAMES_def sim_build_def)

section \<open>Further facts\<close>

text \<open>
  A completion whose operation computes a result finishes the pending future with exactly
  that result and reports it: the operation is marked, the entry is gone, nothing else of the
  state changes.
\<close>

theorem completion_sets_result:
  assumes "proactor_inv s" and "(cqe_user_data cqe, p) \<in> set (cache s)" and "pc_future p = Some f"
    and "mark_seen E (cqe_user_data cqe) (ops s (pc_operation p), world s) = Some (Inr (), (op', w))"
    and "\<not> is_stopped s (get_file_obj op')" and "fut_state (futs s f) = Pending"
    and "operate E op' (cqe_res cqe) w = Some (Inr (SetResult v), w')"
  shows "handle_cqe E cqe s = Some (Inr (),
    s\<lparr>cache := AList.delete (cqe_user_data cqe) (cache s), ops := (ops s)(pc_operation p := op'),
      futs := (futs s)(f := (futs s f)\<lparr>fut_state := Finished (Inr v)\<rparr>),
      world := w', results := results s @ [f]\<rparr>)"
proof -
  let ?t = "marked s (cqe_user_data cqe) p op' w"
  have ns: "\<not> is_stopped ?t (get_file_obj op')"
    using assms(5) by (simp add: is_stopped_def marked_def split: fileobj.splits)
  have r: "run_operation E cqe (pc_operation p) f ?t =
      Some (Inr (), (set_fut_state f (Finished (Inr v)) (?t\<lparr>world := w'\<rparr>))\<lparr>results := results ?t @ [f]\<rparr>)"
    by (rule run_settled) (use assms(6,7) in \<open>auto simp: marked_def fut_done_def\<close>)
  show ?thesis
    using handle_future [OF assms(1-4)] ns r by (simp add: marked_def set_fut_state_def)
qed

theorem completion_sets_result_witness:
  "handle_cqe sim_env cqe_ok sim_busy = Some (Inr (), final (handle_cqe sim_env cqe_ok) sim_busy) \<and>
   fut_state (futs (final (handle_cqe sim_env cqe_ok) sim_busy) 0) = Finished (Inr (VInt 5)) \<and>
   results (final (handle_cqe sim_env cqe_ok) sim_busy) = [0]"
proof -
  have "handle_cqe sim_env cqe_ok sim_busy = Some (Inr (),
    sim_busy\<lparr>cache := AList.delete (cqe_user_data cqe_ok) (cache sim_busy), ops := (ops sim_busy)(0 := sim_mark),
      futs := (futs sim_busy)(0 := (futs sim_busy 0)\<lparr>fut_state := Finished (Inr (VInt 5))\<rparr>),
      world := world sim_busy, results := results sim_busy @ [0]\<rparr>)"
    using completion_sets_result [OF sim_inv(2), of cqe_ok _ 0 sim_env sim_mark "world sim_busy" "VInt 5" "world sim_busy"]
      mark_run
    by (simp add: cqe_ok_def sim_busy_cache sim_busy_op is_stopped_def sim_mark_def ret_def bindM_def)
  then show ?thesis by (simp add: final_def sim_busy_op)
qed

text \<open>
  \<open>ensure_capacity\<close> returns only with room for the whole group, so the entries prepared
  next need no flush between them; it never touches what is registered or prepared.
\<close>

theorem capacity_ensured:
  "wp True (ensure_capacity E k) s
    (\<lambda>_ t. k \<le> e_sq_space_left E (world t) \<and> cache t = cache s \<and> unsubmitted t = unsubmitted s)
    (\<lambda>_ t. cache t = cache s \<and> unsubmitted t = unsubmitted s)"
  by (rule wp_mono [OF wp_ensure_capacity]) (auto simp: queue_room_def dest: sub_frameD)

text \<open>
  Whatever the operation and the order in which its completions arrive, once each of its
  \<open>user_data\<close> values has been seen there is nothing left to cancel.
\<close>

theorem seen_all_nothing_to_cancel:
  assumes "op_wf op" and "set us = op_tags op"
  shows "get_user_data (fst (mark_all E us (op, w))) = None"
  by (rule mark_all_complete [OF assms])

theorem seen_all_nothing_to_cancel_witness:
  "get_user_data (SendfileOp sim_pair_op) = Some 1 \<and>
   get_user_data (fst (mark_all sim_env [2, 1] (SendfileOp sim_pair_op, sim0))) = None"
  using seen_all_nothing_to_cancel [of "SendfileOp sim_pair_op" "[2, 1]" sim_env sim0]
  by (auto simp: sim_pair_op_def op_defs)

text \<open>
  \<open>select\<close> with results at hand returns them without polling; in any case it leaves
  the list empty when it returns.
\<close>

theorem select_hands_over:
  "(results s \<noteq> [] \<longrightarrow> select E timeout s = Some (Inr (results s), s\<lparr>results := []\<rparr>)) \<and>
   wp True (select E timeout) s (\<lambda>_ t. results t = []) (\<lambda>_ _. True)"
  using select_pending select_clears by auto

theorem select_hands_over_witness:
  "results (final (handle_cqe sim_env cqe_ok) sim_busy) = [0] \<and>
   (\<exists>t. select sim_env None (final (handle_cqe sim_env cqe_ok) sim_busy) = Some (Inr [0], t))"
proof -
  have "results (final (handle_cqe sim_env cqe_ok) sim_busy) = [0]"
    by (simp add: cqe_ok_def sim_busy_def final_def recv_into_def start_run sim_defs new_proactor_def complete_run Let_def)
  then show ?thesis
    using select_hands_over [of "final (handle_cqe sim_env cqe_ok) sim_busy" sim_env None] by auto
qed

text \<open>
  When binding the path of a new server fails, the socket is closed and the error is
  raised, whether or not a stale socket file was looked for.
\<close>

theorem failed_bind_closes:
  assumes "\<And>b. ssl \<noteq> SslBool b" and "ssl = SslNone \<longrightarrow> hs = None \<and> sd = None"
    and "fspath p = Inr p" and "path_bytes p = b # bs" and "l_socket L AF_UNIX SOCK_STREAM w = (Inr sk, w1)"
    and "(if b \<noteq> 0 then remove_stale L p w1 else Some (Inr (), w1)) = Some (Inr (), w2)"
    and "l_bind L sk p w2 = (Inl e, w3)" and "l_sock_close L sk w3 = (Inr (), w4)"
  shows "create_unix_server L (Some p) None backlog ssl hs sd serving w = Some (Inl e, w4)"
  by (rule server_bind_failed [OF assms])

theorem failed_bind_closes_witness:
  "create_unix_server sim_sys (Some (AddrStr [47, 97])) None 100 SslNone None None True sys0 =
     Some (Inl (OSError EADDRINUSE), \<lparr>sy_open = [7], sy_closed = [7]\<rparr>)"
  by (rule failed_bind_closes [where ?w1.0 = "\<lparr>sy_open = [7], sy_closed = []\<rparr>" and
      ?w2.0 = "\<lparr>sy_open = [7], sy_closed = []\<rparr>" and ?w3.0 = "\<lparr>sy_open = [7], sy_closed = []\<rparr>" and
      sk = "\<lparr>sock_id = 7, sock_family = AF_UNIX, sock_type = SOCK_STREAM, sock_proto = 0\<rparr>"])
    (simp_all add: fspath_def path_bytes_def sim_sys_def sys0_def remove_stale_def py_defs)

text \<open>
  \<open>close\<close> on a closed proactor does nothing. When \<open>close\<close> returns, every registered
  completion has been received, the ring is released and the results are dropped.
\<close>

theorem close_drains:
  "(\<not> iouring s \<longrightarrow> close E s = Some (Inr (), s)) \<and>
   wp True (close E) s (\<lambda>_ t. \<not> iouring t \<and> (iouring s \<longrightarrow> cache t = [] \<and> results t = [])) (\<lambda>_ _. True)"
  using close_again close_outcome by auto

theorem close_drains_witness:
  "iouring sim_proactor \<and> \<not> iouring (final (close sim_env) sim_proactor) \<and>
   close sim_env (final (close sim_env) sim_proactor) = Some (Inr (), final (close sim_env) sim_proactor)"
proof -
  have "iouring sim_proactor" by (simp add: sim_proactor_def)
  moreover have "\<not> iouring (final (close sim_env) sim_proactor)"
    using wp_Inr [OF conjunct2 [OF close_drains] close_run] by blast
  ultimately show ?thesis using close_drains [of "final (close sim_env) sim_proactor" sim_env] by blast
qed

text \<open>
  Keep-alive: whichever of the eleven preparations fills an entry, every memory cell it
  passes to the kernel belongs to the request it returns, which the cache then holds; before
  the call it only allocates, and when it raises the entry was not written.
\<close>

theorem prepared_memory_owned:
  assumes "p \<in> {io_uring_prep_send E r1, io_uring_prep_recv E r2, io_uring_prep_write E r3,
      io_uring_prep_read E r4, io_uring_prep_accept E r5, io_uring_prep_connect E r6,
      io_uring_prep_poll_add E r7, io_uring_prep_cancel64 E r8, io_uring_prep_sendto E r9,
      io_uring_prep_recvfrom E r10, io_uring_prep_splice E r11}"
  shows "wp False (p q) w
    (\<lambda>r t. \<exists>c w1. ffi_allocs E w w1 \<and> t = e_prep E q c w1 \<and> call_cells c \<subseteq> owned_cells r)
    (\<lambda>_ t. ffi_allocs E w t)"
proof -
  have "prep_interface E p" using assms prep_interfaces by auto
  from prep_interface.prep_runs [OF this, of q w] show ?thesis by (simp add: filled_entry_def)
qed

theorem prepared_memory_owned_witness:
  "\<exists>r t. io_uring_prep_recv sim_env \<lparr>rcv_sock = sim_sock, rcv_buffer = sim_buf, rcv_flags = 0,
      rcv_buffer_cdata = None\<rparr> 7 sim0 = Some (Inr r, t) \<and>
    (\<exists>c w1. ffi_allocs sim_env sim0 w1 \<and> t = e_prep sim_env 7 c w1 \<and> call_cells c \<subseteq> owned_cells r)"
proof -
  let ?r = "\<lparr>rcv_sock = sim_sock, rcv_buffer = sim_buf, rcv_flags = 0, rcv_buffer_cdata = None\<rparr>"
  obtain r t where run: "io_uring_prep_recv sim_env ?r 7 sim0 = Some (Inr r, t)"
    by (simp add: start_run sim_defs)
  from wp_Inr [OF prepared_memory_owned [of "io_uring_prep_recv sim_env ?r" sim_env _ ?r] run] run
  show ?thesis by auto
qed

text \<open>
  A completion that arrives after its future is done (a cancelled operation, or the second
  half of a failed pair) only marks the operation and drops the entry; the future and the
  results stay.
\<close>

theorem late_completion_ignored:
  assumes "proactor_inv s" and "(cqe_user_data cqe, p) \<in> set (cache s)" and "pc_future p = Some f"
    and "mark_seen E (cqe_user_data cqe) (ops s (pc_operation p), world s) = Some (Inr (), (op', w))"
    and "\<not> is_stopped s (get_file_obj op')" and "fut_done (futs s f)"
  shows "handle_cqe E cqe s = Some (Inr (),
    s\<lparr>cache := AList.delete (cqe_user_data cqe) (cache s), ops := (ops s)(pc_operation p := op'), world := w\<rparr>)"
proof -
  let ?t = "marked s (cqe_user_data cqe) p op' w"
  have "\<not> is_stopped ?t (get_file_obj op')"
    using assms(5) by (simp add: is_stopped_def marked_def split: fileobj.splits)
  moreover have "run_operation E cqe (pc_operation p) f ?t = Some (Inr (), ?t)"
    by (rule run_done) (use assms(6) in \<open>simp add: marked_def\<close>)
  ultimately show ?thesis using handle_future [OF assms(1-4)] by (simp add: marked_def)
qed

theorem late_completion_ignored_witness:
  "\<exists>t. fut_state (futs sim_cancelled 0) = Cancelled \<and> handle_cqe sim_env cqe_ok sim_cancelled = Some (Inr (), t) \<and>
     futs t 0 = futs sim_cancelled 0 \<and> map fst (cache t) = [2] \<and> results t = []"
  using late_completion_ignored [OF sim_cancelled_inv(2), of cqe_ok _ 0 sim_env sim_mark "world sim_cancelled"] mark_run
  by (simp add: cqe_ok_def sim_busy_cache sim_cancelled_facts is_stopped_def sim_mark_def fut_done_def)

end
